(* ===== verification/Arcade_Prelude.thy ===== *)
theory Arcade_Prelude
  imports Main "HOL-Library.Multiset"
begin

text \<open>
  What the theories of the development share: bytes of Go strings, Go's
  \<^verbatim>\<open>map[string]int\<close> counters with their read-as-zero default, the interface of a component
  whose operations are atomic steps on its state, the ownership of shared resources, and generic
  list lemmas.
\<close>

named_theorems inv_defs \<open>the invariants of the components, unfolded\<close>
named_theorems op_defs \<open>the operations of the components, unfolded\<close>

section \<open>Bytes\<close>

text \<open>A Go string or byte slice is a \<^typ>\<open>string\<close>; its characters are its bytes.\<close>

abbreviation byte :: "char \<Rightarrow> nat" where
  "byte c \<equiv> of_char c"

definition chr :: "nat \<Rightarrow> char" where
  "chr n = char_of n"

lemma byte_less [simp]: "byte c < 256"
  by simp

lemma byte_div [simp]: "byte c div 16 < 16" "byte c div 4 < 64" "byte c div 64 < 4"
  using byte_less [of c] by linarith+

lemma byte_chr [simp]: "n < 256 \<Longrightarrow> byte (chr n) = n"
  by (simp add: chr_def)

lemma chr_byte [simp]: "chr (byte c) = c"
  by (simp add: chr_def)

lemma chr_eq_iff: "m < 256 \<Longrightarrow> n < 256 \<Longrightarrow> chr m = chr n \<longleftrightarrow> m = n"
  by (metis byte_chr)

lemma chr_lf: "chr 10 = CHR 0x0A" and chr_cr: "chr 13 = CHR 0x0D"
  by code_simp+

section \<open>Counters: \<^verbatim>\<open>map[K]int\<close>\<close>

text \<open>Reading an absent key of a Go map yields the zero value.\<close>

definition getd :: "('k \<rightharpoonup> int) \<Rightarrow> 'k \<Rightarrow> int" where
  "getd m k = (case m k of None \<Rightarrow> 0 | Some n \<Rightarrow> n)"

text \<open>\<^verbatim>\<open>m[k]++\<close>.\<close>

definition incr :: "('k \<rightharpoonup> int) \<Rightarrow> 'k \<Rightarrow> ('k \<rightharpoonup> int)" where
  "incr m k = m(k \<mapsto> getd m k + 1)"

text \<open>\<^verbatim>\<open>m[k]--; if m[k] == 0 { delete(m, k) }\<close>.\<close>

definition decr :: "('k \<rightharpoonup> int) \<Rightarrow> 'k \<Rightarrow> ('k \<rightharpoonup> int)" where
  "decr m k = (let m' = m(k \<mapsto> getd m k - 1) in if getd m' k = 0 then m'(k := None) else m')"

text \<open>
  What such a counter means: it tallies a number of occurrences for every key, and holds an entry
  for the keys that occur only, so that the map never outgrows what it counts.
\<close>

definition tallies :: "('k \<rightharpoonup> int) \<Rightarrow> ('k \<Rightarrow> nat) \<Rightarrow> bool" where
  "tallies m c \<longleftrightarrow> (\<forall>k. m k = (if c k = 0 then None else Some (int (c k))))"

lemma tallies_getd: "tallies m c \<Longrightarrow> getd m k = int (c k)"
  by (simp add: tallies_def getd_def)

lemma tallies_empty [simp]: "tallies Map.empty (\<lambda>_. 0)"
  by (simp add: tallies_def)

lemma tallies_cong: "tallies m c \<Longrightarrow> (\<And>k. c' k = c k) \<Longrightarrow> tallies m c'"
  by (simp add: tallies_def)

lemma tallies_incr:
  "tallies m c \<Longrightarrow> (\<And>j. c' j = (if j = k then c k + 1 else c j)) \<Longrightarrow> tallies (incr m k) c'"
  using tallies_getd [of m c k] by (simp add: tallies_def incr_def)

lemma tallies_decr:
  "tallies m c \<Longrightarrow> 0 < c k \<Longrightarrow> (\<And>j. c' j = (if j = k then c k - 1 else c j)) \<Longrightarrow>
   tallies (decr m k) c'"
  by (auto simp: tallies_def decr_def Let_def getd_def split: if_splits)

section \<open>Components as machines\<close>

text \<open>
  The contract of a component whose operations run under one lock: it starts in a state that
  satisfies its invariant, and every atomic operation keeps it. Then it holds in every state an
  interleaving of operations can reach.
\<close>

locale machine =
  fixes init :: "'s \<Rightarrow> bool"
    and step :: "'s \<Rightarrow> 's \<Rightarrow> bool"
    and inv :: "'s \<Rightarrow> bool"
  assumes init_inv: "init s \<Longrightarrow> inv s"
    and step_inv: "inv s \<Longrightarrow> step s t \<Longrightarrow> inv t"
begin

lemma steps_inv: "step\<^sup>*\<^sup>* s t \<Longrightarrow> inv s \<Longrightarrow> inv t"
  by (induction rule: rtranclp_induct) (auto intro: step_inv)

lemma reach_inv: "init s \<Longrightarrow> step\<^sup>*\<^sup>* s t \<Longrightarrow> inv t"
  by (blast intro: steps_inv init_inv)

end

section \<open>Ownership\<close>

text \<open>What each of several holders has, if anything, from their states.\<close>

definition held :: "('a \<Rightarrow> 'b option) \<Rightarrow> (nat \<rightharpoonup> 'a) \<Rightarrow> nat \<rightharpoonup> 'b" where
  "held f S = (\<lambda>n. Option.bind (S n) f)"

lemma held_upd [simp]: "held f (S(n \<mapsto> s)) = (held f S)(n := f s)" "held f (S(n := None)) = (held f S)(n := None)"
  by (auto simp: held_def fun_eq_iff)

lemma held_Some: "S n = Some s \<Longrightarrow> held f S n = f s"
  by (simp add: held_def)

text \<open>
  \<open>owns h F\<close>: every entry of \<open>F\<close> is held by exactly one holder, with its value, and nothing else is held.
  A resource is handed out when it is free, changed and given back by its holder.
\<close>

definition owns :: "(nat \<rightharpoonup> nat \<times> 'v) \<Rightarrow> (nat \<rightharpoonup> 'v) \<Rightarrow> bool" where
  "owns h F \<longleftrightarrow>
     (\<forall>n c v. h n = Some (c, v) \<longrightarrow> F c = Some v)
     \<and> (\<forall>c v. F c = Some v \<longrightarrow> (\<exists>n. h n = Some (c, v)))
     \<and> (\<forall>n n' c v v'. h n = Some (c, v) \<longrightarrow> h n' = Some (c, v') \<longrightarrow> n = n')"

lemma ownsD:
  assumes "owns h F"
  shows "h n = Some (c, v) \<Longrightarrow> F c = Some v" "F c = Some v \<Longrightarrow> \<exists>n. h n = Some (c, v)"
    "h n = Some (c, v) \<Longrightarrow> h n' = Some (c, v') \<Longrightarrow> n = n'"
  using assms unfolding owns_def by blast+

lemma ownsI:
  assumes "\<And>n c v. h n = Some (c, v) \<Longrightarrow> F c = Some v" "\<And>c v. F c = Some v \<Longrightarrow> \<exists>n. h n = Some (c, v)"
    "\<And>n n' c v v'. h n = Some (c, v) \<Longrightarrow> h n' = Some (c, v') \<Longrightarrow> n = n'"
  shows "owns h F"
  using assms unfolding owns_def by blast

lemma other_holder: "\<exists>m. h m = Some y \<Longrightarrow> h n \<noteq> Some y \<Longrightarrow> \<exists>m. (h(n := x)) m = Some y"
  by (metis fun_upd_other)

lemma owns_gain:
  assumes "owns h F" "h n = None" "F c = None"
  shows "owns (h(n \<mapsto> (c, v))) (F(c \<mapsto> v))"
proof (rule ownsI)
  note h = ownsD [OF assms(1)]
  have fresh: "h m \<noteq> Some (c, w)" for m w using h(1) [of m c w] assms(3) by auto
  show "(F(c \<mapsto> v)) d = Some w" if "(h(n \<mapsto> (c, v))) m = Some (d, w)" for m d w
    using that h(1) [of m d w] fresh [of m w] by (auto split: if_splits)
  show "\<exists>m. (h(n \<mapsto> (c, v))) m = Some (d, w)" if "(F(c \<mapsto> v)) d = Some w" for d w
    using that h(2) [of d w] assms(2) other_holder [of h "(d, w)" n] by (cases "d = c") (auto intro: exI [of _ n])
  show "m = m'" if "(h(n \<mapsto> (c, v))) m = Some (d, w)" "(h(n \<mapsto> (c, v))) m' = Some (d, w')" for m m' d w w'
    using that h(3) [of m d w m' w'] fresh by (auto split: if_splits)
qed

lemma owns_change:
  assumes "owns h F" "h n = Some (c, v)"
  shows "owns (h(n \<mapsto> (c, w))) (F(c \<mapsto> w))"
proof (rule ownsI)
  note h = ownsD [OF assms(1)]
  have only: "m = n" if "h m = Some (c, u)" for m u using h(3) [OF that assms(2)] .
  show "(F(c \<mapsto> w)) d = Some u" if "(h(n \<mapsto> (c, w))) m = Some (d, u)" for m d u
    using that h(1) [of m d u] only by (auto split: if_splits)
  show "\<exists>m. (h(n \<mapsto> (c, w))) m = Some (d, u)" if "(F(c \<mapsto> w)) d = Some u" for d u
    using that h(2) [of d u] assms(2) other_holder [of h "(d, u)" n] by (cases "d = c") (auto intro: exI [of _ n])
  show "m = m'" if "(h(n \<mapsto> (c, w))) m = Some (d, u)" "(h(n \<mapsto> (c, w))) m' = Some (d, u')" for m m' d u u'
    using that h(3) [of m d u m' u'] only by (auto split: if_splits)
qed

lemma owns_lose:
  assumes "owns h F" "h n = Some (c, v)"
  shows "owns (h(n := None)) (F(c := None))"
proof (rule ownsI)
  note h = ownsD [OF assms(1)]
  have only: "m = n" if "h m = Some (c, u)" for m u using h(3) [OF that assms(2)] .
  show "(F(c := None)) d = Some u" if "(h(n := None)) m = Some (d, u)" for m d u
    using that h(1) [of m d u] only by (auto split: if_splits)
  show "\<exists>m. (h(n := None)) m = Some (d, u)" if "(F(c := None)) d = Some u" for d u
    using that h(2) [of d u] assms(2) other_holder [of h "(d, u)" n None] by (cases "d = c") auto
  show "m = m'" if "(h(n := None)) m = Some (d, u)" "(h(n := None)) m' = Some (d, u')" for m m' d u u'
    using that h(3) [of m d u m' u'] by (auto split: if_splits)
qed

lemma owns_keep: "owns h F \<Longrightarrow> h n = x \<Longrightarrow> owns (h(n := x)) F"
  by (simp add: fun_upd_idem)

text \<open>A set of resources without a value.\<close>

definition members :: "nat set \<Rightarrow> nat \<rightharpoonup> unit" where
  "members R = (\<lambda>c. if c \<in> R then Some () else None)"

lemma members_simps [simp]:
  "members (insert c R) = (members R)(c \<mapsto> ())" "members (R - {c}) = (members R)(c := None)"
  "members R c = None \<longleftrightarrow> c \<notin> R" "members R c = Some u \<longleftrightarrow> c \<in> R" "members {} = Map.empty"
  by (auto simp: members_def fun_eq_iff)

section \<open>Lists\<close>

lemma list_all_take: "list_all P xs \<Longrightarrow> list_all P (take n xs)"
  by (metis append_take_drop_id list_all_append)

lemma dropWhile_none: "list_all (\<lambda>x. \<not> P x) xs \<Longrightarrow> dropWhile P xs = xs"
  by (cases xs) auto

end
