(* ===== verification/Go_Text.thy ===== *)
theory Go_Text
  imports Go_Unicode
begin

text \<open>
  The functions of Go's packages \<^verbatim>\<open>strings\<close> and \<^verbatim>\<open>encoding/hex\<close> that the router calls,
  on byte strings: \<^verbatim>\<open>IndexByte\<close>, \<^verbatim>\<open>HasPrefix\<close>, \<^verbatim>\<open>TrimPrefix\<close>, \<^verbatim>\<open>TrimSpace\<close>, \<^verbatim>\<open>TrimRight\<close> with an ASCII
  cut set, \<^verbatim>\<open>ToLower\<close>, \<^verbatim>\<open>ToUpper\<close>, \<^verbatim>\<open>hex.EncodeToString\<close> and \<^verbatim>\<open>hex.DecodeString\<close>.

  Lemmas: hexadecimal encoding and decoding are inverse to each other on lowercase digits,
  and the text functions act bytewise on ASCII strings.
\<close>

section \<open>Searching and trimming\<close>

text \<open>\<^verbatim>\<open>strings.IndexByte\<close>: the first position of a byte, or \<open>-1\<close>.\<close>

fun IndexByte :: "string \<Rightarrow> char \<Rightarrow> int" where
  "IndexByte [] b = -1"
| "IndexByte (c # cs) b =
     (if c = b then 0 else let i = IndexByte cs b in if i < 0 then -1 else i + 1)"

definition LastIndexByte :: "string \<Rightarrow> char \<Rightarrow> int" where
  "LastIndexByte s b =
     (let i = IndexByte (rev s) b in if i < 0 then -1 else int (length s) - 1 - i)"

definition HasPrefix :: "string \<Rightarrow> string \<Rightarrow> bool" where
  "HasPrefix s p \<longleftrightarrow> take (length p) s = p"

definition TrimPrefix :: "string \<Rightarrow> string \<Rightarrow> string" where
  "TrimPrefix s p = (if HasPrefix s p then drop (length p) s else s)"

text \<open>\<^verbatim>\<open>strings.TrimRight\<close> for a cut set of ASCII characters only.\<close>

definition TrimRight :: "string \<Rightarrow> char list \<Rightarrow> string" where
  "TrimRight s cutset = rev (dropWhile (\<lambda>c. c \<in> set cutset) (rev s))"

definition TrimSpace :: "string \<Rightarrow> string" where
  "TrimSpace s =
     (let sp = (\<lambda>ch :: rune \<times> string. unicode_IsSpace (fst ch))
      in concat (map snd (rev (dropWhile sp (rev (dropWhile sp (chunks s)))))))"

section \<open>Case\<close>

definition ToLower :: "string \<Rightarrow> string" where
  "ToLower s = string_of_runes (map unicode_ToLower (runes s))"

definition ToUpper :: "string \<Rightarrow> string" where
  "ToUpper s = string_of_runes (map unicode_ToUpper (runes s))"

section \<open>Hexadecimal\<close>

definition hex_digit :: "nat \<Rightarrow> char" where
  "hex_digit n = (if n < 10 then chr (48 + n) else chr (87 + n))"

definition hex_EncodeToString :: "string \<Rightarrow> string" where
  "hex_EncodeToString bs = concat (map (\<lambda>c. [hex_digit (byte c div 16), hex_digit (byte c mod 16)]) bs)"

text \<open>The value of a hexadecimal digit of either case.\<close>

definition from_hex :: "char \<Rightarrow> nat option" where
  "from_hex c =
     (if 48 \<le> byte c \<and> byte c \<le> 57 then Some (byte c - 48)
      else if 97 \<le> byte c \<and> byte c \<le> 102 then Some (byte c - 87)
      else if 65 \<le> byte c \<and> byte c \<le> 70 then Some (byte c - 55)
      else None)"

text \<open>\<^verbatim>\<open>hex.DecodeString\<close>: \<open>None\<close> where Go returns an error (a bad digit or an odd length).\<close>

fun hex_DecodeString :: "string \<Rightarrow> string option" where
  "hex_DecodeString [] = Some []"
| "hex_DecodeString [c] = None"
| "hex_DecodeString (c # d # cs) =
     (case (from_hex c, from_hex d) of
        (Some x, Some y) \<Rightarrow> map_option ((#) (chr (16 * x + y))) (hex_DecodeString cs)
      | _ \<Rightarrow> None)"

definition lower_hex :: "char \<Rightarrow> bool" where
  "lower_hex c \<longleftrightarrow> (48 \<le> byte c \<and> byte c \<le> 57) \<or> (97 \<le> byte c \<and> byte c \<le> 102)"

section \<open>Lemmas\<close>

lemma IndexByte_bound: "-1 \<le> IndexByte s b \<and> IndexByte s b < int (length s)"
  by (induction s) (auto simp: Let_def)

lemma IndexByte_append_fresh:
  "b \<notin> set s \<Longrightarrow> IndexByte (s @ b # t) b = int (length s)"
  by (induction s) (auto simp: Let_def)

lemma IndexByte_absent: "IndexByte s b < 0 \<longleftrightarrow> b \<notin> set s"
  by (induction s) (auto simp: Let_def)

lemma IndexByte_absent_eq: "b \<notin> set s \<Longrightarrow> IndexByte s b = -1"
  by (induction s) (auto simp: Let_def)

lemma LastIndexByte_append_fresh:
  "b \<notin> set t \<Longrightarrow> LastIndexByte (s @ b # t) b = int (length s)"
  by (simp add: LastIndexByte_def IndexByte_append_fresh [of b "rev t"])

lemma IndexByte_split:
  "IndexByte s b = int n \<Longrightarrow> \<exists>u v. s = u @ b # v \<and> length u = n \<and> b \<notin> set u"
proof (induction s arbitrary: n)
  case Nil
  then show ?case by simp
next
  case (Cons c s)
  show ?case
  proof (cases "c = b")
    case True
    with Cons.prems have "c # s = [] @ b # s \<and> length ([] :: string) = n" by simp
    then show ?thesis by force
  next
    case False
    with Cons.prems obtain m where m: "IndexByte s b = int m" "n = Suc m"
      by (cases n) (auto simp: Let_def split: if_splits)
    from Cons.IH [OF m(1)] obtain u v where "s = u @ b # v" "length u = m" "b \<notin> set u" by blast
    with False m(2) have "c # s = (c # u) @ b # v \<and> length (c # u) = n \<and> b \<notin> set (c # u)" by simp
    then show ?thesis by blast
  qed
qed

lemma ToLower_ascii: "ascii s \<Longrightarrow> ToLower s = map (\<lambda>c. chr (unicode_ToLower (byte c))) s"
  by (induction s)
    (auto simp: ToLower_def runes_ascii string_of_runes_def ascii_def encode_rune_ascii unicode_ToLower_ascii)

lemma TrimSpace_ascii:
  assumes "ascii s"
  shows "TrimSpace s =
    rev (dropWhile (unicode_IsSpace \<circ> byte) (rev (dropWhile (unicode_IsSpace \<circ> byte) s)))"
  using assms
  by (simp add: TrimSpace_def Let_def chunks_ascii dropWhile_map comp_def rev_map)

subsection \<open>Hexadecimal\<close>

lemma from_hex_digit: "n < 16 \<Longrightarrow> from_hex (hex_digit n) = Some n"
  by (auto simp: from_hex_def hex_digit_def)

lemma lower_hex_digit: "n < 16 \<Longrightarrow> lower_hex (hex_digit n)"
  by (auto simp: lower_hex_def hex_digit_def)

lemma hex_digit_from:
  "lower_hex c \<Longrightarrow> \<exists>n. from_hex c = Some n \<and> n < 16 \<and> hex_digit n = c"
  by (auto simp: lower_hex_def from_hex_def hex_digit_def)

lemma length_hex [simp]: "length (hex_EncodeToString bs) = 2 * length bs"
  by (induction bs) (auto simp: hex_EncodeToString_def)

lemma lower_hex_EncodeToString: "list_all lower_hex (hex_EncodeToString bs)"
  by (induction bs) (auto simp: hex_EncodeToString_def lower_hex_digit)

lemma hex_Decode_Encode: "hex_DecodeString (hex_EncodeToString bs) = Some bs"
  by (induction bs) (simp_all add: hex_EncodeToString_def from_hex_digit)

lemma hex_Encode_Decode:
  "list_all lower_hex s \<Longrightarrow> even (length s) \<Longrightarrow>
   \<exists>bs. hex_DecodeString s = Some bs \<and> hex_EncodeToString bs = s \<and> 2 * length bs = length s"
proof (induction s rule: induct_list012)
  case (3 c d cs)
  then obtain bs where bs: "hex_DecodeString cs = Some bs" "hex_EncodeToString bs = cs"
    "2 * length bs = length cs"
    by auto
  from 3 obtain x y where "from_hex c = Some x" "x < 16" "hex_digit x = c"
    "from_hex d = Some y" "y < 16" "hex_digit y = d"
    using hex_digit_from [of c] hex_digit_from [of d] by auto
  with bs show ?case by (auto simp: hex_EncodeToString_def)
qed (auto simp: hex_EncodeToString_def)

end
