(* ===== verification/Go_Hash.thy ===== *)
theory Go_Hash
  imports Go_Text "HOL-Library.Word"
begin

unbundle bit_operations_syntax

text \<open>
  \<^verbatim>\<open>crypto/sha256\<close> and \<^verbatim>\<open>encoding/base64\<close> as far as the router uses them: the digest of a byte
  string (SHA-256, on 32-bit words that wrap around; the round constants are written in decimal) and the unpadded standard base64
  encoding \<^verbatim>\<open>base64.RawStdEncoding\<close>.

  Lemmas: a digest has 32 bytes, the encoding of \<open>n\<close> bytes has a length that depends on \<open>n\<close>
  only, and encoding is injective, so two digests print alike only if they are equal.
\<close>

section \<open>SHA-256\<close>

type_synonym w32 = "32 word"

definition sha_k :: "w32 list" where
  "sha_k = [
    1116352408, 1899447441, 3049323471, 3921009573, 961987163, 1508970993, 2453635748, 2870763221,
    3624381080, 310598401, 607225278, 1426881987, 1925078388, 2162078206, 2614888103, 3248222580,
    3835390401, 4022224774, 264347078, 604807628, 770255983, 1249150122, 1555081692, 1996064986,
    2554220882, 2821834349, 2952996808, 3210313671, 3336571891, 3584528711, 113926993, 338241895,
    666307205, 773529912, 1294757372, 1396182291, 1695183700, 1986661051, 2177026350, 2456956037,
    2730485921, 2820302411, 3259730800, 3345764771, 3516065817, 3600352804, 4094571909, 275423344,
    430227734, 506948616, 659060556, 883997877, 958139571, 1322822218, 1537002063, 1747873779,
    1955562222, 2024104815, 2227730452, 2361852424, 2428436474, 2756734187, 3204031479, 3329325298]"

datatype sha_state = SHA w32 w32 w32 w32 w32 w32 w32 w32

definition sha_init :: sha_state where
  "sha_init = SHA 1779033703 3144134277 1013904242 2773480762
     1359893119 2600822924 528734635 1541459225"

definition rotr :: "nat \<Rightarrow> w32 \<Rightarrow> w32" where
  "rotr n w = word_rotr n w"

definition sig0 :: "w32 \<Rightarrow> w32" where
  "sig0 x = rotr 7 x XOR rotr 18 x XOR drop_bit 3 x"

definition sig1 :: "w32 \<Rightarrow> w32" where
  "sig1 x = rotr 17 x XOR rotr 19 x XOR drop_bit 10 x"

definition Sig0 :: "w32 \<Rightarrow> w32" where
  "Sig0 x = rotr 2 x XOR rotr 13 x XOR rotr 22 x"

definition Sig1 :: "w32 \<Rightarrow> w32" where
  "Sig1 x = rotr 6 x XOR rotr 11 x XOR rotr 25 x"

definition Ch :: "w32 \<Rightarrow> w32 \<Rightarrow> w32 \<Rightarrow> w32" where
  "Ch x y z = (x AND y) XOR (NOT x AND z)"

definition Maj :: "w32 \<Rightarrow> w32 \<Rightarrow> w32 \<Rightarrow> w32" where
  "Maj x y z = (x AND y) XOR (x AND z) XOR (y AND z)"

text \<open>The message schedule, newest word first, extended by \<open>n\<close> words.\<close>

fun sha_extend :: "nat \<Rightarrow> w32 list \<Rightarrow> w32 list" where
  "sha_extend 0 ws = ws"
| "sha_extend (Suc n) ws =
     sha_extend n ((sig1 (ws ! 1) + ws ! 6 + sig0 (ws ! 14) + ws ! 15) # ws)"

fun sha_round :: "sha_state \<Rightarrow> w32 \<times> w32 \<Rightarrow> sha_state" where
  "sha_round (SHA a b c d e f g h) (k, w) =
     (let t1 = h + Sig1 e + Ch e f g + k + w; t2 = Sig0 a + Maj a b c
      in SHA (t1 + t2) a b c (d + t1) e f g)"

fun sha_add :: "sha_state \<Rightarrow> sha_state \<Rightarrow> sha_state" where
  "sha_add (SHA a b c d e f g h) (SHA a' b' c' d' e' f' g' h') =
     SHA (a + a') (b + b') (c + c') (d + d') (e + e') (f + f') (g + g') (h + h')"

definition sha_block :: "sha_state \<Rightarrow> w32 list \<Rightarrow> sha_state" where
  "sha_block st blk = sha_add st (foldl sha_round st (zip sha_k (rev (sha_extend 48 (rev blk)))))"

fun words_of :: "string \<Rightarrow> w32 list" where
  "words_of (a # b # c # d # r) =
     of_nat (byte a * 16777216 + byte b * 65536 + byte c * 256 + byte d) # words_of r"
| "words_of _ = []"

fun sha_blocks :: "nat \<Rightarrow> sha_state \<Rightarrow> w32 list \<Rightarrow> sha_state" where
  "sha_blocks 0 st ws = st"
| "sha_blocks (Suc n) st ws = sha_blocks n (sha_block st (take 16 ws)) (drop 16 ws)"

definition be64 :: "nat \<Rightarrow> string" where
  "be64 n = map (\<lambda>i. chr (n div 256 ^ i mod 256)) [7, 6, 5, 4, 3, 2, 1, 0]"

definition sha_pad :: "string \<Rightarrow> string" where
  "sha_pad s = s @ [chr 0x80] @ replicate ((119 - length s mod 64) mod 64) (chr 0) @ be64 (8 * length s)"

definition be32 :: "w32 \<Rightarrow> string" where
  "be32 w = map (\<lambda>i. chr (unat w div 256 ^ i mod 256)) [3, 2, 1, 0]"

fun sha_out :: "sha_state \<Rightarrow> string" where
  "sha_out (SHA a b c d e f g h) =
     be32 a @ be32 b @ be32 c @ be32 d @ be32 e @ be32 f @ be32 g @ be32 h"

definition sha256_Sum256 :: "string \<Rightarrow> string" where
  "sha256_Sum256 s =
     (let p = sha_pad s in sha_out (sha_blocks (length p div 64) sha_init (words_of p)))"

lemma length_Sum256 [simp]: "length (sha256_Sum256 s) = 32"
  by (cases "sha_blocks (length (sha_pad s) div 64) sha_init (words_of (sha_pad s))")
    (simp add: sha256_Sum256_def Let_def be32_def)

section \<open>Base64\<close>

definition b64_digit :: "nat \<Rightarrow> char" where
  "b64_digit n =
     (if n < 26 then chr (65 + n) else if n < 52 then chr (71 + n)
      else if n < 62 then chr (n - 4) else if n = 62 then CHR ''+'' else CHR ''/'')"

fun RawStdEncoding :: "string \<Rightarrow> string" where
  "RawStdEncoding [] = []"
| "RawStdEncoding [a] = [b64_digit (byte a div 4), b64_digit (byte a mod 4 * 16)]"
| "RawStdEncoding [a, b] =
     [b64_digit (byte a div 4), b64_digit (byte a mod 4 * 16 + byte b div 16),
      b64_digit (byte b mod 16 * 4)]"
| "RawStdEncoding (a # b # c # r) =
     b64_digit (byte a div 4) # b64_digit (byte a mod 4 * 16 + byte b div 16)
     # b64_digit (byte b mod 16 * 4 + byte c div 64) # b64_digit (byte c mod 64) # RawStdEncoding r"

lemma length_RawStdEncoding: "length (RawStdEncoding s) = (4 * length s + 2) div 3"
  by (induction s rule: RawStdEncoding.induct) auto

lemma byte_b64_digit:
  "n < 64 \<Longrightarrow> byte (b64_digit n) =
     (if n < 26 then 65 + n else if n < 52 then 71 + n else if n < 62 then n - 4
      else if n = 62 then 43 else 47)"
  by (auto simp: b64_digit_def)

lemma b64_digit_inj:
  assumes "b64_digit m = b64_digit n" "m < 64" "n < 64"
  shows "m = n"
proof -
  have "byte (b64_digit m) = byte (b64_digit n)" using assms by simp
  then show ?thesis using assms(2,3)
    by (simp add: byte_b64_digit split: if_splits)
qed

lemma b64_join:
  "byte a mod 4 * 16 + byte b div 16 < 64" "byte b mod 16 * 4 + byte c div 64 < 64"
  "byte a mod 4 * 16 < 64" "byte b mod 16 * 4 < 64" "byte c mod 64 < 64"
proof -
  have "byte a mod 4 < 4" "byte b mod 16 < 16" by simp_all
  then show "byte a mod 4 * 16 + byte b div 16 < 64" "byte b mod 16 * 4 + byte c div 64 < 64"
    "byte a mod 4 * 16 < 64" "byte b mod 16 * 4 < 64" "byte c mod 64 < 64"
    using byte_div(1) [of b] byte_div(3) [of c] by linarith+
qed

lemma byte_eqI: "byte a div n = byte b div n \<Longrightarrow> byte a mod n = byte b mod n \<Longrightarrow> a = b"
  by (metis div_mult_mod_eq of_char_eq_iff)

lemma digits_eqD:
  fixes x y :: nat
  assumes "x * k + y = x' * k + y'" "y < k" "y' < k"
  shows "x = x' \<and> y = y'"
proof -
  have "(x * k + y) div k = (x' * k + y') div k" using assms(1) by simp
  then have "x = x'" using assms(2,3) by simp
  then show ?thesis using assms(1) by simp
qed

lemma b64_first2:
  assumes "b64_digit (byte a div 4) = b64_digit (byte a' div 4)"
    "b64_digit (byte a mod 4 * 16 + byte b div 16) = b64_digit (byte a' mod 4 * 16 + byte b' div 16)"
  shows "a = a' \<and> byte b div 16 = byte b' div 16"
proof -
  have "byte a div 4 = byte a' div 4"
    using b64_digit_inj [OF assms(1)] by simp
  moreover have "byte a mod 4 = byte a' mod 4 \<and> byte b div 16 = byte b' div 16"
    using b64_digit_inj [OF assms(2) b64_join(1) b64_join(1)] by (rule digits_eqD) simp_all
  ultimately show ?thesis by (auto intro: byte_eqI)
qed

lemma RawStdEncoding_inj:
  "RawStdEncoding s = RawStdEncoding t \<Longrightarrow> length s = length t \<Longrightarrow> s = t"
proof (induction s arbitrary: t rule: RawStdEncoding.induct)
  case 1
  then show ?case by simp
next
  case (2 a)
  then obtain a' where t: "t = [a']" by (cases t) auto
  have "b64_digit (byte a div 4) = b64_digit (byte a' div 4)"
    "b64_digit (byte a mod 4 * 16 + byte (chr 0) div 16) = b64_digit (byte a' mod 4 * 16 + byte (chr 0) div 16)"
    using 2 t by simp_all
  from b64_first2 [OF this] show ?case using t by simp
next
  case (3 a b)
  then obtain a' b' where t: "t = [a', b']" by (auto simp: Suc_length_conv length_Suc_conv)
  then have "a = a' \<and> byte b div 16 = byte b' div 16"
    using 3 by (intro b64_first2) simp_all
  moreover have "byte b mod 16 = byte b' mod 16"
    using 3 t b64_digit_inj [OF _ b64_join(4) b64_join(4), of b b'] by simp
  ultimately show ?case using t by (auto intro: byte_eqI)
next
  case (4 a b c r)
  then obtain a' b' c' r' where t: "t = a' # b' # c' # r'"
    by (auto simp: Suc_length_conv length_Suc_conv)
  then have ab: "a = a' \<and> byte b div 16 = byte b' div 16"
    using 4 by (intro b64_first2) simp_all
  have "b64_digit (byte b mod 16 * 4 + byte c div 64) = b64_digit (byte b' mod 16 * 4 + byte c' div 64)"
    using 4 t by simp
  from b64_digit_inj [OF this b64_join(2) b64_join(2)]
  have bc: "byte b mod 16 = byte b' mod 16 \<and> byte c div 64 = byte c' div 64"
    by (rule digits_eqD) simp_all
  have "byte c mod 64 = byte c' mod 64"
    using 4 t b64_digit_inj [OF _ b64_join(5) b64_join(5), of c c'] by simp
  then have "b = b'" "c = c'" using ab bc by (auto intro: byte_eqI)
  moreover have "r = r'" using 4 t by simp
  ultimately show ?case using ab t by simp
qed

end
