(* ===== verification/Proxyproto.thy ===== *)
theory Proxyproto
  imports Go_Hash
begin

text \<open>
  \<^verbatim>\<open>internal/proxyproto\<close>: the router side of the trusted-proxy identity protocol. A keyed player
  is announced to a game as \<^verbatim>\<open><fp-hex64>.<slot>\<close>; games decode that user name strictly.

  Shown: \<open>Parse\<close> and \<open>Encode\<close> are inverse to each other, \<open>Parse\<close> accepts exactly the user names
  \<open>Encode\<close> produces, the slot sanitizer is a projection onto the valid slots, and what a game
  recovers from the user name is the fingerprint the router displays.
\<close>

section \<open>Model\<close>

text \<open>
  A key of \<^verbatim>\<open>golang.org/x/crypto/ssh\<close> is known to the router by the results of its interface
  methods \<^verbatim>\<open>Type\<close> and \<^verbatim>\<open>Marshal\<close> (its wire encoding).
\<close>

record PublicKey =
  key_Type :: string
  key_Marshal :: string

definition DefaultSlot :: string where
  "DefaultSlot = ''default''"

definition fpHexLen :: nat where
  "fpHexLen = 64"

definition maxSlotLen :: nat where
  "maxSlotLen = 32"

text \<open>The characters a slot may hold: \<^verbatim>\<open>[a-z0-9_-]\<close>.\<close>

definition slot_rune :: "rune \<Rightarrow> bool" where
  "slot_rune r \<longleftrightarrow> (97 \<le> r \<and> r \<le> 122) \<or> (48 \<le> r \<and> r \<le> 57) \<or> r = 45 \<or> r = 95"

text \<open>
  The loop of \<^verbatim>\<open>SanitizeSlot\<close>: the builder grows by every accepted rune, the others are skipped,
  and the loop stops as soon as the builder holds \<open>maxSlotLen\<close> bytes.
\<close>

fun sanitize_loop :: "rune list \<Rightarrow> string \<Rightarrow> string" where
  "sanitize_loop [] b = b"
| "sanitize_loop (r # rs) b =
     (if slot_rune r then
        (let b' = b @ encode_rune r in if maxSlotLen \<le> length b' then b' else sanitize_loop rs b')
      else sanitize_loop rs b)"

definition SanitizeSlot :: "string \<Rightarrow> string" where
  "SanitizeSlot raw =
     (let raw' = ToLower (TrimSpace raw) in
      if raw' = [] then [] else sanitize_loop (runes raw') [])"

definition validSlot :: "string \<Rightarrow> bool" where
  "validSlot s \<longleftrightarrow>
     \<not> (length s < 1 \<or> maxSlotLen < length s) \<and> list_all (\<lambda>c. slot_rune (byte c)) s"

definition Encode :: "string \<Rightarrow> string \<Rightarrow> string" where
  "Encode fp slot =
     (let s = SanitizeSlot slot; s' = (if s = [] then DefaultSlot else s)
      in hex_EncodeToString fp @ ''.'' @ s')"

datatype parse_error = WantHexThenDot | NotLowercaseHex | DecodeFingerprint | InvalidSlot string

definition Parse :: "string \<Rightarrow> parse_error + (string \<times> string)" where
  "Parse username =
     (if IndexByte username (CHR ''.'') \<noteq> int fpHexLen then Inl WantHexThenDot
      else
        (let hexPart = take fpHexLen username in
         if \<not> list_all lower_hex hexPart then Inl NotLowercaseHex
         else
           (case hex_DecodeString hexPart of
              None \<Rightarrow> Inl DecodeFingerprint
            | Some fp \<Rightarrow>
                (let slot = drop (fpHexLen + 1) username in
                 if \<not> validSlot slot then Inl (InvalidSlot slot) else Inr (fp, slot)))))"

definition FingerprintBytes :: "PublicKey \<Rightarrow> string" where
  "FingerprintBytes key = sha256_Sum256 (key_Marshal key)"

text \<open>\<^verbatim>\<open>Fingerprint\<close>: a Go interface value may be nil, hence the option.\<close>

definition Fingerprint :: "PublicKey option \<Rightarrow> string" where
  "Fingerprint key =
     (case key of None \<Rightarrow> []
      | Some k \<Rightarrow> ''SHA256:'' @ RawStdEncoding (FingerprintBytes k))"

section \<open>Slots\<close>

lemma slot_rune_ascii: "slot_rune r \<Longrightarrow> r < 0x80"
  by (auto simp: slot_rune_def)

lemma slot_rune_byte: "slot_rune r \<Longrightarrow> byte (chr r) = r"
  by (rule byte_chr) (auto simp: slot_rune_def)

lemma slot_rune_lower: "slot_rune r \<Longrightarrow> unicode_ToLower r = r"
  by (auto simp: slot_rune_def unicode_ToLower_def)

lemma slot_rune_not_space: "slot_rune r \<Longrightarrow> \<not> unicode_IsSpace r"
  by (auto simp: slot_rune_def unicode_IsSpace_def)

lemma sanitize_loop_eq:
  "length b < maxSlotLen \<Longrightarrow>
   sanitize_loop rs b = b @ take (maxSlotLen - length b) (map chr (filter slot_rune rs))"
proof (induction rs arbitrary: b)
  case Nil
  then show ?case by simp
next
  case (Cons r rs)
  show ?case
  proof (cases "slot_rune r \<and> Suc (length b) < maxSlotLen")
    case True
    then have e: "encode_rune r = [chr r]" by (simp add: encode_rune_ascii slot_rune_ascii)
    obtain m where m: "maxSlotLen - length b = Suc m" "maxSlotLen - Suc (length b) = m"
      using Cons.prems by (cases "maxSlotLen - length b") auto
    show ?thesis using True Cons.IH [of "b @ [chr r]"] m by (simp add: e)
  next
    case False
    then show ?thesis using Cons
      by (auto simp: Let_def encode_rune_ascii slot_rune_ascii Suc_diff_le take_Cons' not_less)
  qed
qed

lemma SanitizeSlot_eq:
  "SanitizeSlot raw = take maxSlotLen (map chr (filter slot_rune (runes (ToLower (TrimSpace raw)))))"
  by (simp add: SanitizeSlot_def Let_def sanitize_loop_eq maxSlotLen_def runes_def)

lemma validSlot_ascii: "validSlot s \<Longrightarrow> ascii s"
  by (auto simp: validSlot_def ascii_def list_all_iff dest: slot_rune_ascii)

lemma validSlot_trim_lower:
  assumes "validSlot s"
  shows "ToLower (TrimSpace s) = s"
proof -
  have s: "list_all (\<lambda>c. slot_rune (byte c)) s" using assms by (simp add: validSlot_def)
  have "list_all (\<lambda>c. \<not> (unicode_IsSpace \<circ> byte) c) s"
    using s by (auto simp: list_all_iff dest: slot_rune_not_space)
  then have "TrimSpace s = s"
    by (simp add: TrimSpace_ascii validSlot_ascii [OF assms] dropWhile_none)
  moreover have "ToLower s = s"
    using s by (auto simp: ToLower_ascii validSlot_ascii [OF assms] list_all_iff slot_rune_lower
        intro: map_idI)
  ultimately show ?thesis by simp
qed

lemma SanitizeSlot_valid_fix: "validSlot s \<Longrightarrow> SanitizeSlot s = s"
  by (auto simp: SanitizeSlot_eq validSlot_trim_lower runes_ascii validSlot_ascii validSlot_def
      list_all_iff filter_id_conv intro!: map_idI)

lemma SanitizeSlot_valid: "SanitizeSlot raw \<noteq> [] \<Longrightarrow> validSlot (SanitizeSlot raw)"
proof -
  assume ne: "SanitizeSlot raw \<noteq> []"
  let ?cs = "map chr (filter slot_rune (runes (ToLower (TrimSpace raw))))"
  have "list_all (\<lambda>c. slot_rune (byte c)) ?cs"
    by (auto simp: list_all_iff slot_rune_byte)
  then have "list_all (\<lambda>c. slot_rune (byte c)) (take maxSlotLen ?cs)"
    by (rule list_all_take)
  then show ?thesis using ne unfolding SanitizeSlot_eq by (auto simp: validSlot_def)
qed

lemma validSlot_DefaultSlot: "validSlot DefaultSlot"
  by (simp add: validSlot_def DefaultSlot_def maxSlotLen_def slot_rune_def)

definition sent_slot :: "string \<Rightarrow> string" where
  "sent_slot slot = (if SanitizeSlot slot = [] then DefaultSlot else SanitizeSlot slot)"

lemma validSlot_sent: "validSlot (sent_slot slot)"
  by (simp add: sent_slot_def validSlot_DefaultSlot SanitizeSlot_valid)

lemma Encode_eq: "Encode fp slot = hex_EncodeToString fp @ ''.'' @ sent_slot slot"
  by (simp add: Encode_def sent_slot_def Let_def)

section \<open>Properties\<close>

text \<open>
  The sanitizer is a projection onto the valid slots: a string is a valid slot exactly when
  it is non-empty and the sanitizer leaves it alone, and whatever the sanitizer returns, for any
  bytes a client sends as its user name, is empty or a valid slot.
\<close>

theorem SanitizeSlot_projection:
  "(validSlot s \<longleftrightarrow> s \<noteq> [] \<and> SanitizeSlot s = s)
   \<and> (SanitizeSlot raw = [] \<or> validSlot (SanitizeSlot raw))
   \<and> SanitizeSlot (SanitizeSlot raw) = SanitizeSlot raw"
proof (intro conjI)
  show "validSlot s \<longleftrightarrow> s \<noteq> [] \<and> SanitizeSlot s = s"
    by (metis SanitizeSlot_valid SanitizeSlot_valid_fix list.size(3) less_one validSlot_def)
  show "SanitizeSlot raw = [] \<or> validSlot (SanitizeSlot raw)"
    by (blast intro: SanitizeSlot_valid)
  show "SanitizeSlot (SanitizeSlot raw) = SanitizeSlot raw"
  proof (cases "SanitizeSlot raw = []")
    case True
    then show ?thesis by (simp add: SanitizeSlot_def TrimSpace_def ToLower_def string_of_runes_def runes_def)
  qed (simp add: SanitizeSlot_valid SanitizeSlot_valid_fix)
qed

lemma no_dot_in_hex: "CHR ''.'' \<notin> set (hex_EncodeToString bs)"
  using lower_hex_EncodeToString [of bs] by (auto simp: list_all_iff lower_hex_def)

lemma Parse_hex:
  assumes "length fp = 32"
  shows "Parse (hex_EncodeToString fp @ CHR ''.'' # slot) =
           (if validSlot slot then Inr (fp, slot) else Inl (InvalidSlot slot))"
  using assms
  by (simp add: Parse_def IndexByte_append_fresh no_dot_in_hex fpHexLen_def
      lower_hex_EncodeToString hex_Decode_Encode)

text \<open>
  (C35) Round trip, encoding first: for any 32-byte fingerprint and any requested slot, the user
  name the router sends decodes to that fingerprint and to the sanitized slot (the default slot
  when nothing valid remains).
\<close>

theorem Parse_Encode:
  assumes "length fp = 32"
  shows "Parse (Encode fp slot) =
           Inr (fp, if SanitizeSlot slot = [] then DefaultSlot else SanitizeSlot slot)"
  using Parse_hex [OF assms] validSlot_sent by (simp add: Encode_eq) (simp add: sent_slot_def)

theorem Parse_Encode_witness:
  "length (replicate 32 (CHR ''A'')) = 32
   \<and> Parse (Encode (replicate 32 (CHR ''A'')) ''Scout 7!'') =
       Inr (replicate 32 (CHR ''A''), if SanitizeSlot ''Scout 7!'' = [] then DefaultSlot
                                      else SanitizeSlot ''Scout 7!'')"
  using Parse_Encode [of "replicate 32 (CHR ''A'')" "''Scout 7!''"] by simp

text \<open>
  (C10) Round trip, decoding first, and strictness: a user name that decodes at all is the encoding
  of what it decodes to, its fingerprint has 32 bytes and its slot is valid, so distinct accepted
  user names never denote the same player and slot.
\<close>

theorem Encode_Parse:
  assumes "Parse username = Inr (fp, slot)"
  shows "username = Encode fp slot \<and> length fp = 32 \<and> validSlot slot"
proof -
  from assms have dot: "IndexByte username (CHR ''.'') = int fpHexLen"
    by (auto simp: Parse_def split: if_splits)
  from IndexByte_split [OF this] obtain u v where
    u: "username = u @ CHR ''.'' # v" "length u = fpHexLen" by blast
  with assms dot have "list_all lower_hex u" "hex_DecodeString u = Some fp" "slot = v" "validSlot v"
    by (auto simp: Parse_def Let_def split: if_splits option.splits)
  moreover have "even (length u)" using u by (simp add: fpHexLen_def)
  ultimately have "hex_EncodeToString fp = u" "2 * length fp = length u"
    using hex_Encode_Decode [of u] by auto
  with u \<open>slot = v\<close> \<open>validSlot v\<close> show ?thesis
    by (simp add: Encode_eq sent_slot_def SanitizeSlot_valid_fix fpHexLen_def validSlot_def)
qed

theorem Encode_Parse_witness:
  "let u = hex_EncodeToString (replicate 32 (CHR 0xAA)) @ ''.scout'' in
   Parse u = Inr (replicate 32 (CHR 0xAA), ''scout'') \<and> u = Encode (replicate 32 (CHR 0xAA)) ''scout''"
proof -
  have h: "Parse (hex_EncodeToString (replicate 32 (CHR 0xAA)) @ ''.scout'')
      = Inr (replicate 32 (CHR 0xAA), ''scout'')"
    by (subst Parse_hex) (simp_all add: validSlot_def maxSlotLen_def slot_rune_def)
  show ?thesis using h Encode_Parse [OF h] by simp
qed

lemma Fingerprint_inj:
  "Fingerprint (Some k) = Fingerprint (Some k') \<longleftrightarrow> FingerprintBytes k = FingerprintBytes k'"
  by (auto simp: Fingerprint_def FingerprintBytes_def intro: RawStdEncoding_inj)

lemma length_Fingerprint: "length (Fingerprint (Some k)) = 50"
  by (simp add: Fingerprint_def FingerprintBytes_def length_RawStdEncoding)

text \<open>
  The account is the same through the arcade and direct: the 32 bytes a game decodes from the
  proxied user name, re-encoded as \<^verbatim>\<open>"SHA256:" + base64\<close>, are the fingerprint the router shows for
  the key; two keys share it only if their SHA-256 digests are equal; and the user name is at
  most 97 bytes long.
\<close>

theorem forwarded_account:
  "\<exists>s. Parse (Encode (FingerprintBytes k) slot) = Inr (FingerprintBytes k, s)
     \<and> ''SHA256:'' @ RawStdEncoding (FingerprintBytes k) = Fingerprint (Some k)
     \<and> (Fingerprint (Some k) = Fingerprint (Some k') \<longleftrightarrow> FingerprintBytes k = FingerprintBytes k')
     \<and> length (Encode (FingerprintBytes k) slot) \<le> 97"
proof -
  have "length (FingerprintBytes k) = 32" by (simp add: FingerprintBytes_def)
  moreover have "length (sent_slot slot) \<le> 32"
    using validSlot_sent [of slot] by (simp add: validSlot_def maxSlotLen_def)
  ultimately show ?thesis
    by (simp add: Encode_eq Parse_hex validSlot_sent Fingerprint_inj) (simp add: Fingerprint_def)
qed

end
