(* ===== verification/Go_Net.thy ===== *)
theory Go_Net
  imports Go_Text
begin

text \<open>
  The parts of Go's packages \<^verbatim>\<open>net\<close> and \<^verbatim>\<open>net/netip\<close> that the router calls: \<^verbatim>\<open>SplitHostPort\<close>,
  \<^verbatim>\<open>ParseIP\<close> (IPv4, IPv6 with an ellipsis or an embedded IPv4 tail, no zones) and \<^verbatim>\<open>IP.String\<close>, which
  prints IPv4 and IPv4-mapped addresses in dotted form and compresses the leftmost longest run
  of zero groups of the others. An address is the list of its 16 bytes.
\<close>

section \<open>Host and port\<close>

datatype addr_error = MissingPort | TooManyColons | MissingBracket | UnexpectedOpen | UnexpectedClose

text \<open>\<^verbatim>\<open>net.SplitHostPort\<close>, branch by branch.\<close>

definition SplitHostPort :: "string \<Rightarrow> addr_error + (string \<times> string)" where
  "SplitHostPort hp =
     (let i = LastIndexByte hp (CHR '':'');
          finish = (\<lambda>host j k.
            if 0 \<le> IndexByte (drop j hp) (CHR ''['') then Inl UnexpectedOpen
            else if 0 \<le> IndexByte (drop k hp) (CHR '']'') then Inl UnexpectedClose
            else Inr (host, drop (nat i + 1) hp))
      in if i < 0 then Inl MissingPort
         else if hp ! 0 = CHR ''['' then
           (let e = IndexByte hp (CHR '']'') in
            if e < 0 then Inl MissingBracket
            else if e + 1 = int (length hp) then Inl MissingPort
            else if e + 1 = i then finish (take (nat e - 1) (drop 1 hp)) 1 (nat e + 1)
            else if hp ! (nat e + 1) = CHR '':'' then Inl TooManyColons
            else Inl MissingPort)
         else
           (let host = take (nat i) hp in
            if 0 \<le> IndexByte host (CHR '':'') then Inl TooManyColons else finish host 0 0))"

section \<open>IP addresses\<close>

definition is_digit :: "char \<Rightarrow> bool" where
  "is_digit c \<longleftrightarrow> 48 \<le> byte c \<and> byte c \<le> 57"

fun split_on :: "char \<Rightarrow> string \<Rightarrow> string list" where
  "split_on b [] = [[]]"
| "split_on b (c # cs) =
     (if c = b then [] # split_on b cs
      else (case split_on b cs of p # ps \<Rightarrow> (c # p) # ps | [] \<Rightarrow> [[c]]))"

definition dec_val :: "string \<Rightarrow> nat" where
  "dec_val s = foldl (\<lambda>v c. v * 10 + (byte c - 48)) 0 s"

text \<open>One field of a dotted address: digits, no leading zero, at most 255.\<close>

definition octet :: "string \<Rightarrow> nat option" where
  "octet s =
     (if s \<noteq> [] \<and> list_all is_digit s \<and> (length s = 1 \<or> hd s \<noteq> CHR ''0'') \<and> dec_val s \<le> 255
      then Some (dec_val s) else None)"

definition parseIPv4Fields :: "string \<Rightarrow> nat list option" where
  "parseIPv4Fields s =
     (case map octet (split_on (CHR ''.'') s) of
        [Some a, Some b, Some c, Some d] \<Rightarrow> Some [a, b, c, d]
      | _ \<Rightarrow> None)"

definition hex_val :: "string \<Rightarrow> nat" where
  "hex_val s = foldl (\<lambda>v c. v * 16 + the (from_hex c)) 0 s"

text \<open>
  The loop of \<^verbatim>\<open>parseIPv6\<close>: \<open>ip\<close> are the bytes read so far, \<open>ell\<close> the position of the ellipsis.
  Every turn reads a group of one to four hexadecimal digits or, where it may stand, the embedded
  IPv4 tail; the result is the rest of the string, the bytes and the ellipsis. Eight turns read
  sixteen bytes, so eight units of fuel are enough.
\<close>

fun parse6_loop :: "nat \<Rightarrow> string \<Rightarrow> nat list \<Rightarrow> nat option \<Rightarrow> (string \<times> nat list \<times> nat option) option"
where
  "parse6_loop 0 s ip ell = Some (s, ip, ell)"
| "parse6_loop (Suc n) s ip ell =
     (let grp = takeWhile (\<lambda>c. from_hex c \<noteq> None) s; rest = drop (length grp) s in
      if grp = [] \<or> 4 < length grp then None
      else if rest \<noteq> [] \<and> hd rest = CHR ''.'' then
        (if (ell = None \<and> length ip \<noteq> 12) \<or> 16 < length ip + 4 then None
         else map_option (\<lambda>v4. ([], ip @ v4, ell)) (parseIPv4Fields s))
      else
        (let ip' = ip @ [hex_val grp div 256, hex_val grp mod 256] in
         (case rest of
            [] \<Rightarrow> Some ([], ip', ell)
          | [_] \<Rightarrow> None
          | c # d # more \<Rightarrow>
              if c \<noteq> CHR '':'' then None
              else if d = CHR '':'' then
                (if ell \<noteq> None then None
                 else if more = [] then Some ([], ip', Some (length ip'))
                 else parse6_loop n more ip' (Some (length ip')))
              else parse6_loop n (d # more) ip' ell)))"

definition parseIPv6 :: "string \<Rightarrow> nat list option" where
  "parseIPv6 s =
     (let lead = HasPrefix s ''::''; s' = (if lead then drop 2 s else s) in
      if lead \<and> s' = [] then Some (replicate 16 0)
      else
        (case parse6_loop 8 s' [] (if lead then Some 0 else None) of
           None \<Rightarrow> None
         | Some (rest, ip, ell) \<Rightarrow>
             if rest \<noteq> [] then None
             else if length ip < 16 then
               map_option (\<lambda>e. take e ip @ replicate (16 - length ip) 0 @ drop e ip) ell
             else if ell \<noteq> None then None
             else Some ip))"

text \<open>
  \<^verbatim>\<open>net.ParseIP\<close>: the first dot, colon or percent sign decides the form. A zone, with or without
  a name, makes \<^verbatim>\<open>ParseIP\<close> fail. An IPv4 address is held in its IPv4-mapped form.
\<close>

definition ParseIP :: "string \<Rightarrow> nat list option" where
  "ParseIP s =
     (case find (\<lambda>c. c \<in> {CHR ''.'', CHR '':'', CHR ''%''}) s of
        Some c \<Rightarrow>
          if c = CHR ''.'' then
            map_option (\<lambda>v4. replicate 10 0 @ [255, 255] @ v4) (parseIPv4Fields s)
          else if c = CHR '':'' \<and> CHR ''%'' \<notin> set s then parseIPv6 s
          else None
      | None \<Rightarrow> None)"

fun dec_string :: "nat \<Rightarrow> string" where
  "dec_string n = (if n < 10 then [chr (48 + n)] else dec_string (n div 10) @ [chr (48 + n mod 10)])"

declare dec_string.simps [simp del]

fun hex_string :: "nat \<Rightarrow> string" where
  "hex_string n = (if n < 16 then [hex_digit n] else hex_string (n div 16) @ [hex_digit (n mod 16)])"

declare hex_string.simps [simp del]

fun join :: "string \<Rightarrow> string list \<Rightarrow> string" where
  "join sep [] = []"
| "join sep [p] = p"
| "join sep (p # ps) = p @ sep @ join sep ps"

fun groups16 :: "nat list \<Rightarrow> nat list" where
  "groups16 (a # b # r) = (a * 256 + b) # groups16 r"
| "groups16 _ = []"

definition zero_run :: "nat list \<Rightarrow> nat \<Rightarrow> nat" where
  "zero_run gs i = length (takeWhile ((=) 0) (drop i gs))"

text \<open>The leftmost longest run of at least two zero groups: its start and length.\<close>

definition longest_zeros :: "nat list \<Rightarrow> (nat \<times> nat) option" where
  "longest_zeros gs =
     foldl (\<lambda>best i. let l = zero_run gs i in
        if 2 \<le> l \<and> (case best of None \<Rightarrow> True | Some (_, m) \<Rightarrow> m < l) then Some (i, l) else best)
       None [0..<length gs]"

definition IP_String :: "nat list \<Rightarrow> string" where
  "IP_String ip =
     (if take 12 ip = replicate 10 0 @ [255, 255] then join ''.'' (map dec_string (drop 12 ip))
      else
        (let gs = groups16 ip in
         (case longest_zeros gs of
            None \<Rightarrow> join '':'' (map hex_string gs)
          | Some (i, l) \<Rightarrow>
              join '':'' (map hex_string (take i gs)) @ ''::'' @ join '':'' (map hex_string (drop (i + l) gs)))))"

section \<open>Lemmas\<close>

definition plain :: "string \<Rightarrow> bool" where
  "plain s \<longleftrightarrow> set s \<inter> {CHR '':'', CHR ''['', CHR '']''} = {}"

lemma SplitHostPort_plain:
  assumes "plain host" "plain port" "host \<noteq> []"
  shows "SplitHostPort (host @ CHR '':'' # port) = Inr (host, port)"
  using assms
  by (simp add: SplitHostPort_def LastIndexByte_append_fresh plain_def IndexByte_absent_eq nth_append
      not_le IndexByte_absent hd_conv_nth [symmetric] Let_def)
    (metis hd_in_set)

lemma SplitHostPort_bracket:
  assumes "CHR ''['' \<notin> set host" "CHR '']'' \<notin> set host" "plain port"
  shows "SplitHostPort (CHR ''['' # host @ CHR '']'' # CHR '':'' # port) = Inr (host, port)"
proof -
  let ?hp = "CHR ''['' # host @ CHR '']'' # CHR '':'' # port"
  have i: "LastIndexByte ?hp (CHR '':'') = int (length host) + 2"
    using LastIndexByte_append_fresh [of "CHR '':''" port "CHR ''['' # host @ [CHR '']'']"] assms
    by (simp add: plain_def)
  have e: "IndexByte ?hp (CHR '']'') = int (length host) + 1"
    using IndexByte_append_fresh [of "CHR '']''" "CHR ''['' # host" "CHR '':'' # port"] assms by simp
  have nm: "nat (int (length host) + 2) = Suc (Suc (length host))"
    "nat (int (length host) + 1) = Suc (length host)" by simp_all
  show ?thesis
    using assms
    by (simp add: SplitHostPort_def i nm plain_def IndexByte_append_fresh IndexByte_absent not_le Let_def)
qed

lemma ParseIP_mapped_example:
  "ParseIP ''::ffff:192.0.2.7'' = ParseIP ''192.0.2.7''"
proof -
  have n: "8 = Suc 7" "7 = Suc 6" by simp_all
  have l7: "parse6_loop 7 ''192.0.2.7'' [255, 255] (Some 0) = Some ([], [255, 255, 192, 0, 2, 7], Some 0)"
    unfolding n(2) parse6_loop.simps
    by (simp add: from_hex_def Let_def parseIPv4Fields_def octet_def is_digit_def dec_val_def)
  have l8: "parse6_loop 8 ''ffff:192.0.2.7'' [] (Some 0) = Some ([], [255, 255, 192, 0, 2, 7], Some 0)"
    unfolding n(1) parse6_loop.simps
    by (simp add: from_hex_def hex_val_def Let_def l7)
  have "ParseIP ''::ffff:192.0.2.7'' = Some (replicate 10 0 @ [255, 255, 192, 0, 2, 7])"
    using l8 by (simp add: ParseIP_def parseIPv6_def HasPrefix_def)
  moreover have "ParseIP ''192.0.2.7'' = Some (replicate 10 0 @ [255, 255, 192, 0, 2, 7])"
    by (simp add: ParseIP_def parseIPv4Fields_def octet_def is_digit_def dec_val_def)
  ultimately show ?thesis by simp
qed

end
