(* ===== verification/Registry.thy ===== *)
theory Registry
  imports Proxyproto Go_Net "HOL-Library.Char_ord" "HOL-Library.List_Lexorder"
    "HOL-Library.Product_Lexorder"
begin

text \<open>
  \<^verbatim>\<open>internal/registry/registry.go\<close> and \<^verbatim>\<open>admission.go\<close>: the game entries, their validation, and the
  admission predicate \<open>Playable\<close> that every launch goes through. The TOML decoder and the parser of
  authorized keys are third-party code: the decoded entries and the key parser are arguments.

  Shown: a file is accepted exactly when every entry obeys every rule and ids and names are
  unique; what is accepted is a permutation of the entries in menu order; and \<open>Playable\<close> admits a
  game exactly when it is listed, online and, for a guest, open to guests.
\<close>

section \<open>Games\<close>

record Game =
  g_AllowGuests :: bool
  g_ID :: string
  g_Name :: string
  g_Tagline :: string
  g_Addr :: string
  g_Descriptors :: "string list"
  g_HostKey :: "PublicKey option"
  g_Order :: int
  g_Version :: string
  g_AlphaWarning :: bool

record GameStatus =
  gs_Game :: Game
  gs_Online :: bool
  gs_LastChange :: int
  gs_DetectedVersion :: string

text \<open>One \<^verbatim>\<open>[[games]]\<close> entry as the TOML decoder delivers it.\<close>

record fileGame =
  f_AllowGuests :: bool
  f_ID :: string
  f_Name :: string
  f_Tagline :: string
  f_Descriptors :: "string list"
  f_Addr :: string
  f_HostKey :: string
  f_Order :: int
  f_Version :: string
  f_AlphaWarning :: bool

section \<open>Validation\<close>

text \<open>The regular expression \<^verbatim>\<open>^[a-z0-9-]{1,24}$\<close>.\<close>

definition id_char :: "char \<Rightarrow> bool" where
  "id_char c \<longleftrightarrow> (97 \<le> byte c \<and> byte c \<le> 122) \<or> (48 \<le> byte c \<and> byte c \<le> 57) \<or> c = CHR ''-''"

definition idPattern :: "string \<Rightarrow> bool" where
  "idPattern s \<longleftrightarrow> 1 \<le> length s \<and> length s \<le> 24 \<and> list_all id_char s"

text \<open>The regular expression \<^verbatim>\<open>^(0|[1-9][0-9]*)\.(0|[1-9][0-9]*)\.(0|[1-9][0-9]*)$\<close>.\<close>

definition version_part :: "string \<Rightarrow> bool" where
  "version_part s \<longleftrightarrow>
     s = ''0'' \<or> (s \<noteq> [] \<and> hd s \<noteq> CHR ''0'' \<and> list_all is_digit s)"

definition versionPattern :: "string \<Rightarrow> bool" where
  "versionPattern s \<longleftrightarrow>
     (case split_on (CHR ''.'') s of
        [a, b, c] \<Rightarrow> version_part a \<and> version_part b \<and> version_part c
      | _ \<Rightarrow> False)"

datatype registry_error =
    NoEntries
  | BadID nat string
  | DuplicateID nat string
  | EmptyName nat string
  | DuplicateName nat string string
  | EmptyAddr nat string
  | BadAddr nat string addr_error
  | BadVersion nat string string
  | BadHostKey nat string

text \<open>The \<^verbatim>\<open>Game\<close> an accepted entry becomes, given its parsed host key.\<close>

definition game_of :: "fileGame \<Rightarrow> PublicKey option \<Rightarrow> Game" where
  "game_of e hk =
     \<lparr>g_AllowGuests = f_AllowGuests e, g_ID = f_ID e, g_Name = f_Name e, g_Tagline = f_Tagline e,
      g_Addr = f_Addr e, g_Descriptors = f_Descriptors e, g_HostKey = hk, g_Order = f_Order e,
      g_Version = f_Version e, g_AlphaWarning = f_AlphaWarning e\<rparr>"

text \<open>
  The loop of \<^verbatim>\<open>validate\<close>: the checks of one entry in the order of the source, with the ids and
  names seen so far; the first failing check rejects the whole file.
\<close>

fun validate_loop ::
    "(string \<Rightarrow> PublicKey option) \<Rightarrow> nat \<Rightarrow> string set \<Rightarrow> string set \<Rightarrow> fileGame list
     \<Rightarrow> registry_error + Game list" where
  "validate_loop parse i seen seenName [] = Inr []"
| "validate_loop parse i seen seenName (e # es) =
     (if \<not> idPattern (f_ID e) then Inl (BadID i (f_ID e))
      else if f_ID e \<in> seen then Inl (DuplicateID i (f_ID e))
      else if f_Name e = [] then Inl (EmptyName i (f_ID e))
      else if f_Name e \<in> seenName then Inl (DuplicateName i (f_ID e) (f_Name e))
      else if f_Addr e = [] then Inl (EmptyAddr i (f_ID e))
      else
        (case SplitHostPort (f_Addr e) of
           Inl err \<Rightarrow> Inl (BadAddr i (f_ID e) err)
         | Inr _ \<Rightarrow>
             if f_Version e \<noteq> [] \<and> \<not> versionPattern (f_Version e) then
               Inl (BadVersion i (f_ID e) (f_Version e))
             else
               (let rest = (\<lambda>hk. case validate_loop parse (i + 1) (insert (f_ID e) seen)
                                      (insert (f_Name e) seenName) es of
                              Inl err \<Rightarrow> Inl err
                            | Inr gs \<Rightarrow> Inr (game_of e hk # gs))
                in if f_HostKey e = [] then rest None
                   else (case parse (f_HostKey e) of
                           None \<Rightarrow> Inl (BadHostKey i (f_ID e))
                         | Some key \<Rightarrow> rest (Some key)))))"

text \<open>\<^verbatim>\<open>sort.SliceStable\<close> by order and then id: the menu order.\<close>

definition menu_key :: "Game \<Rightarrow> int \<times> string" where
  "menu_key g = (g_Order g, g_ID g)"

definition validate :: "(string \<Rightarrow> PublicKey option) \<Rightarrow> fileGame list \<Rightarrow> registry_error + Game list" where
  "validate parse entries =
     (if entries = [] then Inl NoEntries
      else
        (case validate_loop parse 0 {} {} entries of
           Inl err \<Rightarrow> Inl err
         | Inr games \<Rightarrow> Inr (sort_key menu_key games)))"

section \<open>Admission\<close>

datatype admission_error = ErrKeyRequired | ErrUnavailable | ErrRemoved

fun Playable :: "GameStatus list \<Rightarrow> string \<Rightarrow> bool \<Rightarrow> admission_error + GameStatus" where
  "Playable [] i guest = Inl ErrRemoved"
| "Playable (g # gs) i guest =
     (if g_ID (gs_Game g) = i then
        (if guest \<and> \<not> g_AllowGuests (gs_Game g) then Inl ErrKeyRequired
         else if \<not> gs_Online g then Inl ErrUnavailable
         else Inr g)
      else Playable gs i guest)"

section \<open>Lemmas\<close>

text \<open>The rules one entry must obey by itself, and the game it then becomes.\<close>

definition entry_ok :: "(string \<Rightarrow> PublicKey option) \<Rightarrow> fileGame \<Rightarrow> bool" where
  "entry_ok parse e \<longleftrightarrow>
     idPattern (f_ID e) \<and> f_Name e \<noteq> [] \<and> f_Addr e \<noteq> []
     \<and> (\<exists>hp. SplitHostPort (f_Addr e) = Inr hp)
     \<and> (f_Version e = [] \<or> versionPattern (f_Version e))
     \<and> (f_HostKey e = [] \<or> parse (f_HostKey e) \<noteq> None)"

definition entry_game :: "(string \<Rightarrow> PublicKey option) \<Rightarrow> fileGame \<Rightarrow> Game" where
  "entry_game parse e = game_of e (if f_HostKey e = [] then None else parse (f_HostKey e))"

lemma validate_loop_step:
  assumes "entry_ok parse e" "f_ID e \<notin> seen" "f_Name e \<notin> seenName"
  shows "validate_loop parse i seen seenName (e # es) =
    (case validate_loop parse (i + 1) (insert (f_ID e) seen) (insert (f_Name e) seenName) es of
       Inl err \<Rightarrow> Inl err | Inr gs \<Rightarrow> Inr (entry_game parse e # gs))"
  using assms by (auto simp: entry_ok_def entry_game_def split: sum.split)

lemma validate_loop_reject:
  assumes "\<not> (entry_ok parse e \<and> f_ID e \<notin> seen \<and> f_Name e \<notin> seenName)"
  shows "validate_loop parse i seen seenName (e # es) \<noteq> Inr gs"
  using assms by (auto simp: entry_ok_def Let_def split: sum.splits if_splits option.splits)

definition fresh_entries ::
    "(string \<Rightarrow> PublicKey option) \<Rightarrow> string set \<Rightarrow> string set \<Rightarrow> fileGame list \<Rightarrow> bool" where
  "fresh_entries parse seen seenName es \<longleftrightarrow>
     list_all (entry_ok parse) es \<and> distinct (map f_ID es) \<and> distinct (map f_Name es)
     \<and> set (map f_ID es) \<inter> seen = {} \<and> set (map f_Name es) \<inter> seenName = {}"

lemma fresh_entries_Cons:
  "fresh_entries parse seen seenName (e # es) \<longleftrightarrow>
     entry_ok parse e \<and> f_ID e \<notin> seen \<and> f_Name e \<notin> seenName
     \<and> fresh_entries parse (insert (f_ID e) seen) (insert (f_Name e) seenName) es"
  by (auto simp: fresh_entries_def)

lemma validate_loop_accept:
  "fresh_entries parse seen seenName es \<Longrightarrow>
   validate_loop parse i seen seenName es = Inr (map (entry_game parse) es)"
  by (induction es arbitrary: i seen seenName)
    (simp_all add: fresh_entries_Cons validate_loop_step del: validate_loop.simps(2))

lemma validate_loop_fresh:
  "validate_loop parse i seen seenName es = Inr gs \<Longrightarrow> fresh_entries parse seen seenName es"
proof (induction es arbitrary: i seen seenName gs)
  case Nil
  then show ?case by (simp add: fresh_entries_def)
next
  case (Cons e es)
  have ok: "entry_ok parse e" "f_ID e \<notin> seen" "f_Name e \<notin> seenName"
    using validate_loop_reject Cons.prems by blast+
  then obtain gs' where
    "validate_loop parse (i + 1) (insert (f_ID e) seen) (insert (f_Name e) seenName) es = Inr gs'"
    using Cons.prems unfolding validate_loop_step [OF ok] by (auto split: sum.splits)
  from Cons.IH [OF this] ok show ?case by (simp add: fresh_entries_Cons)
qed

lemma entry_game_simps [simp]:
  "g_ID (entry_game parse e) = f_ID e" "g_Name (entry_game parse e) = f_Name e"
  "g_Order (entry_game parse e) = f_Order e" "g_Addr (entry_game parse e) = f_Addr e"
  "g_AllowGuests (entry_game parse e) = f_AllowGuests e"
  by (simp_all add: entry_game_def game_of_def)

text \<open>What the registry guarantees of the games it hands out.\<close>

definition games_ok :: "Game list \<Rightarrow> bool" where
  "games_ok gs \<longleftrightarrow>
     gs \<noteq> [] \<and> distinct (map g_ID gs) \<and> distinct (map g_Name gs) \<and> sorted (map menu_key gs)
     \<and> list_all (\<lambda>g. idPattern (g_ID g) \<and> g_Name g \<noteq> []
          \<and> (\<exists>hp. SplitHostPort (g_Addr g) = Inr hp)
          \<and> (g_Version g = [] \<or> versionPattern (g_Version g))) gs"

lemma validate_iff:
  "validate parse entries = Inr gs \<longleftrightarrow>
     entries \<noteq> [] \<and> list_all (entry_ok parse) entries \<and> distinct (map f_ID entries)
     \<and> distinct (map f_Name entries) \<and> gs = sort_key menu_key (map (entry_game parse) entries)"
proof (cases "fresh_entries parse {} {} entries")
  case True
  then show ?thesis
    by (auto simp: validate_def validate_loop_accept) (auto simp: fresh_entries_def)
next
  case False
  then have "validate_loop parse 0 {} {} entries \<noteq> Inr gs'" for gs'
    using validate_loop_fresh by blast
  with False show ?thesis by (auto simp: validate_def fresh_entries_def split: sum.splits)
qed

lemma distinct_map_sort_key: "distinct (map f (sort_key k xs)) = distinct (map f xs)"
  by (metis mset_map mset_sort mset_eq_imp_distinct_iff)

lemma validate_games_ok:
  assumes "validate parse entries = Inr gs"
  shows "games_ok gs"
proof -
  from assms have e: "entries \<noteq> []" "list_all (entry_ok parse) entries" "distinct (map f_ID entries)"
    "distinct (map f_Name entries)" and gs: "gs = sort_key menu_key (map (entry_game parse) entries)"
    by (auto simp: validate_iff)
  have "set gs = entry_game parse ` set entries" "gs \<noteq> []"
    using e(1) by (auto simp: gs simp flip: length_greater_0_conv)
  moreover have "g_Version (entry_game parse e) = f_Version e" for e
    by (simp add: entry_game_def game_of_def)
  ultimately show ?thesis
    using e by (auto simp: games_ok_def list_all_iff entry_ok_def distinct_map_sort_key comp_def gs
        simp del: length_greater_0_conv)
qed

lemma Playable_Inr:
  "Playable gs i guest = Inr g \<Longrightarrow>
   g \<in> set gs \<and> g_ID (gs_Game g) = i \<and> gs_Online g \<and> (guest \<longrightarrow> g_AllowGuests (gs_Game g))"
  by (induction gs i guest rule: Playable.induct) (auto split: if_splits)

lemma Playable_find:
  "Playable gs i guest =
     (case find (\<lambda>g. g_ID (gs_Game g) = i) gs of
        None \<Rightarrow> Inl ErrRemoved
      | Some g \<Rightarrow> if guest \<and> \<not> g_AllowGuests (gs_Game g) then Inl ErrKeyRequired
                  else if \<not> gs_Online g then Inl ErrUnavailable else Inr g)"
  by (induction gs i guest rule: Playable.induct) auto

section \<open>Properties\<close>

text \<open>
  (C24) Validation is all or nothing: a file is accepted exactly when it has entries, every entry
  obeys every rule on its own (id pattern, name, address, version, host key) and ids and names are
  unique; and the accepted registry is the entries themselves, permuted into the order of the menu.
\<close>

theorem validate_correct:
  "((\<exists>gs. validate parse entries = Inr gs) \<longleftrightarrow>
      entries \<noteq> [] \<and> list_all (entry_ok parse) entries \<and> distinct (map f_ID entries)
      \<and> distinct (map f_Name entries))
   \<and> (\<forall>gs. validate parse entries = Inr gs \<longrightarrow>
        mset gs = mset (map (entry_game parse) entries) \<and> games_ok gs)"
  using validate_iff [of parse entries] validate_games_ok [of parse entries] by auto

definition example_entry :: "string \<Rightarrow> string \<Rightarrow> int \<Rightarrow> fileGame" where
  "example_entry i n ord =
     \<lparr>f_AllowGuests = True, f_ID = i, f_Name = n, f_Tagline = [], f_Descriptors = [], f_Addr = ''farm:22'',
      f_HostKey = [], f_Order = ord, f_Version = ''1.0.0'', f_AlphaWarning = False\<rparr>"

lemma farm_addr: "SplitHostPort ''farm:22'' = Inr (''farm'', ''22'')"
  using SplitHostPort_plain [of "''farm''" "''22''"] by (simp add: plain_def)

lemma entry_ok_example: "idPattern i \<Longrightarrow> n \<noteq> [] \<Longrightarrow> entry_ok parse (example_entry i n ord)"
  by (simp add: entry_ok_def example_entry_def farm_addr versionPattern_def version_part_def is_digit_def)

theorem validate_correct_witness:
  "let es = [example_entry ''moon'' ''MOON MINER'' 20, example_entry ''farm'' ''IDLE FARMER'' 10] in
   \<exists>gs. validate (\<lambda>_. None) es = Inr gs \<and> mset gs = mset (map (entry_game (\<lambda>_. None)) es) \<and> games_ok gs"
proof -
  let ?es = "[example_entry ''moon'' ''MOON MINER'' 20, example_entry ''farm'' ''IDLE FARMER'' 10]"
  have "list_all (entry_ok (\<lambda>_. None)) ?es"
    by (simp add: entry_ok_example idPattern_def id_char_def)
  moreover have "distinct (map f_ID ?es)" "distinct (map f_Name ?es)"
    by (simp_all add: example_entry_def)
  ultimately show ?thesis
    unfolding Let_def using validate_correct [of "\<lambda>_. None" ?es] by blast
qed

text \<open>
  Admission, on every branch: for a registry snapshot with unique ids, a game is handed out
  exactly when it is the listed game with that id, it is online and, for a guest, it allows
  guests. A game that is not listed is reported removed; one closed to guests asks a guest for a
  key even when it is offline; otherwise an offline game is reported unavailable.
\<close>

theorem Playable_correct:
  assumes "distinct (map (g_ID \<circ> gs_Game) gs)"
  shows "(Playable gs i guest = Inr g \<longleftrightarrow>
            g \<in> set gs \<and> g_ID (gs_Game g) = i \<and> gs_Online g \<and> (guest \<longrightarrow> g_AllowGuests (gs_Game g)))
    \<and> (Playable gs i guest = Inl ErrRemoved \<longleftrightarrow> i \<notin> (g_ID \<circ> gs_Game) ` set gs)
    \<and> (Playable gs i guest = Inl ErrKeyRequired \<longleftrightarrow>
         guest \<and> (\<exists>h \<in> set gs. g_ID (gs_Game h) = i \<and> \<not> g_AllowGuests (gs_Game h)))
    \<and> (Playable gs i guest = Inl ErrUnavailable \<longleftrightarrow>
         (\<exists>h \<in> set gs. g_ID (gs_Game h) = i \<and> \<not> gs_Online h \<and> (guest \<longrightarrow> g_AllowGuests (gs_Game h))))"
  using assms
proof (induction gs)
  case (Cons h gs)
  then show ?case by (cases "g_ID (gs_Game h) = i") (auto simp: image_iff)
qed auto

definition example_status :: "string \<Rightarrow> bool \<Rightarrow> bool \<Rightarrow> GameStatus" where
  "example_status i online allow =
     \<lparr>gs_Game = (entry_game (\<lambda>_. None) (example_entry i i 1))\<lparr>g_AllowGuests := allow\<rparr>,
      gs_Online = online, gs_LastChange = 0, gs_DetectedVersion = []\<rparr>"

theorem Playable_correct_witness:
  "let gs = [example_status ''farm'' True True, example_status ''chess'' False False] in
   distinct (map (g_ID \<circ> gs_Game) gs) \<and> Playable gs ''farm'' True = Inr (gs ! 0)
   \<and> Playable gs ''chess'' True = Inl ErrKeyRequired"
proof -
  let ?gs = "[example_status ''farm'' True True, example_status ''chess'' False False]"
  have d: "distinct (map (g_ID \<circ> gs_Game) ?gs)"
    by (simp add: example_status_def example_entry_def)
  show ?thesis
    using d Playable_correct [OF d, of "''farm''" True "?gs ! 0"]
      Playable_correct [OF d, of "''chess''" True "?gs ! 0"]
    by (simp add: example_status_def example_entry_def)
qed

end
