(* ===== verification/Pubsub.thy ===== *)
theory Pubsub
  imports Arcade_Prelude
begin

text \<open>
  The subscription mechanism that \<^verbatim>\<open>internal/registry\<close> and \<^verbatim>\<open>internal/banner\<close> share line by line: a
  set of channels with a buffer of one, poked without blocking whenever something changed. Closing
  a closed channel and sending on one panic in Go; an operation that would panic is \<open>None\<close> here.

  The interface \<open>poke_hub\<close> is what the clients rely on; this theory provides the one model of it,
  and shows that no operation panics and that a poke is never lost.
\<close>

section \<open>Model\<close>

record channel =
  pending :: bool
  is_open :: bool

record hub =
  subs :: "nat set"
  chans :: "nat \<rightharpoonup> channel"
  next_chan :: nat

definition new_hub :: hub where
  "new_hub = \<lparr>subs = {}, chans = Map.empty, next_chan = 0\<rparr>"

definition chan_open :: "hub \<Rightarrow> nat \<Rightarrow> bool" where
  "chan_open h c \<longleftrightarrow> (case chans h c of Some ch \<Rightarrow> is_open ch | None \<Rightarrow> False)"

definition chan_pending :: "hub \<Rightarrow> nat \<Rightarrow> bool" where
  "chan_pending h c \<longleftrightarrow> (case chans h c of Some ch \<Rightarrow> pending ch | None \<Rightarrow> False)"

text \<open>\<^verbatim>\<open>close(ch)\<close>: panics unless the channel is open.\<close>

definition close_chan :: "hub \<Rightarrow> nat \<Rightarrow> hub option" where
  "close_chan h c =
     (if chan_open h c then Some (h\<lparr>chans := (chans h)(c \<mapsto> (the (chans h c))\<lparr>is_open := False\<rparr>)\<rparr>)
      else None)"

definition hub_Subscribe :: "hub \<Rightarrow> nat \<times> hub" where
  "hub_Subscribe h =
     (let c = next_chan h in
      (c, h\<lparr>subs := insert c (subs h), chans := (chans h)(c \<mapsto> \<lparr>pending = False, is_open = True\<rparr>),
            next_chan := Suc c\<rparr>))"

definition hub_Unsubscribe :: "hub \<Rightarrow> nat \<Rightarrow> hub option" where
  "hub_Unsubscribe h c =
     (if c \<in> subs h then close_chan (h\<lparr>subs := subs h - {c}\<rparr>) c else Some h)"

text \<open>
  \<^verbatim>\<open>notify\<close>: a non-blocking send on every subscribed channel. A full buffer keeps its poke; a send
  on a closed channel panics.
\<close>

definition hub_notify :: "hub \<Rightarrow> hub option" where
  "hub_notify h =
     (if \<forall>c \<in> subs h. chan_open h c
      then Some (h\<lparr>chans := (\<lambda>c. if c \<in> subs h then map_option (pending_update (\<lambda>_. True)) (chans h c)
                                else chans h c)\<rparr>)
      else None)"

text \<open>A consumer takes the poke from its channel.\<close>

definition hub_recv :: "hub \<Rightarrow> nat \<Rightarrow> hub" where
  "hub_recv h c = h\<lparr>chans := (chans h)(c := map_option (pending_update (\<lambda>_. False)) (chans h c))\<rparr>"

text \<open>The end of \<^verbatim>\<open>Close\<close>: every subscriber channel is removed and closed.\<close>

definition hub_CloseAll :: "hub \<Rightarrow> hub option" where
  "hub_CloseAll h =
     (if \<forall>c \<in> subs h. chan_open h c
      then Some (h\<lparr>subs := {}, chans := (\<lambda>c. if c \<in> subs h then map_option (is_open_update (\<lambda>_. False)) (chans h c)
                                          else chans h c)\<rparr>)
      else None)"

section \<open>Invariant\<close>

definition hub_inv :: "hub \<Rightarrow> bool" where
  "hub_inv h \<longleftrightarrow> (\<forall>c \<in> subs h. chan_open h c) \<and> (\<forall>c. chans h c \<noteq> None \<longrightarrow> c < next_chan h)"

lemmas hub_defs = hub_inv_def chan_open_def chan_pending_def close_chan_def hub_Subscribe_def
  hub_Unsubscribe_def hub_notify_def hub_recv_def hub_CloseAll_def Let_def

lemma hub_inv_new: "hub_inv new_hub"
  by (simp add: hub_inv_def new_hub_def)

lemma hub_inv_Subscribe: "hub_inv h \<Longrightarrow> hub_inv (snd (hub_Subscribe h))"
  by (auto simp: hub_defs less_Suc_eq)

lemma hub_Subscribe_fresh:
  "hub_inv h \<Longrightarrow> fst (hub_Subscribe h) \<notin> subs h \<and> fst (hub_Subscribe h) \<in> subs (snd (hub_Subscribe h))"
  by (auto simp: hub_defs split: option.splits)

lemma hub_Unsubscribe_ok:
  "hub_inv h \<Longrightarrow> \<exists>h'. hub_Unsubscribe h c = Some h' \<and> hub_inv h' \<and> subs h' = subs h - {c}"
  by (auto simp: hub_defs split: option.splits)

lemma hub_notify_ok:
  assumes "hub_inv h"
  shows "\<exists>h'. hub_notify h = Some h' \<and> hub_inv h' \<and> subs h' = subs h \<and> (\<forall>c \<in> subs h. chan_pending h' c)"
  using assms by (fastforce simp: hub_defs split: option.splits if_splits)

lemma hub_recv_ok: "hub_inv h \<Longrightarrow> hub_inv (hub_recv h c) \<and> subs (hub_recv h c) = subs h"
  by (auto simp: hub_defs split: option.splits)

lemma hub_CloseAll_ok: "hub_inv h \<Longrightarrow> \<exists>h'. hub_CloseAll h = Some h' \<and> hub_inv h' \<and> subs h' = {}"
  by (auto simp: hub_defs)

text \<open>A poke stays in the channel under every operation but the consumer's own receive.\<close>

lemma pending_stable:
  assumes "chan_pending h c"
  shows "c < next_chan h \<Longrightarrow> chan_pending (snd (hub_Subscribe h)) c"
    and "hub_Unsubscribe h d = Some h' \<Longrightarrow> chan_pending h' c"
    and "hub_notify h = Some h' \<Longrightarrow> chan_pending h' c"
    and "c \<noteq> d \<Longrightarrow> chan_pending (hub_recv h d) c"
  using assms by (auto simp: hub_defs split: option.splits if_splits)

section \<open>Interface\<close>

text \<open>
  What a publisher of pokes promises: operations on a good hub never panic and keep it good,
  a notification leaves a poke in every subscribed channel, and unsubscribing one channel leaves
  the others subscribed.
\<close>

locale poke_hub =
  fixes good :: "'h \<Rightarrow> bool"
    and members :: "'h \<Rightarrow> nat set"
    and poked :: "'h \<Rightarrow> nat \<Rightarrow> bool"
    and subscribe :: "'h \<Rightarrow> nat \<times> 'h"
    and unsubscribe :: "'h \<Rightarrow> nat \<Rightarrow> 'h option"
    and publish :: "'h \<Rightarrow> 'h option"
    and receive :: "'h \<Rightarrow> nat \<Rightarrow> 'h"
  assumes subscribe_good: "good h \<Longrightarrow> good (snd (subscribe h))"
    and subscribe_fresh: "good h \<Longrightarrow> fst (subscribe h) \<notin> members h"
    and subscribe_members: "good h \<Longrightarrow> members (snd (subscribe h)) = insert (fst (subscribe h)) (members h)"
    and unsubscribe_ok:
      "good h \<Longrightarrow> \<exists>h'. unsubscribe h c = Some h' \<and> good h' \<and> members h' = members h - {c}"
    and publish_ok:
      "good h \<Longrightarrow> \<exists>h'. publish h = Some h' \<and> good h' \<and> members h' = members h \<and> (\<forall>c \<in> members h. poked h' c)"
    and receive_ok: "good h \<Longrightarrow> good (receive h c) \<and> members (receive h c) = members h"
begin

text \<open>A subscriber that stays subscribed across a publication holds a poke.\<close>

lemma subscribed_then_poked:
  assumes "good h"
  shows "\<exists>h'. publish (snd (subscribe h)) = Some h' \<and> good h' \<and> poked h' (fst (subscribe h))
     \<and> (\<exists>h''. unsubscribe h' (fst (subscribe h)) = Some h'' \<and> good h'' \<and> members h'' = members h)"
proof -
  let ?h1 = "snd (subscribe h)" and ?c = "fst (subscribe h)"
  from publish_ok [OF subscribe_good [OF assms]] obtain h2 where
    h2: "publish ?h1 = Some h2" "good h2" "members h2 = members ?h1" "\<forall>c \<in> members ?h1. poked h2 c"
    by blast
  from unsubscribe_ok [OF h2(2), of ?c] obtain h3 where
    h3: "unsubscribe h2 ?c = Some h3" "good h3" "members h3 = members h2 - {?c}" by blast
  have "members h3 = members h"
    using h2(3) h3(3) subscribe_members [OF assms] subscribe_fresh [OF assms] by auto
  with h2 h3 subscribe_members [OF assms] show ?thesis by auto
qed

end

lemma hub_Subscribe_members: "subs (snd (hub_Subscribe h)) = insert (fst (hub_Subscribe h)) (subs h)"
  by (simp add: hub_Subscribe_def Let_def)

interpretation hub: poke_hub hub_inv subs chan_pending hub_Subscribe hub_Unsubscribe hub_notify hub_recv
  by unfold_locales
    (simp_all add: hub_inv_Subscribe hub_Subscribe_fresh hub_Subscribe_members hub_Unsubscribe_ok
      hub_notify_ok hub_recv_ok)

end
