(* ===== verification/Prober.thy ===== *)
theory Prober
  imports Registry Pubsub
begin

text \<open>
  The running registry (\<^verbatim>\<open>internal/registry/registry.go\<close> and \<^verbatim>\<open>prober.go\<close>): loading and reloading the
  games file, probing the games, flap damping, \<open>Report\<close> from the bridge, snapshots and
  subscriptions. The clock, the file system, the TOML decoder and the network are arguments: what
  a stat, a read, a dial or a read from a game's port yields.

  Shown: a bad reload changes nothing but the remembered modification time, a good one keeps the
  health of the games that stay; a game is online exactly when its last successful probe is
  followed by fewer failures than the threshold and by no report; the registry's invariant holds
  under every interleaving of its operations and no operation panics.
\<close>

section \<open>Banners and probes\<close>

definition bannerVersion :: "string \<Rightarrow> string" where
  "bannerVersion line =
     (let rest = TrimRight (TrimPrefix line ''SSH-2.0-'') [chr 13, chr 10];
          i = IndexByte rest (CHR '' '');
          rest' = (if 0 \<le> i then take (nat i) rest else rest)
      in if rest' = ''dev'' \<or> versionPattern rest' then rest' else [])"

datatype probe_error = DialError | DeadlineError | NoBanner

text \<open>
  \<^verbatim>\<open>ReadString('\n')\<close>: the bytes up to and including the next newline, what is left, and whether the
  stream ended first (end of file or the read deadline).
\<close>

fun read_line :: "string \<Rightarrow> string \<times> string \<times> bool" where
  "read_line [] = ([], [], True)"
| "read_line (c # cs) =
     (if c = chr 10 then ([c], cs, False)
      else (let (l, rest, e) = read_line cs in (c # l, rest, e)))"

text \<open>At most \<open>n\<close> lines are scanned for the SSH version string.\<close>

fun scan_banner :: "nat \<Rightarrow> string \<Rightarrow> probe_error + string" where
  "scan_banner 0 s = Inl NoBanner"
| "scan_banner (Suc n) s =
     (let (line, rest, e) = read_line s in
      if HasPrefix line ''SSH-2.0-'' then Inr (bannerVersion line)
      else if e then Inl NoBanner
      else scan_banner n rest)"

text \<open>What the network does with a dial: refuse it, refuse the deadline, or deliver bytes.\<close>

datatype dial_outcome = Refused | NoDeadline | Bytes string

definition probe :: "(string \<Rightarrow> dial_outcome) \<Rightarrow> string \<Rightarrow> probe_error + string" where
  "probe net addr =
     (case net addr of
        Refused \<Rightarrow> Inl DialError
      | NoDeadline \<Rightarrow> Inl DeadlineError
      | Bytes s \<Rightarrow> scan_banner 8 s)"

section \<open>State\<close>

record Options =
  o_ProbeInterval :: int
  o_DialTimeout :: int
  o_FailThreshold :: int

definition second :: int where
  "second = 1000000000"

definition withDefaults :: "Options \<Rightarrow> Options" where
  "withDefaults opts =
     \<lparr>o_ProbeInterval = (if o_ProbeInterval opts \<le> 0 then 15 * second else o_ProbeInterval opts),
      o_DialTimeout = (if o_DialTimeout opts \<le> 0 then 2 * second else o_DialTimeout opts),
      o_FailThreshold = (if o_FailThreshold opts \<le> 0 then 2 else o_FailThreshold opts)\<rparr>"

record health =
  h_online :: bool
  h_fails :: int
  h_lastChange :: int
  h_detectedVersion :: string

definition new_health :: "int \<Rightarrow> health" where
  "new_health now = \<lparr>h_online = False, h_fails = 0, h_lastChange = now, h_detectedVersion = []\<rparr>"

record Registry =
  r_opts :: Options
  r_games :: "Game list"
  r_health :: "string \<rightharpoonup> health"
  r_hub :: hub
  r_mtime :: int
  r_kick :: bool
  r_started :: bool
  r_closed :: bool

section \<open>Loading\<close>

datatype load_error = StatError | ReadError | TomlError | Rejected registry_error

text \<open>
  \<^verbatim>\<open>loadFile\<close>: \<open>stat\<close> and \<open>raw\<close> are the outcomes of the two file system calls (the modification
  time and the contents), \<open>toml\<close> the decoder.
\<close>

definition loadFile ::
    "(string \<Rightarrow> fileGame list option) \<Rightarrow> (string \<Rightarrow> PublicKey option) \<Rightarrow> int option \<Rightarrow> string option
     \<Rightarrow> load_error + Game list \<times> int" where
  "loadFile toml parse stat raw =
     (case stat of None \<Rightarrow> Inl StatError
      | Some mtime \<Rightarrow>
          (case raw of None \<Rightarrow> Inl ReadError
           | Some bytes \<Rightarrow>
               (case toml bytes of None \<Rightarrow> Inl TomlError
                | Some entries \<Rightarrow>
                    (case validate parse entries of
                       Inl e \<Rightarrow> Inl (Rejected e)
                     | Inr games \<Rightarrow> Inr (games, mtime)))))"

definition NewRegistry :: "Options \<Rightarrow> int \<Rightarrow> load_error + Game list \<times> int \<Rightarrow> load_error + Registry" where
  "NewRegistry opts now load =
     (case load of
        Inl e \<Rightarrow> Inl e
      | Inr (games, mtime) \<Rightarrow>
          Inr \<lparr>r_opts = withDefaults opts, r_games = games,
               r_health = (\<lambda>i. if i \<in> g_ID ` set games then Some (new_health now) else None),
               r_hub = new_hub, r_mtime = mtime, r_kick = False, r_started = False, r_closed = False\<rparr>)"

section \<open>Operations\<close>

definition status_of :: "(string \<rightharpoonup> health) \<Rightarrow> Game \<Rightarrow> GameStatus" where
  "status_of hs g =
     (case hs (g_ID g) of
        Some h \<Rightarrow> \<lparr>gs_Game = g, gs_Online = h_online h, gs_LastChange = h_lastChange h,
                   gs_DetectedVersion = h_detectedVersion h\<rparr>
      | None \<Rightarrow> \<lparr>gs_Game = g, gs_Online = False, gs_LastChange = 0, gs_DetectedVersion = []\<rparr>)"

definition Games :: "Registry \<Rightarrow> GameStatus list" where
  "Games r = map (status_of (r_health r)) (r_games r)"

definition Subscribe :: "Registry \<Rightarrow> nat \<times> Registry" where
  "Subscribe r = (let (c, h) = hub_Subscribe (r_hub r) in (c, r\<lparr>r_hub := h\<rparr>))"

definition Unsubscribe :: "Registry \<Rightarrow> nat \<Rightarrow> Registry option" where
  "Unsubscribe r c = map_option (\<lambda>h. r\<lparr>r_hub := h\<rparr>) (hub_Unsubscribe (r_hub r) c)"

definition notify :: "Registry \<Rightarrow> Registry option" where
  "notify r = map_option (\<lambda>h. r\<lparr>r_hub := h\<rparr>) (hub_notify (r_hub r))"

text \<open>\<^verbatim>\<open>ProbeNow\<close>: a non-blocking send on the kick channel, whose buffer holds one token.\<close>

definition ProbeNow :: "Registry \<Rightarrow> Registry" where
  "ProbeNow r = r\<lparr>r_kick := True\<rparr>"

definition Start :: "Registry \<Rightarrow> Registry" where
  "Start r = r\<lparr>r_started := True\<rparr>"

definition Close :: "Registry \<Rightarrow> Registry option" where
  "Close r =
     (if r_closed r then Some r
      else map_option (\<lambda>h. r\<lparr>r_closed := True, r_hub := h\<rparr>) (hub_CloseAll (r_hub r)))"

text \<open>\<^verbatim>\<open>Report\<close>: what it changes under the lock, and whether subscribers are notified afterwards.\<close>

definition report_health :: "int \<Rightarrow> int \<Rightarrow> health \<Rightarrow> health \<times> bool" where
  "report_health threshold now h =
     (let h1 = (if h_fails h < threshold then h\<lparr>h_fails := threshold\<rparr> else h)
      in if h_online h1 then (h1\<lparr>h_online := False, h_lastChange := now\<rparr>, True) else (h1, False))"

definition report_section :: "Registry \<Rightarrow> string \<Rightarrow> int \<Rightarrow> Registry \<times> bool" where
  "report_section r i now =
     (case r_health r i of
        None \<Rightarrow> (r, False)
      | Some h \<Rightarrow>
          (let (h', changed) = report_health (o_FailThreshold (r_opts r)) now h
           in (r\<lparr>r_health := (r_health r)(i \<mapsto> h')\<rparr>, changed)))"

definition Report :: "Registry \<Rightarrow> string \<Rightarrow> int \<Rightarrow> Registry option" where
  "Report r i now =
     (let (r', changed) = report_section r i now in if changed then notify r' else Some r')"

text \<open>One probe result applied to the health of its game.\<close>

definition apply_result :: "int \<Rightarrow> int \<Rightarrow> probe_error + string \<Rightarrow> health \<Rightarrow> health \<times> bool" where
  "apply_result threshold now res h =
     (case res of
        Inr version \<Rightarrow>
          (let h1 = h\<lparr>h_fails := 0\<rparr>;
               h2 = (if version \<noteq> [] then h1\<lparr>h_detectedVersion := version\<rparr> else h1)
           in if \<not> h_online h2 then (h2\<lparr>h_online := True, h_lastChange := now\<rparr>, True) else (h2, False))
      | Inl _ \<Rightarrow>
          (let h1 = h\<lparr>h_fails := h_fails h + 1\<rparr>
           in if h_online h1 \<and> threshold \<le> h_fails h1
              then (h1\<lparr>h_online := False, h_lastChange := now\<rparr>, True) else (h1, False)))"

fun apply_results ::
    "int \<Rightarrow> int \<Rightarrow> (string \<times> (probe_error + string)) list \<Rightarrow> (string \<rightharpoonup> health) \<times> bool
     \<Rightarrow> (string \<rightharpoonup> health) \<times> bool" where
  "apply_results threshold now [] st = st"
| "apply_results threshold now ((i, res) # rs) (hs, changed) =
     (case hs i of
        None \<Rightarrow> apply_results threshold now rs (hs, changed)
      | Some h \<Rightarrow>
          (let (h', c) = apply_result threshold now res h
           in apply_results threshold now rs (hs(i \<mapsto> h'), changed \<or> c)))"

text \<open>
  \<^verbatim>\<open>probeCycle\<close> takes a snapshot of the games, probes them with no lock held and applies the results
  under the lock: other operations may run in between, and a game may be gone by then.
\<close>

definition probe_all :: "Registry \<Rightarrow> (string \<Rightarrow> dial_outcome) \<Rightarrow> (string \<times> (probe_error + string)) list" where
  "probe_all r net = map (\<lambda>g. (g_ID g, probe net (g_Addr g))) (r_games r)"

definition probe_section :: "Registry \<Rightarrow> (string \<times> (probe_error + string)) list \<Rightarrow> int \<Rightarrow> Registry \<times> bool" where
  "probe_section r results now =
     (let (hs, changed) = apply_results (o_FailThreshold (r_opts r)) now results (r_health r, False)
      in (r\<lparr>r_health := hs\<rparr>, changed))"

definition probeCycle :: "Registry \<Rightarrow> (string \<Rightarrow> dial_outcome) \<Rightarrow> int \<Rightarrow> Registry option" where
  "probeCycle r net now =
     (let (r', changed) = probe_section r (probe_all r net) now
      in if changed then notify r' else Some r')"

text \<open>
  \<^verbatim>\<open>reloadIfChanged\<close>: \<open>stat\<close> is its own stat of the file, \<open>load\<close> what \<^verbatim>\<open>loadFile\<close> then returns.
\<close>

definition fresh_health :: "(string \<rightharpoonup> health) \<Rightarrow> int \<Rightarrow> Game list \<Rightarrow> (string \<rightharpoonup> health)" where
  "fresh_health hs now games =
     (\<lambda>i. if i \<in> g_ID ` set games
          then Some (case hs i of Some h \<Rightarrow> h | None \<Rightarrow> new_health now) else None)"

definition reload_section ::
    "Registry \<Rightarrow> int \<Rightarrow> load_error + Game list \<times> int \<Rightarrow> int \<Rightarrow> Registry \<times> bool" where
  "reload_section r mt load now =
     (case load of
        Inl _ \<Rightarrow> (r\<lparr>r_mtime := mt\<rparr>, False)
      | Inr (games, mtime) \<Rightarrow>
          (r\<lparr>r_mtime := mtime, r_games := games, r_health := fresh_health (r_health r) now games\<rparr>, True))"

definition reloadIfChanged ::
    "Registry \<Rightarrow> int option \<Rightarrow> load_error + Game list \<times> int \<Rightarrow> int \<Rightarrow> Registry option" where
  "reloadIfChanged r stat load now =
     (case stat of
        None \<Rightarrow> Some r
      | Some mt \<Rightarrow>
          if mt = r_mtime r then Some r
          else (let (r', reloaded) = reload_section r mt load now
                in if reloaded then notify r' else Some r'))"

text \<open>One turn of the loop: reload if the file changed, then probe. A pending kick is consumed.\<close>

definition registry_cycle ::
    "Registry \<Rightarrow> int option \<Rightarrow> load_error + Game list \<times> int \<Rightarrow> (string \<Rightarrow> dial_outcome) \<Rightarrow> int \<Rightarrow> Registry option"
where
  "registry_cycle r stat load net now =
     Option.bind (reloadIfChanged (r\<lparr>r_kick := False\<rparr>) stat load now) (\<lambda>r'. probeCycle r' net now)"

section \<open>Probe results, game by game\<close>

lemma apply_results_step:
  "apply_results T now ((i, res) # rs) (hs, ch) =
     apply_results T now rs
       (hs(i := map_option (\<lambda>h. fst (apply_result T now res h)) (hs i)),
        ch \<or> (\<exists>h. hs i = Some h \<and> snd (apply_result T now res h)))"
  by (simp add: split_def Let_def fun_upd_idem split: option.split)

declare apply_results.simps(2) [simp del] apply_results_step [simp]

lemma apply_results_health:
  assumes "distinct (map fst rs)"
  shows "fst (apply_results T now rs (hs, ch)) i =
           (case map_of rs i of
              None \<Rightarrow> hs i
            | Some res \<Rightarrow> map_option (\<lambda>h. fst (apply_result T now res h)) (hs i))"
  using assms
proof (induction rs arbitrary: hs ch)
  case (Cons p rs)
  obtain j res where p: "p = (j, res)" by (cases p)
  have "map_of rs j = None" using Cons.prems p by (simp add: map_of_eq_None_iff)
  then show ?case using Cons.IH Cons.prems p by (auto split: option.split)
qed simp

lemma apply_results_changed:
  assumes "distinct (map fst rs)"
  shows "snd (apply_results T now rs (hs, ch)) \<longleftrightarrow>
           ch \<or> (\<exists>(j, res) \<in> set rs. \<exists>h. hs j = Some h \<and> snd (apply_result T now res h))"
  using assms
proof (induction rs arbitrary: hs ch)
  case (Cons p rs)
  obtain j res where p: "p = (j, res)" by (cases p)
  have nj: "(j, r) \<notin> set rs" for r using Cons.prems p by (force simp: image_iff)
  have upd: "(\<exists>(k, r) \<in> set rs. \<exists>h. (hs(j := x)) k = Some h \<and> snd (apply_result T now r h)) \<longleftrightarrow>
      (\<exists>(k, r) \<in> set rs. \<exists>h. hs k = Some h \<and> snd (apply_result T now r h))" for x
    by (intro bex_cong refl) (use nj in \<open>auto split: if_splits\<close>)
  have "distinct (map fst rs)" using Cons.prems by simp
  from Cons.IH [OF this] have "snd (apply_results T now (p # rs) (hs, ch)) \<longleftrightarrow>
      (ch \<or> (\<exists>h. hs j = Some h \<and> snd (apply_result T now res h)))
      \<or> (\<exists>(k, r) \<in> set rs. \<exists>h. hs k = Some h \<and> snd (apply_result T now r h))"
    by (simp add: p upd del: fun_upd_apply)
  then show ?case by (auto simp: p)
qed simp

lemma apply_results_dom:
  "dom (fst (apply_results T now rs (hs, ch))) = dom hs"
proof (induction rs arbitrary: hs ch)
  case (Cons p rs)
  then show ?case by (cases p) (auto split: if_splits)
qed simp

section \<open>Flap damping\<close>

text \<open>What can happen to the health of one game, in the order it happens, with the time.\<close>

datatype health_event = Succeeded string | Failed probe_error | Reported

fun health_step :: "int \<Rightarrow> health \<Rightarrow> health_event \<times> int \<Rightarrow> health" where
  "health_step T h (Succeeded v, now) = fst (apply_result T now (Inr v) h)"
| "health_step T h (Failed e, now) = fst (apply_result T now (Inl e) h)"
| "health_step T h (Reported, now) = fst (report_health T now h)"

fun is_failed :: "health_event \<Rightarrow> bool" where
  "is_failed (Failed _) = True"
| "is_failed _ = False"

text \<open>The specification, on the history with the newest event first.\<close>

definition up_spec :: "int \<Rightarrow> health_event list \<Rightarrow> bool" where
  "up_spec T es =
     (case dropWhile is_failed es of
        Succeeded _ # _ \<Rightarrow> int (length (takeWhile is_failed es)) < T
      | _ \<Rightarrow> False)"

fun version_spec :: "health_event list \<Rightarrow> string" where
  "version_spec [] = []"
| "version_spec (Succeeded v # es) = (if v = [] then version_spec es else v)"
| "version_spec (_ # es) = version_spec es"

lemma up_spec_simps [simp]:
  "\<not> up_spec T []"
  "up_spec T (Succeeded v # es) \<longleftrightarrow> 0 < T"
  "\<not> up_spec T (Reported # es)"
  "up_spec T (Failed e # es) \<longleftrightarrow> up_spec T es \<and> int (length (takeWhile is_failed es)) + 1 < T"
  by (auto simp: up_spec_def simp del: dropWhile_eq_Nil_conv split: list.split health_event.split)

lemma health_run:
  assumes "0 < T"
  shows "let h = foldl (health_step T) (new_health t0) evs; past = rev (map fst evs) in
    (h_online h \<longleftrightarrow> up_spec T past)
    \<and> (h_online h \<longrightarrow> h_fails h = int (length (takeWhile is_failed past)))
    \<and> h_detectedVersion h = version_spec past"
proof (induction evs rule: rev_induct)
  case Nil
  then show ?case by (simp add: new_health_def)
next
  case (snoc ev evs)
  obtain e now where ev: "ev = (e, now)" by (cases ev)
  show ?case
    using snoc.IH assms by (cases e) (auto simp: ev Let_def apply_result_def report_health_def)
qed

section \<open>Invariant\<close>

definition reg_inv :: "Registry \<Rightarrow> bool" where
  "reg_inv r \<longleftrightarrow>
     games_ok (r_games r) \<and> dom (r_health r) = g_ID ` set (r_games r) \<and> hub_inv (r_hub r)
     \<and> 0 < o_FailThreshold (r_opts r)"

lemma notify_ok:
  assumes "hub_inv (r_hub r)"
  shows "\<exists>h. notify r = Some (r\<lparr>r_hub := h\<rparr>) \<and> hub_inv h \<and> subs h = subs (r_hub r)
           \<and> (\<forall>c \<in> subs h. chan_pending h c)"
  using hub_notify_ok [OF assms] by (auto simp: notify_def)

lemma reg_inv_hub: "reg_inv r \<Longrightarrow> hub_inv h \<Longrightarrow> reg_inv (r\<lparr>r_hub := h\<rparr>)"
  by (simp add: reg_inv_def)

lemma notify_inv: "reg_inv r \<Longrightarrow> \<exists>r'. notify r = Some r' \<and> reg_inv r'"
  using notify_ok [of r] reg_inv_hub [of r] by (auto simp: reg_inv_def)

lemma NewRegistry_inv:
  "NewRegistry opts now (loadFile toml parse stat raw) = Inr r \<Longrightarrow> reg_inv r"
  by (auto simp: NewRegistry_def loadFile_def reg_inv_def hub_inv_new withDefaults_def dom_def
      validate_games_ok split: sum.splits option.splits if_splits)

lemma Subscribe_inv: "reg_inv r \<Longrightarrow> reg_inv (snd (Subscribe r))"
  using hub_inv_Subscribe [of "r_hub r"]
  by (auto simp: Subscribe_def split_def Let_def intro!: reg_inv_hub) (simp add: reg_inv_def)

lemma Unsubscribe_inv: "reg_inv r \<Longrightarrow> \<exists>r'. Unsubscribe r c = Some r' \<and> reg_inv r'"
  using hub_Unsubscribe_ok [of "r_hub r" c] reg_inv_hub [of r]
  by (auto simp: Unsubscribe_def reg_inv_def)

lemma Close_inv: "reg_inv r \<Longrightarrow> \<exists>r'. Close r = Some r' \<and> reg_inv r'"
  using hub_CloseAll_ok [of "r_hub r"] by (auto simp: Close_def reg_inv_def)

lemma report_section_inv: "reg_inv r \<Longrightarrow> reg_inv (fst (report_section r i now))"
  by (auto simp: report_section_def reg_inv_def split_def Let_def split: option.split)

lemma probe_section_inv: "reg_inv r \<Longrightarrow> reg_inv (fst (probe_section r results now))"
  by (simp add: probe_section_def reg_inv_def split_def Let_def apply_results_dom)

text \<open>A load result the file loader can produce.\<close>

definition load_ok :: "load_error + Game list \<times> int \<Rightarrow> bool" where
  "load_ok load \<longleftrightarrow> (case load of Inl _ \<Rightarrow> True | Inr (games, _) \<Rightarrow> games_ok games)"

lemma loadFile_ok: "load_ok (loadFile toml parse stat raw)"
  by (auto simp: load_ok_def loadFile_def validate_games_ok split: option.split sum.split)

lemma fresh_health_dom: "dom (fresh_health hs now games) = g_ID ` set games"
  by (auto simp: fresh_health_def dom_def split: if_splits)

lemma reload_section_inv:
  "reg_inv r \<Longrightarrow> load_ok load \<Longrightarrow> reg_inv (fst (reload_section r mt load now))"
  by (auto simp: reload_section_def reg_inv_def load_ok_def fresh_health_dom split: sum.split)

lemma section_notify_inv:
  assumes "reg_inv (fst p)"
  shows "\<exists>r'. (let (r, changed) = p in if changed then notify r else Some r) = Some r' \<and> reg_inv r'"
  using assms notify_inv [of "fst p"] by (auto simp: split_def Let_def)

lemma Report_inv: "reg_inv r \<Longrightarrow> \<exists>r'. Report r i now = Some r' \<and> reg_inv r'"
  unfolding Report_def by (intro section_notify_inv report_section_inv)

lemma probeCycle_inv: "reg_inv r \<Longrightarrow> \<exists>r'. probeCycle r net now = Some r' \<and> reg_inv r'"
  unfolding probeCycle_def by (intro section_notify_inv probe_section_inv)

lemma reloadIfChanged_inv:
  "reg_inv r \<Longrightarrow> load_ok load \<Longrightarrow> \<exists>r'. reloadIfChanged r stat load now = Some r' \<and> reg_inv r'"
  using section_notify_inv [OF reload_section_inv, of r load]
  by (auto simp: reloadIfChanged_def split: option.split)

lemma registry_cycle_inv:
  assumes "reg_inv r" "load_ok load"
  shows "\<exists>r'. registry_cycle r stat load net now = Some r' \<and> reg_inv r'"
proof -
  have "reg_inv (r\<lparr>r_kick := False\<rparr>)" using assms by (simp add: reg_inv_def)
  from reloadIfChanged_inv [OF this assms(2)] obtain r1 where
    "reloadIfChanged (r\<lparr>r_kick := False\<rparr>) stat load now = Some r1" "reg_inv r1"
    by blast
  then show ?thesis using probeCycle_inv [of r1 net now] by (simp add: registry_cycle_def)
qed

section \<open>Runs\<close>

text \<open>
  The atomic steps of the registry: every critical section of its operations, in any order. The
  probe loop, \<open>Report\<close> from the bridges, subscribers and \<open>Close\<close> interleave at this granularity.
\<close>

datatype reg_op =
    OpReport string int
  | OpProbed "(string \<times> (probe_error + string)) list" int
  | OpReload int "load_error + Game list \<times> int" int
  | OpNotify
  | OpSubscribe
  | OpUnsubscribe nat
  | OpReceive nat
  | OpKick
  | OpTakeKick
  | OpStart
  | OpClose

fun reg_exec :: "Registry \<Rightarrow> reg_op \<Rightarrow> Registry option" where
  "reg_exec r (OpReport i now) = Some (fst (report_section r i now))"
| "reg_exec r (OpProbed results now) = Some (fst (probe_section r results now))"
| "reg_exec r (OpReload mt load now) = Some (fst (reload_section r mt load now))"
| "reg_exec r OpNotify = notify r"
| "reg_exec r OpSubscribe = Some (snd (Subscribe r))"
| "reg_exec r (OpUnsubscribe c) = Unsubscribe r c"
| "reg_exec r (OpReceive c) = Some (r\<lparr>r_hub := hub_recv (r_hub r) c\<rparr>)"
| "reg_exec r OpKick = Some (ProbeNow r)"
| "reg_exec r OpTakeKick = Some (r\<lparr>r_kick := False\<rparr>)"
| "reg_exec r OpStart = Some (Start r)"
| "reg_exec r OpClose = Close r"

text \<open>
  The steps the code can take: a reload applies a load result of a validated file, and the
  results of a probe cycle name every game of its snapshot once.
\<close>

fun op_ok :: "reg_op \<Rightarrow> bool" where
  "op_ok (OpReload mt load now) = load_ok load"
| "op_ok (OpProbed results now) = distinct (map fst results)"
| "op_ok _ = True"

fun reg_run :: "Registry \<Rightarrow> reg_op list \<Rightarrow> Registry option" where
  "reg_run r [] = Some r"
| "reg_run r (e # es) = Option.bind (reg_exec r e) (\<lambda>r'. reg_run r' es)"

lemma probe_all_ok: "reg_inv r \<Longrightarrow> op_ok (OpProbed (probe_all r net) now)"
  by (simp add: probe_all_def reg_inv_def games_ok_def comp_def)

lemma reg_exec_inv:
  assumes "reg_inv r" "op_ok e"
  shows "\<exists>r'. reg_exec r e = Some r' \<and> reg_inv r'"
proof (cases e)
  case (OpReceive c)
  then show ?thesis using assms hub_recv_ok [of "r_hub r" c] by (simp add: reg_inv_def)
qed (use assms in \<open>auto simp: report_section_inv probe_section_inv reload_section_inv notify_inv
    Subscribe_inv Unsubscribe_inv Close_inv\<close>,
    simp_all add: reg_inv_def ProbeNow_def Start_def)

text \<open>The registry as a machine.\<close>

definition reg_init :: "Registry \<Rightarrow> bool" where
  "reg_init r \<longleftrightarrow> (\<exists>opts now toml parse stat raw.
     NewRegistry opts now (loadFile toml parse stat raw) = Inr r)"

inductive reg_step :: "Registry \<Rightarrow> Registry \<Rightarrow> bool" where
  reg_step: "op_ok e \<Longrightarrow> reg_exec r e = Some r' \<Longrightarrow> reg_step r r'"

inductive_cases reg_stepE: "reg_step r r'"

interpretation reg: machine reg_init reg_step reg_inv
proof unfold_locales
  show "reg_init r \<Longrightarrow> reg_inv r" for r
    using NewRegistry_inv by (auto simp: reg_init_def)
  show "reg_inv r \<Longrightarrow> reg_step r r' \<Longrightarrow> reg_inv r'" for r r'
    by (erule reg_stepE) (use reg_exec_inv in fastforce)
qed

lemma reg_run_steps: "list_all op_ok es \<Longrightarrow> reg_run r es = Some r' \<Longrightarrow> reg_step\<^sup>*\<^sup>* r r'"
proof (induction es arbitrary: r)
  case (Cons e es)
  then obtain r1 where "reg_exec r e = Some r1" "reg_run r1 es = Some r'" by (auto simp: bind_eq_Some_conv)
  moreover from this Cons have "reg_step r r1" "reg_step\<^sup>*\<^sup>* r1 r'" by (auto intro: reg_step)
  ultimately show ?case by simp
qed simp

lemma reg_run_total: "reg_inv r \<Longrightarrow> list_all op_ok es \<Longrightarrow> \<exists>r'. reg_run r es = Some r'"
proof (induction es arbitrary: r)
  case (Cons e es)
  then show ?case using reg_exec_inv [of r e] by auto
qed simp

section \<open>The history of one game\<close>

text \<open>The events of game \<open>i\<close> in one step, and whether the step keeps the game listed.\<close>

definition result_event :: "probe_error + string \<Rightarrow> health_event" where
  "result_event res = (case res of Inr v \<Rightarrow> Succeeded v | Inl e \<Rightarrow> Failed e)"

fun events_of :: "string \<Rightarrow> reg_op \<Rightarrow> (health_event \<times> int) list" where
  "events_of i (OpReport j now) = (if j = i then [(Reported, now)] else [])"
| "events_of i (OpProbed results now) =
     (case map_of results i of None \<Rightarrow> [] | Some res \<Rightarrow> [(result_event res, now)])"
| "events_of i _ = []"

fun lists :: "string \<Rightarrow> reg_op \<Rightarrow> bool" where
  "lists i (OpReload mt (Inr (games, m)) now) \<longleftrightarrow> i \<in> g_ID ` set games"
| "lists i _ \<longleftrightarrow> True"

definition history :: "string \<Rightarrow> reg_op list \<Rightarrow> (health_event \<times> int) list" where
  "history i es = concat (map (events_of i) es)"

lemma health_step_result: "health_step T h (result_event res, now) = fst (apply_result T now res h)"
  by (simp add: result_event_def split: sum.split)

lemma hub_ops_health [simp]:
  "notify r = Some r' \<Longrightarrow> r_health r' = r_health r \<and> r_opts r' = r_opts r \<and> r_games r' = r_games r"
  "Unsubscribe r c = Some r' \<Longrightarrow> r_health r' = r_health r \<and> r_opts r' = r_opts r \<and> r_games r' = r_games r"
  "Close r = Some r' \<Longrightarrow> r_health r' = r_health r \<and> r_opts r' = r_opts r \<and> r_games r' = r_games r"
  by (auto simp: notify_def Unsubscribe_def Close_def split: if_splits)

lemma reg_exec_opts: "reg_exec r e = Some r' \<Longrightarrow> r_opts r' = r_opts r"
  by (cases e) (auto simp: report_section_def probe_section_def reload_section_def Subscribe_def
      ProbeNow_def Start_def split_def Let_def split: option.splits sum.splits)

lemma reg_exec_health:
  assumes "reg_exec r e = Some r'" "op_ok e" "lists i e" "r_health r i = Some h"
  shows "r_health r' i = Some (foldl (health_step (o_FailThreshold (r_opts r))) h (events_of i e))"
proof (cases e)
  case (OpReport j now)
  then show ?thesis
    using assms by (auto simp: report_section_def split_def Let_def split: option.splits)
next
  case (OpProbed results now)
  then have "distinct (map fst results)" using assms(2) by simp
  from apply_results_health [OF this] show ?thesis
    using OpProbed assms
    by (auto simp: probe_section_def split_def Let_def health_step_result split: option.splits)
next
  case (OpReload mt load now)
  then show ?thesis
    using assms by (cases load) (auto simp: reload_section_def fresh_health_def)
qed (use assms in \<open>auto simp: Subscribe_def ProbeNow_def Start_def split_def Let_def\<close>)

lemma reg_run_health:
  assumes "reg_run r es = Some r'" "list_all op_ok es" "list_all (lists i) es" "r_health r i = Some h"
  shows "r_opts r' = r_opts r \<and>
    r_health r' i = Some (foldl (health_step (o_FailThreshold (r_opts r))) h (history i es))"
  using assms
proof (induction es arbitrary: r h)
  case (Cons e es)
  then obtain r1 where r1: "reg_exec r e = Some r1" "reg_run r1 es = Some r'"
    by (auto simp: bind_eq_Some_conv)
  show ?case
    using Cons.IH [OF r1(2)] reg_exec_health [OF r1(1)] reg_exec_opts [OF r1(1)] Cons.prems
    by (auto simp: history_def)
qed (simp add: history_def)

lemma Games_status:
  assumes "reg_inv r" "r_health r i = Some h"
  shows "\<exists>st \<in> set (Games r). g_ID (gs_Game st) = i \<and> gs_Online st = h_online h
           \<and> gs_DetectedVersion st = h_detectedVersion h"
proof -
  have "i \<in> g_ID ` set (r_games r)" using assms by (auto simp: reg_inv_def)
  then obtain g where "g \<in> set (r_games r)" "g_ID g = i" by auto
  then show ?thesis using assms(2) by (force simp: Games_def status_of_def)
qed

section \<open>Banners\<close>

lemma read_line_line: "chr 10 \<notin> set l \<Longrightarrow> read_line (l @ chr 10 # rest) = (l @ [chr 10], rest, False)"
  by (induction l) auto

lemma HasPrefix_snoc: "x \<notin> set p \<Longrightarrow> HasPrefix (l @ [x]) p \<longleftrightarrow> HasPrefix l p"
proof (induction p arbitrary: l)
  case Nil
  then show ?case by (simp add: HasPrefix_def)
next
  case (Cons a p)
  then show ?case by (cases l) (auto simp: HasPrefix_def)
qed

lemma set_split_on: "x \<in> set s \<Longrightarrow> x = c \<or> (\<exists>p \<in> set (split_on c s). x \<in> set p)"
  by (induction s) (auto split: list.splits if_splits)

lemma version_part_digits: "version_part s \<Longrightarrow> list_all is_digit s"
  by (auto simp: version_part_def is_digit_def)

lemma versionPattern_chars:
  assumes "versionPattern v"
  shows "list_all (\<lambda>c. is_digit c \<or> c = CHR ''.'') v"
proof -
  have "list_all version_part (split_on (CHR ''.'') v)"
    using assms by (simp add: versionPattern_def split: list.splits)
  then have "p \<in> set (split_on (CHR ''.'') v) \<Longrightarrow> c \<in> set p \<Longrightarrow> is_digit c" for p c
    using version_part_digits by (auto simp: list_all_iff)
  then show ?thesis using set_split_on [where c = "CHR ''.''" and s = v] unfolding list_all_iff by blast
qed

definition fleet_version :: "string \<Rightarrow> bool" where
  "fleet_version v \<longleftrightarrow> v = ''dev'' \<or> versionPattern v"

lemma fleet_version_chars:
  assumes "fleet_version v"
  shows "CHR '' '' \<notin> set v" "chr 10 \<notin> set v" "chr 13 \<notin> set v" "v \<noteq> []"
proof -
  have "c \<notin> set v" if "\<not> is_digit c" "c \<noteq> CHR ''.''" "c \<notin> set ''dev''" for c
    using assms that versionPattern_chars [of v] by (auto simp: fleet_version_def list_all_iff)
  then show "CHR '' '' \<notin> set v" "chr 10 \<notin> set v" "chr 13 \<notin> set v"
    by (simp_all add: is_digit_def chr_lf chr_cr)
  show "v \<noteq> []" using assms by (auto simp: fleet_version_def versionPattern_def)
qed

lemma TrimRight_append:
  "set t \<subseteq> set cs \<Longrightarrow> s \<noteq> [] \<Longrightarrow> last s \<notin> set cs \<Longrightarrow> TrimRight (s @ t) cs = s"
proof -
  assume a: "set t \<subseteq> set cs" "s \<noteq> []" "last s \<notin> set cs"
  have "dropWhile (\<lambda>c. c \<in> set cs) (rev t @ rev s) = dropWhile (\<lambda>c. c \<in> set cs) (rev s)"
    using a(1) by (intro dropWhile_append2) auto
  also have "\<dots> = rev s" using a(2,3) by (cases s rule: rev_cases) auto
  finally show ?thesis by (simp add: TrimRight_def)
qed

text \<open>What the server may send after its version: nothing, or a space and a comment.\<close>

definition banner_tail :: "string \<Rightarrow> bool" where
  "banner_tail t \<longleftrightarrow> t = [] \<or> (hd t = CHR '' '' \<and> chr 10 \<notin> set t)"

lemma bannerVersion_fleet:
  assumes v: "fleet_version v" and t: "banner_tail t" and eol: "set eol \<subseteq> {chr 13, chr 10}"
  shows "bannerVersion (''SSH-2.0-'' @ v @ t @ eol) = v"
proof -
  let ?rest = "TrimRight (v @ t @ eol) [chr 13, chr 10]"
  note vc = fleet_version_chars [OF v]
  have sp: "CHR '' '' \<notin> {chr 13, chr 10}" by (simp add: chr_lf chr_cr)
  have lastv: "last v \<notin> {chr 13, chr 10}" using vc by (metis insertE last_in_set singletonD)
  have "?rest = v \<or> (\<exists>u. ?rest = v @ CHR '' '' # u)"
  proof (cases t)
    case Nil
    then show ?thesis using TrimRight_append [of eol "[chr 13, chr 10]" v] eol lastv vc(4) by simp
  next
    case (Cons c t')
    then have c: "c = CHR '' ''" using t by (simp add: banner_tail_def)
    have "dropWhile (\<lambda>c. c \<in> {chr 13, chr 10}) (rev (t' @ eol) @ CHR '' '' # rev v) =
        dropWhile (\<lambda>c. c \<in> {chr 13, chr 10}) (rev (t' @ eol)) @ CHR '' '' # rev v"
      by (rule dropWhile_append3) (use sp in auto)
    then show ?thesis by (simp add: TrimRight_def Cons c)
  qed
  then have "(let i = IndexByte ?rest (CHR '' '') in if 0 \<le> i then take (nat i) ?rest else ?rest) = v"
    using vc(1) by (auto simp: IndexByte_absent_eq IndexByte_append_fresh)
  moreover have "TrimPrefix (''SSH-2.0-'' @ v @ t @ eol) ''SSH-2.0-'' = v @ t @ eol"
    by (simp add: TrimPrefix_def HasPrefix_def)
  ultimately show ?thesis using v by (simp add: bannerVersion_def Let_def fleet_version_def)
qed

lemma scan_banner_skip:
  assumes "list_all (\<lambda>l. chr 10 \<notin> set l \<and> \<not> HasPrefix l ''SSH-2.0-'') pre"
  shows "scan_banner (length pre + n) (concat (map (\<lambda>l. l @ [chr 10]) pre) @ s) = scan_banner n s"
proof -
  have "HasPrefix (l @ [chr 10]) ''SSH-2.0-'' \<longleftrightarrow> HasPrefix l ''SSH-2.0-''" for l
    by (rule HasPrefix_snoc) (simp add: chr_lf)
  then show ?thesis using assms by (induction pre) (simp_all add: read_line_line)
qed

lemma scan_banner_hit:
  assumes "chr 10 \<notin> set l"
  shows "scan_banner (Suc n) (''SSH-2.0-'' @ l @ chr 10 # rest) = Inr (bannerVersion (''SSH-2.0-'' @ l @ [chr 10]))"
proof -
  have "chr 10 \<notin> set (''SSH-2.0-'' @ l)" using assms by (simp add: chr_lf chr_cr)
  from read_line_line [OF this, of rest] show ?thesis
    by (simp add: HasPrefix_def del: read_line.simps)
qed

section \<open>Properties\<close>

text \<open>
  (C5) Flap damping over whole executions. Start from a loaded registry and let its critical
  sections interleave in any order. Then no step panics, and a game that every reload keeps
  listed is shown online exactly when its history, newest event first, is fewer failures than the
  threshold followed by a successful probe: one success brings it up, only the threshold's number
  of consecutive failures or one report from a bridge brings it down. The version shown is the
  last one a probe detected.
\<close>

theorem registry_flap_damping:
  assumes "NewRegistry opts t0 (loadFile toml parse stat raw) = Inr r0"
    and "i \<in> g_ID ` set (r_games r0)" and "list_all op_ok es" and "list_all (lists i) es"
  shows "\<exists>r st. reg_run r0 es = Some r \<and> st \<in> set (Games r) \<and> g_ID (gs_Game st) = i
    \<and> (gs_Online st \<longleftrightarrow> up_spec (o_FailThreshold (withDefaults opts)) (rev (map fst (history i es))))
    \<and> gs_DetectedVersion st = version_spec (rev (map fst (history i es)))"
proof -
  have inv: "reg_inv r0" by (rule NewRegistry_inv [OF assms(1)])
  obtain r where r: "reg_run r0 es = Some r" using reg_run_total [OF inv assms(3)] by blast
  have inv': "reg_inv r" using reg.steps_inv [OF reg_run_steps [OF assms(3) r] inv] .
  have T: "r_opts r0 = withDefaults opts" "r_health r0 i = Some (new_health t0)"
    using assms(1,2) by (auto simp: NewRegistry_def split: sum.splits prod.splits)
  have "0 < o_FailThreshold (withDefaults opts)" by (simp add: withDefaults_def)
  note run = health_run [OF this, of t0 "history i es"]
  from reg_run_health [OF r assms(3,4) T(2)] T(1) have
    "r_health r i = Some (foldl (health_step (o_FailThreshold (withDefaults opts))) (new_health t0) (history i es))"
    by simp
  from Games_status [OF inv' this] run r show ?thesis by (auto simp: Let_def)
qed

lemma validate_single:
  "validate (\<lambda>_. None) [example_entry ''farm'' ''IDLE FARMER'' 10] =
     Inr [entry_game (\<lambda>_. None) (example_entry ''farm'' ''IDLE FARMER'' 10)]"
proof -
  have "entry_ok (\<lambda>_. None) (example_entry ''farm'' ''IDLE FARMER'' 10)"
    by (rule entry_ok_example) (simp_all add: idPattern_def id_char_def)
  then show ?thesis by (simp add: validate_iff)
qed

definition example_registry :: Registry where
  "example_registry =
     \<lparr>r_opts = \<lparr>o_ProbeInterval = 15 * second, o_DialTimeout = 2 * second, o_FailThreshold = 2\<rparr>,
      r_games = [entry_game (\<lambda>_. None) (example_entry ''farm'' ''IDLE FARMER'' 10)],
      r_health = (\<lambda>i. if i \<in> {''farm''} then Some (new_health 7) else None), r_hub = new_hub,
      r_mtime = 5, r_kick = False, r_started = False, r_closed = False\<rparr>"

lemma example_entry_ID: "f_ID (example_entry i n ord) = i"
  by (simp add: example_entry_def)

lemma example_registry_loaded:
  "NewRegistry \<lparr>o_ProbeInterval = 0, o_DialTimeout = 0, o_FailThreshold = 0\<rparr> 7
     (loadFile (\<lambda>_. Some [example_entry ''farm'' ''IDLE FARMER'' 10]) (\<lambda>_. None) (Some 5) (Some [])) =
   Inr example_registry"
  by (simp add: loadFile_def validate_single NewRegistry_def withDefaults_def example_registry_def
      example_entry_ID)

theorem registry_flap_damping_witness:
  "\<exists>r st. reg_run example_registry
       [OpProbed [(''farm'', Inr ''1.2.0'')] 8, OpNotify, OpProbed [(''farm'', Inl DialError)] 9] = Some r
     \<and> st \<in> set (Games r) \<and> gs_Online st \<and> gs_DetectedVersion st = ''1.2.0''"
  using registry_flap_damping [OF example_registry_loaded, of "''farm''"
      "[OpProbed [(''farm'', Inr ''1.2.0'')] 8, OpNotify, OpProbed [(''farm'', Inl DialError)] 9]"]
  by (auto simp: example_registry_def example_entry_def history_def result_event_def withDefaults_def)

text \<open>
  (C34) The registry under any interleaving of its critical sections, subscribers coming and going
  and \<open>Close\<close> included: no send on or close of a closed channel ever panics, and in every state the
  snapshot is a valid registry (unique ids and names, menu order) on which a notification pokes
  every subscriber and changes nothing else.
\<close>

theorem registry_never_panics:
  assumes "NewRegistry opts t0 (loadFile toml parse stat raw) = Inr r0" and "list_all op_ok es"
  shows "\<exists>r r'. reg_run r0 es = Some r \<and> games_ok (map gs_Game (Games r))
    \<and> notify r = Some r' \<and> Games r' = Games r \<and> subs (r_hub r') = subs (r_hub r)
    \<and> (\<forall>c \<in> subs (r_hub r'). chan_pending (r_hub r') c)"
proof -
  have inv: "reg_inv r0" by (rule NewRegistry_inv [OF assms(1)])
  obtain r where r: "reg_run r0 es = Some r" using reg_run_total [OF inv assms(2)] by blast
  have inv': "reg_inv r" using reg.steps_inv [OF reg_run_steps [OF assms(2) r] inv] .
  have "map gs_Game (Games r) = r_games r"
    by (simp add: Games_def status_of_def comp_def map_idI split: option.split)
  moreover obtain h where "notify r = Some (r\<lparr>r_hub := h\<rparr>)" "subs h = subs (r_hub r)"
    "\<forall>c \<in> subs h. chan_pending h c"
    using notify_ok [of r] inv' by (auto simp: reg_inv_def)
  ultimately show ?thesis using r inv' by (auto simp: reg_inv_def Games_def)
qed

theorem registry_never_panics_witness:
  "\<exists>r r'. reg_run example_registry [OpSubscribe, OpSubscribe, OpUnsubscribe 0, OpUnsubscribe 0, OpClose, OpUnsubscribe 1] = Some r
     \<and> notify r = Some r' \<and> games_ok (map gs_Game (Games r))"
  using registry_never_panics [OF example_registry_loaded,
      of "[OpSubscribe, OpSubscribe, OpUnsubscribe 0, OpUnsubscribe 0, OpClose, OpUnsubscribe 1]"]
  by auto

text \<open>
  Reloading is all or nothing. When the file's modification time changed, a file that fails
  to stat, read, parse or validate leaves games, health, subscribers and their pokes as they were
  and is remembered so that it is not retried; a good file replaces the games, keeps the health of
  every game that stays, starts new games offline, forgets removed ones and pokes all subscribers.
  An unchanged file changes nothing.
\<close>

theorem reload_all_or_nothing:
  assumes "reg_inv r"
  shows "reloadIfChanged r None load now = Some r
    \<and> reloadIfChanged r (Some (r_mtime r)) load now = Some r
    \<and> (\<forall>mt. mt \<noteq> r_mtime r \<longrightarrow>
        (case loadFile toml parse stat raw of
           Inl _ \<Rightarrow> reloadIfChanged r (Some mt) (loadFile toml parse stat raw) now = Some (r\<lparr>r_mtime := mt\<rparr>)
         | Inr (games, mtime) \<Rightarrow>
             \<exists>r'. reloadIfChanged r (Some mt) (loadFile toml parse stat raw) now = Some r' \<and> reg_inv r'
               \<and> r_games r' = games \<and> r_mtime r' = mtime
               \<and> (\<forall>i. r_health r' i =
                     (if i \<notin> g_ID ` set games then None
                      else if r_health r i = None then Some (new_health now) else r_health r i))
               \<and> subs (r_hub r') = subs (r_hub r) \<and> (\<forall>c \<in> subs (r_hub r'). chan_pending (r_hub r') c)))"
proof (cases "loadFile toml parse stat raw")
  case (Inl e)
  then show ?thesis by (simp add: reloadIfChanged_def reload_section_def)
next
  case (Inr gm)
  obtain games mtime where gm: "gm = (games, mtime)" by (cases gm)
  let ?r = "r\<lparr>r_mtime := mtime, r_games := games, r_health := fresh_health (r_health r) now games\<rparr>"
  have inv: "reg_inv ?r"
    using reload_section_inv [OF assms loadFile_ok, of 0 toml parse stat raw now]
    by (simp add: Inr gm reload_section_def)
  then obtain h where "notify ?r = Some (?r\<lparr>r_hub := h\<rparr>)" "hub_inv h" "subs h = subs (r_hub ?r)"
    "\<forall>c \<in> subs h. chan_pending h c"
    using notify_ok [of ?r] by (auto simp: reg_inv_def)
  with inv reg_inv_hub [OF inv] Inr gm show ?thesis
    by (auto simp: reloadIfChanged_def reload_section_def fresh_health_def split: option.split)
qed

lemma example_registry_inv: "reg_inv example_registry"
  using NewRegistry_inv [OF example_registry_loaded] .

theorem reload_all_or_nothing_witness:
  "reloadIfChanged example_registry (Some 6)
     (loadFile (\<lambda>_. Some []) (\<lambda>_. None) (Some 6) (Some [])) 9 = Some (example_registry\<lparr>r_mtime := 6\<rparr>)"
  using reload_all_or_nothing [OF example_registry_inv, where toml = "\<lambda>_. Some []" and parse = "\<lambda>_. None"
      and stat = "Some 6" and raw = "Some []" and now = 9]
  by (simp add: loadFile_def validate_def example_registry_def)

text \<open>
  A probe reads the version a game announces: after fewer than eight other lines, a banner
  \<^verbatim>\<open>SSH-2.0-<version>\<close>, with or without a comment and a carriage return, yields exactly that version;
  a server that sends eight lines without a banner counts as down.
\<close>

theorem probe_reads_version:
  assumes "list_all (\<lambda>l. chr 10 \<notin> set l \<and> \<not> HasPrefix l ''SSH-2.0-'') pre"
    and "fleet_version v" and "banner_tail t"
    and "net addr = Bytes (concat (map (\<lambda>l. l @ [chr 10]) pre) @ rest)"
    and "rest = ''SSH-2.0-'' @ v @ t @ cr @ chr 10 # after" and "cr = [] \<or> cr = [chr 13]"
  shows "probe net addr = (if length pre < 8 then Inr v else Inl NoBanner)"
proof (cases "length pre < 8")
  case True
  then obtain n where n: "8 = length pre + Suc n" by (metis less_iff_Suc_add add_Suc_right)
  have "chr 10 \<notin> set (v @ t @ cr)"
    using fleet_version_chars [OF assms(2)] assms(3,6) by (auto simp: banner_tail_def chr_eq_iff)
  from scan_banner_hit [OF this, of n after]
  have "scan_banner (Suc n) rest = Inr (bannerVersion (''SSH-2.0-'' @ v @ t @ (cr @ [chr 10])))"
    by (simp add: assms(5))
  moreover have "set (cr @ [chr 10]) \<subseteq> {chr 13, chr 10}" using assms(6) by auto
  ultimately show ?thesis
    using True scan_banner_skip [OF assms(1), of "Suc n" rest] bannerVersion_fleet [OF assms(2,3)]
    by (simp add: probe_def assms(4) n del: scan_banner.simps)
next
  case False
  let ?a = "take 8 pre" and ?b = "drop 8 pre"
  have "list_all (\<lambda>l. chr 10 \<notin> set l \<and> \<not> HasPrefix l ''SSH-2.0-'') ?a"
    using assms(1) by (rule list_all_take)
  from scan_banner_skip [OF this, of 0 "concat (map (\<lambda>l. l @ [chr 10]) ?b) @ rest"]
  have "scan_banner 8 (concat (map (\<lambda>l. l @ [chr 10]) (?a @ ?b)) @ rest) = Inl NoBanner"
    using False by (simp del: append_take_drop_id)
  then show ?thesis using False by (simp add: probe_def assms(4))
qed

theorem probe_reads_version_witness:
  "probe (\<lambda>_. Bytes (''hello'' @ [chr 10] @ ''SSH-2.0-2.4.3 arcade'' @ [chr 13, chr 10])) ''farm:22'' = Inr ''2.4.3''"
  using probe_reads_version [of "[''hello'']" "''2.4.3''" "'' arcade''"
      "\<lambda>_. Bytes (''hello'' @ [chr 10] @ ''SSH-2.0-2.4.3 arcade'' @ [chr 13, chr 10])" "''farm:22''" _ "[chr 13]" "[]"]
  by (simp add: fleet_version_def versionPattern_def version_part_def is_digit_def banner_tail_def
      HasPrefix_def chr_lf chr_cr)

text \<open>
  A probe cycle touches each listed game by its own probe only, and subscribers are poked
  whenever a game comes up or goes down.
\<close>

theorem probeCycle_correct:
  assumes "reg_inv r"
  shows "\<exists>r'. probeCycle r net now = Some r' \<and> reg_inv r' \<and> r_games r' = r_games r
    \<and> (\<forall>g \<in> set (r_games r). r_health r' (g_ID g) =
          map_option (\<lambda>h. fst (apply_result (o_FailThreshold (r_opts r)) now (probe net (g_Addr g)) h))
            (r_health r (g_ID g)))
    \<and> (map gs_Online (Games r') \<noteq> map gs_Online (Games r) \<longrightarrow>
          (\<forall>c \<in> subs (r_hub r). chan_pending (r_hub r') c))"
proof -
  let ?T = "o_FailThreshold (r_opts r)" and ?rs = "probe_all r net"
  obtain r' where r': "probeCycle r net now = Some r'" "reg_inv r'" using probeCycle_inv [OF assms] by blast
  have d: "distinct (map fst ?rs)" using probe_all_ok [OF assms] by simp
  let ?st = "apply_results ?T now ?rs (r_health r, False)"
  have hs: "r_health r' = fst ?st \<and> r_games r' = r_games r"
    using r'(1) by (auto simp: probeCycle_def probe_section_def split_def Let_def split: if_splits)
  have each: "fst ?st (g_ID g) = map_option (\<lambda>h. fst (apply_result ?T now (probe net (g_Addr g)) h)) (r_health r (g_ID g))"
    if "g \<in> set (r_games r)" for g
  proof -
    have "map_of ?rs (g_ID g) = Some (probe net (g_Addr g))"
      using d that by (intro map_of_is_SomeI) (auto simp: probe_all_def)
    then show ?thesis by (simp add: apply_results_health [OF d])
  qed
  have poked: "\<forall>c \<in> subs (r_hub r). chan_pending (r_hub r') c" if "snd ?st"
    using that r'(1) notify_ok [of "r\<lparr>r_health := fst ?st\<rparr>"] assms
    by (auto simp: probeCycle_def probe_section_def split_def Let_def reg_inv_def)
  have "snd ?st" if "map gs_Online (Games r') \<noteq> map gs_Online (Games r)"
  proof (rule ccontr)
    assume no: "\<not> snd ?st"
    have "gs_Online (status_of (fst ?st) g) = gs_Online (status_of (r_health r) g)"
      if g: "g \<in> set (r_games r)" for g
    proof (cases "r_health r (g_ID g)")
      case (Some h)
      then have "\<not> snd (apply_result ?T now (probe net (g_Addr g)) h)"
        using no g unfolding apply_results_changed [OF d] by (force simp: probe_all_def)
      then show ?thesis using each [OF g] Some
        by (auto simp: status_of_def apply_result_def Let_def split: sum.splits if_splits)
    qed (use each [OF g] in \<open>simp add: status_of_def\<close>)
    then show False using that hs by (simp add: Games_def)
  qed
  then show ?thesis using r' hs each poked by auto
qed

theorem probeCycle_correct_witness:
  "\<exists>r'. probeCycle example_registry (\<lambda>_. Bytes ''SSH-2.0-OpenSSH'') 8 = Some r' \<and> reg_inv r'
     \<and> map gs_Online (Games r') = [True]"
proof -
  obtain r' where r': "probeCycle example_registry (\<lambda>_. Bytes ''SSH-2.0-OpenSSH'') 8 = Some r'" "reg_inv r'"
    "r_games r' = r_games example_registry"
    "r_health r' ''farm'' = map_option (\<lambda>h. fst (apply_result 2 8 (probe (\<lambda>_. Bytes ''SSH-2.0-OpenSSH'') ''farm:22'') h))
       (Some (new_health 7))"
    using probeCycle_correct [OF example_registry_inv, of "\<lambda>_. Bytes ''SSH-2.0-OpenSSH''" 8]
    by (auto simp: example_registry_def example_entry_def)
  have "\<exists>v. probe (\<lambda>_. Bytes ''SSH-2.0-OpenSSH'') ''farm:22'' = Inr v"
    using scan_banner.simps(2) [of 7] by (simp add: probe_def chr_lf HasPrefix_def)
  then show ?thesis using r'
    by (auto simp: Games_def status_of_def example_registry_def example_entry_def apply_result_def new_health_def Let_def)
qed

end
