(* ===== verification/Banner.thy ===== *)
theory Banner
  imports Pubsub Go_Text
begin

text \<open>
  \<^verbatim>\<open>internal/banner/banner.go\<close>: the operator notice, loaded from a file, reloaded when the file's
  modification time changes, with the same subscription mechanism as the registry. The outcomes of
  the file system calls and the TOML decoder are arguments; the zero time is \<open>None\<close>.

  Shown: what validation accepts and produces; a notice in force is always a validated one; a bad
  reload keeps the notice, a removed file switches it off, and subscribers are poked exactly when
  the notice changes.
\<close>

section \<open>Model\<close>

datatype Level = LevelNone | LevelInfo | LevelWarning | LevelDanger

record Notice =
  n_Enabled :: bool
  n_Level :: Level
  n_Title :: string
  n_Message :: string

definition zero_Notice :: Notice where
  "zero_Notice = \<lparr>n_Enabled = False, n_Level = LevelNone, n_Title = [], n_Message = []\<rparr>"

record bannerRoot =
  b_Enabled :: bool
  b_Level :: string
  b_Title :: string
  b_Message :: string

definition maxTitleLen :: nat where
  "maxTitleLen = 48"

definition maxMessageLen :: nat where
  "maxMessageLen = 240"

datatype banner_error =
    BannerStat bool
  | BannerRead
  | BannerEmpty
  | BannerToml
  | BadLevel string
  | NoText
  | TitleTooLong
  | MessageTooLong

definition level_of :: "string \<Rightarrow> Level option" where
  "level_of s =
     (let l = ToLower (TrimSpace s) in
      if l = [] \<or> l = ''info'' then Some LevelInfo
      else if l = ''warning'' then Some LevelWarning
      else if l = ''danger'' then Some LevelDanger
      else None)"

definition validate_banner :: "bannerRoot \<Rightarrow> banner_error + Notice" where
  "validate_banner root =
     (if \<not> b_Enabled root then Inr zero_Notice
      else
        (case level_of (b_Level root) of
           None \<Rightarrow> Inl (BadLevel (b_Level root))
         | Some level \<Rightarrow>
             (let title = TrimSpace (b_Title root); message = TrimSpace (b_Message root) in
              if title = [] \<and> message = [] then Inl NoText
              else if maxTitleLen < length title then Inl TitleTooLong
              else if maxMessageLen < length message then Inl MessageTooLong
              else Inr \<lparr>n_Enabled = True, n_Level = level, n_Title = title, n_Message = message\<rparr>)))"

text \<open>
  \<^verbatim>\<open>os.Stat\<close> yields a modification time or an error, of which \<^verbatim>\<open>os.IsNotExist\<close> tells whether the file is
  missing.
\<close>

datatype stat_result = Modified int | Missing | StatFailed

definition loadFile_banner ::
    "(string \<Rightarrow> bannerRoot option) \<Rightarrow> stat_result \<Rightarrow> string option \<Rightarrow> banner_error + Notice \<times> int" where
  "loadFile_banner toml stat raw =
     (case stat of
        Missing \<Rightarrow> Inl (BannerStat True)
      | StatFailed \<Rightarrow> Inl (BannerStat False)
      | Modified mtime \<Rightarrow>
          (case raw of
             None \<Rightarrow> Inl BannerRead
           | Some bytes \<Rightarrow>
               if TrimSpace bytes = [] then Inl BannerEmpty
               else
                 (case toml bytes of
                    None \<Rightarrow> Inl BannerToml
                  | Some root \<Rightarrow>
                      (case validate_banner root of Inl e \<Rightarrow> Inl e | Inr n \<Rightarrow> Inr (n, mtime)))))"

record BannerSource =
  bs_ReloadInterval :: int
  bs_notice :: Notice
  bs_mtime :: "int option"
  bs_hub :: hub
  bs_kick :: bool
  bs_started :: bool
  bs_closed :: bool

text \<open>The reload interval in nanoseconds, of which none or a negative one means the default.\<close>

definition withDefaults_banner :: "int \<Rightarrow> int" where
  "withDefaults_banner interval = (if interval \<le> 0 then 15 * 1000000000 else interval)"

text \<open>\<^verbatim>\<open>New\<close> never fails: a file that cannot be loaded yields a disabled notice.\<close>

definition NewBanner :: "int \<Rightarrow> banner_error + Notice \<times> int \<Rightarrow> BannerSource" where
  "NewBanner interval load =
     (let s = \<lparr>bs_ReloadInterval = withDefaults_banner interval, bs_notice = zero_Notice,
               bs_mtime = None, bs_hub = new_hub, bs_kick = False, bs_started = False, bs_closed = False\<rparr>
      in case load of
           Inl _ \<Rightarrow> s
         | Inr (notice, mtime) \<Rightarrow> s\<lparr>bs_notice := notice, bs_mtime := Some mtime\<rparr>)"

definition notify_banner :: "BannerSource \<Rightarrow> BannerSource option" where
  "notify_banner s = map_option (\<lambda>h. s\<lparr>bs_hub := h\<rparr>) (hub_notify (bs_hub s))"

definition Subscribe_banner :: "BannerSource \<Rightarrow> nat \<times> BannerSource" where
  "Subscribe_banner s = (let (c, h) = hub_Subscribe (bs_hub s) in (c, s\<lparr>bs_hub := h\<rparr>))"

definition Unsubscribe_banner :: "BannerSource \<Rightarrow> nat \<Rightarrow> BannerSource option" where
  "Unsubscribe_banner s c = map_option (\<lambda>h. s\<lparr>bs_hub := h\<rparr>) (hub_Unsubscribe (bs_hub s) c)"

definition ReloadNow :: "BannerSource \<Rightarrow> BannerSource" where
  "ReloadNow s = s\<lparr>bs_kick := True\<rparr>"

definition Start_banner :: "BannerSource \<Rightarrow> BannerSource" where
  "Start_banner s = s\<lparr>bs_started := True\<rparr>"

definition Close_banner :: "BannerSource \<Rightarrow> BannerSource option" where
  "Close_banner s =
     (if bs_closed s then Some s
      else map_option (\<lambda>h. s\<lparr>bs_closed := True, bs_hub := h\<rparr>) (hub_CloseAll (bs_hub s)))"

text \<open>
  What \<^verbatim>\<open>reloadIfChanged\<close> changes under the lock, for a missing file and for a changed one, and whether
  subscribers are notified afterwards.
\<close>

definition removed_section :: "BannerSource \<Rightarrow> BannerSource \<times> bool" where
  "removed_section s =
     (if bs_notice s = zero_Notice \<and> bs_mtime s = None then (s, False)
      else (s\<lparr>bs_notice := zero_Notice, bs_mtime := None\<rparr>, True))"

definition changed_section ::
    "BannerSource \<Rightarrow> int \<Rightarrow> banner_error + Notice \<times> int \<Rightarrow> BannerSource \<times> bool" where
  "changed_section s mt load =
     (case load of
        Inl _ \<Rightarrow> (s\<lparr>bs_mtime := Some mt\<rparr>, False)
      | Inr (notice, mtime) \<Rightarrow>
          (s\<lparr>bs_mtime := Some mtime, bs_notice := notice\<rparr>, bs_notice s \<noteq> notice))"

definition reloadIfChanged_banner ::
    "BannerSource \<Rightarrow> stat_result \<Rightarrow> banner_error + Notice \<times> int \<Rightarrow> BannerSource option" where
  "reloadIfChanged_banner s stat load =
     (let finish = (\<lambda>(s', changed). if changed then notify_banner s' else Some s')
      in case stat of
           Missing \<Rightarrow> finish (removed_section s)
         | StatFailed \<Rightarrow> Some s
         | Modified mt \<Rightarrow> if bs_mtime s = Some mt then Some s else finish (changed_section s mt load))"

section \<open>Runs\<close>

text \<open>The critical sections of the source, in any order.\<close>

datatype banner_op =
    BRemoved
  | BChanged int "banner_error + Notice \<times> int"
  | BNotify
  | BSubscribe
  | BUnsubscribe nat
  | BReceive nat
  | BKick
  | BStart
  | BClose

fun banner_exec :: "BannerSource \<Rightarrow> banner_op \<Rightarrow> BannerSource option" where
  "banner_exec s BRemoved = Some (fst (removed_section s))"
| "banner_exec s (BChanged mt load) = Some (fst (changed_section s mt load))"
| "banner_exec s BNotify = notify_banner s"
| "banner_exec s BSubscribe = Some (snd (Subscribe_banner s))"
| "banner_exec s (BUnsubscribe c) = Unsubscribe_banner s c"
| "banner_exec s (BReceive c) = Some (s\<lparr>bs_hub := hub_recv (bs_hub s) c\<rparr>)"
| "banner_exec s BKick = Some (ReloadNow s)"
| "banner_exec s BStart = Some (Start_banner s)"
| "banner_exec s BClose = Close_banner s"

text \<open>A notice as validation produces it.\<close>

definition notice_ok :: "Notice \<Rightarrow> bool" where
  "notice_ok n \<longleftrightarrow>
     n = zero_Notice
     \<or> (n_Enabled n \<and> n_Level n \<noteq> LevelNone \<and> (n_Title n \<noteq> [] \<or> n_Message n \<noteq> [])
        \<and> length (n_Title n) \<le> maxTitleLen \<and> length (n_Message n) \<le> maxMessageLen)"

definition banner_load_ok :: "banner_error + Notice \<times> int \<Rightarrow> bool" where
  "banner_load_ok load \<longleftrightarrow> (case load of Inl _ \<Rightarrow> True | Inr (n, _) \<Rightarrow> notice_ok n)"

lemma level_of_not_none: "level_of s = Some l \<Longrightarrow> l \<noteq> LevelNone"
  by (auto simp: level_of_def Let_def split: if_splits)

lemma validate_banner_ok: "validate_banner root = Inr n \<Longrightarrow> notice_ok n"
  by (auto simp: validate_banner_def notice_ok_def Let_def level_of_not_none split: if_splits option.splits)

lemma loadFile_banner_ok: "banner_load_ok (loadFile_banner toml stat raw)"
  by (auto simp: loadFile_banner_def banner_load_ok_def validate_banner_ok
      split: stat_result.split option.split sum.split)

definition banner_inv :: "BannerSource \<Rightarrow> bool" where
  "banner_inv s \<longleftrightarrow> notice_ok (bs_notice s) \<and> hub_inv (bs_hub s)"

fun banner_op_ok :: "banner_op \<Rightarrow> bool" where
  "banner_op_ok (BChanged mt load) = banner_load_ok load"
| "banner_op_ok _ = True"

lemma notice_ok_zero [simp]: "notice_ok zero_Notice"
  by (simp add: notice_ok_def)

lemma NewBanner_inv: "banner_load_ok load \<Longrightarrow> banner_inv (NewBanner interval load)"
  by (auto simp: NewBanner_def banner_inv_def banner_load_ok_def hub_inv_new Let_def split: sum.splits)

text \<open>The source is a publisher of pokes itself.\<close>

lemma notify_banner_ok:
  "banner_inv s \<Longrightarrow> \<exists>s'. notify_banner s = Some s' \<and> banner_inv s' \<and> subs (bs_hub s') = subs (bs_hub s)
     \<and> (\<forall>c \<in> subs (bs_hub s). chan_pending (bs_hub s') c) \<and> bs_notice s' = bs_notice s \<and> bs_mtime s' = bs_mtime s"
  using hub_notify_ok [of "bs_hub s"] by (auto simp: banner_inv_def notify_banner_def)

interpretation banner_hub: poke_hub banner_inv "\<lambda>s. subs (bs_hub s)" "\<lambda>s. chan_pending (bs_hub s)"
  Subscribe_banner Unsubscribe_banner notify_banner "\<lambda>s c. s\<lparr>bs_hub := hub_recv (bs_hub s) c\<rparr>"
proof unfold_locales
  fix s :: BannerSource and c
  assume inv: "banner_inv s"
  then have h: "hub_inv (bs_hub s)" by (simp add: banner_inv_def)
  show "banner_inv (snd (Subscribe_banner s))"
    using inv hub_inv_Subscribe [OF h] by (simp add: banner_inv_def Subscribe_banner_def split_def Let_def)
  show "fst (Subscribe_banner s) \<notin> subs (bs_hub s)"
    "subs (bs_hub (snd (Subscribe_banner s))) = insert (fst (Subscribe_banner s)) (subs (bs_hub s))"
    using hub_Subscribe_fresh [OF h] by (simp_all add: Subscribe_banner_def split_def Let_def hub_Subscribe_members)
  show "\<exists>s'. Unsubscribe_banner s c = Some s' \<and> banner_inv s' \<and> subs (bs_hub s') = subs (bs_hub s) - {c}"
    using inv hub_Unsubscribe_ok [OF h, of c] by (auto simp: banner_inv_def Unsubscribe_banner_def)
  show "\<exists>s'. notify_banner s = Some s' \<and> banner_inv s' \<and> subs (bs_hub s') = subs (bs_hub s)
     \<and> (\<forall>c \<in> subs (bs_hub s). chan_pending (bs_hub s') c)"
    using notify_banner_ok [OF inv] by blast
  show "banner_inv (s\<lparr>bs_hub := hub_recv (bs_hub s) c\<rparr>) \<and> subs (bs_hub (s\<lparr>bs_hub := hub_recv (bs_hub s) c\<rparr>)) = subs (bs_hub s)"
    using inv hub_recv_ok [OF h, of c] by (simp add: banner_inv_def)
qed

lemma section_invs:
  "banner_inv s \<Longrightarrow> banner_inv (fst (removed_section s))"
  "banner_inv s \<Longrightarrow> banner_load_ok load \<Longrightarrow> banner_inv (fst (changed_section s mt load))"
  by (auto simp: removed_section_def changed_section_def banner_inv_def banner_load_ok_def split: sum.split)

lemma Close_banner_ok: "banner_inv s \<Longrightarrow> \<exists>s'. Close_banner s = Some s' \<and> banner_inv s'"
  using hub_CloseAll_ok [of "bs_hub s"] by (auto simp: banner_inv_def Close_banner_def)

lemma banner_exec_inv:
  assumes "banner_inv s" "banner_op_ok e"
  shows "\<exists>s'. banner_exec s e = Some s' \<and> banner_inv s'"
proof (cases e)
  case BNotify
  then show ?thesis using notify_banner_ok [OF assms(1)] by auto
next
  case (BUnsubscribe c)
  then show ?thesis using banner_hub.unsubscribe_ok [OF assms(1), of c] by auto
next
  case BClose
  then show ?thesis using Close_banner_ok [OF assms(1)] by auto
qed (use assms in \<open>simp_all add: section_invs banner_hub.subscribe_good banner_hub.receive_ok\<close>,
    simp_all add: banner_inv_def ReloadNow_def Start_banner_def)

inductive banner_step :: "BannerSource \<Rightarrow> BannerSource \<Rightarrow> bool" where
  banner_step: "banner_op_ok e \<Longrightarrow> banner_exec s e = Some s' \<Longrightarrow> banner_step s s'"

inductive_cases banner_stepE: "banner_step s s'"

definition banner_init :: "BannerSource \<Rightarrow> bool" where
  "banner_init s \<longleftrightarrow> (\<exists>interval toml stat raw. s = NewBanner interval (loadFile_banner toml stat raw))"

interpretation bannerm: machine banner_init banner_step banner_inv
proof unfold_locales
  show "banner_init s \<Longrightarrow> banner_inv s" for s
    using NewBanner_inv loadFile_banner_ok by (auto simp: banner_init_def)
  show "banner_inv s \<Longrightarrow> banner_step s s' \<Longrightarrow> banner_inv s'" for s s'
    by (erule banner_stepE) (use banner_exec_inv in fastforce)
qed

section \<open>Properties\<close>

text \<open>
  The notice follows the file. Whatever is read, the notice in force is a validated one. A
  missing file switches the notice off, a file that cannot be examined or that is rejected leaves
  the notice, an accepted one replaces it; and when the notice becomes a different one every
  subscriber is poked.
\<close>

theorem banner_reload_correct:
  assumes "banner_inv s" and "load = loadFile_banner toml stat' raw"
  shows "\<exists>s'. reloadIfChanged_banner s stat load = Some s' \<and> banner_inv s'
    \<and> bs_notice s' =
        (case stat of
           Missing \<Rightarrow> zero_Notice
         | StatFailed \<Rightarrow> bs_notice s
         | Modified mt \<Rightarrow>
             (if bs_mtime s = Some mt then bs_notice s
              else case load of Inl _ \<Rightarrow> bs_notice s | Inr (n, _) \<Rightarrow> n))
    \<and> subs (bs_hub s') = subs (bs_hub s)
    \<and> (bs_notice s' \<noteq> bs_notice s \<longrightarrow> (\<forall>c \<in> subs (bs_hub s'). chan_pending (bs_hub s') c))"
proof -
  have ok: "banner_load_ok load" using assms(2) loadFile_banner_ok by simp
  let ?fin = "\<lambda>(u, changed). if changed then notify_banner u else Some u"
  have fin: "\<exists>s'. ?fin (u, ch) = Some s' \<and> banner_inv s' \<and> bs_notice s' = bs_notice u
      \<and> subs (bs_hub s') = subs (bs_hub u) \<and> (ch \<longrightarrow> (\<forall>c \<in> subs (bs_hub s'). chan_pending (bs_hub s') c))"
    if "banner_inv u" for u ch
    using that notify_banner_ok [OF that] by (cases ch) auto
  have rem: "banner_inv (fst (removed_section s))" "subs (bs_hub (fst (removed_section s))) = subs (bs_hub s)"
    "bs_notice (fst (removed_section s)) = zero_Notice"
    "zero_Notice \<noteq> bs_notice s \<Longrightarrow> snd (removed_section s)"
    using assms(1) by (auto simp: removed_section_def banner_inv_def)
  have chg: "banner_inv (fst (changed_section s mt load))" "subs (bs_hub (fst (changed_section s mt load))) = subs (bs_hub s)"
    "bs_notice (fst (changed_section s mt load)) = (case load of Inl _ \<Rightarrow> bs_notice s | Inr (n, _) \<Rightarrow> n)"
    "bs_notice (fst (changed_section s mt load)) \<noteq> bs_notice s \<Longrightarrow> snd (changed_section s mt load)" for mt
    using assms(1) ok by (auto simp: changed_section_def banner_inv_def banner_load_ok_def split: sum.splits)
  show ?thesis
  proof (cases stat)
    case Missing
    then show ?thesis using fin [OF rem(1), of "snd (removed_section s)"] rem
      by (auto simp: reloadIfChanged_banner_def Let_def split_def)
  next
    case (Modified mt)
    then show ?thesis using assms(1) fin [OF chg(1), of mt "snd (changed_section s mt load)"] chg [of mt]
      by (cases "bs_mtime s = Some mt") (auto simp: reloadIfChanged_banner_def Let_def split_def)
  qed (use assms(1) in \<open>simp add: reloadIfChanged_banner_def\<close>)
qed

theorem banner_reload_correct_witness:
  "\<exists>s'. reloadIfChanged_banner (NewBanner 0 (Inl BannerRead)) Missing (loadFile_banner (\<lambda>_. None) Missing None) = Some s'
     \<and> bs_notice s' = zero_Notice"
proof -
  have "banner_inv (NewBanner 0 (Inl BannerRead))" by (rule NewBanner_inv) (simp add: banner_load_ok_def)
  from banner_reload_correct [OF this refl, of Missing "\<lambda>_. None" Missing None] show ?thesis by auto
qed

text \<open>
  What validation accepts: a disabled file always, whatever else it holds, giving the empty
  notice; an enabled one exactly when its level, folded and trimmed, is one of the three or empty,
  there is a title or a message after trimming, and neither exceeds its limit in bytes. The notice
  carries the trimmed texts.
\<close>

theorem validate_banner_iff:
  "validate_banner root = Inr n \<longleftrightarrow>
     (if \<not> b_Enabled root then n = zero_Notice
      else \<exists>l. level_of (b_Level root) = Some l
        \<and> TrimSpace (b_Title root) @ TrimSpace (b_Message root) \<noteq> []
        \<and> length (TrimSpace (b_Title root)) \<le> 48 \<and> length (TrimSpace (b_Message root)) \<le> 240
        \<and> n = \<lparr>n_Enabled = True, n_Level = l, n_Title = TrimSpace (b_Title root),
               n_Message = TrimSpace (b_Message root)\<rparr>)"
  by (auto simp: validate_banner_def Let_def maxTitleLen_def maxMessageLen_def split: option.split)

end
