(* ===== verification/Lobby.thy ===== *)
theory Lobby
  imports Registry Banner
begin

text \<open>
  \<^verbatim>\<open>internal/lobby/lobby.go\<close> and \<^verbatim>\<open>hitbox.go\<close>: the arcade menu as a Bubble Tea model. One call of \<open>Update\<close>
  is a function of the message, the model and what the calls it makes return: two readings of the
  clock, up to two registry snapshots (the registry may change between them) and the notice. The
  preferences are a state of any type with the two operations of the \<^verbatim>\<open>AlphaPrefs\<close> interface, whose
  contract is the locale \<open>alpha_prefs\<close>. Times are nanoseconds since 1970.

  Shown: the cursor always names a listed game; the program ends with a game exactly when that game
  was playable in the snapshot last taken; an alpha game is never started without an
  acknowledgement or its dialogue; a dialogue that was told not to come back does not.
\<close>

section \<open>Hitboxes\<close>

record Box =
  bx_X :: int
  bx_Y :: int
  bx_W :: int
  bx_H :: int
  bx_ID :: string
  bx_Data :: "int option"

definition box_contains :: "Box \<Rightarrow> int \<Rightarrow> int \<Rightarrow> bool" where
  "box_contains b x y \<longleftrightarrow> bx_X b \<le> x \<and> x < bx_X b + bx_W b \<and> bx_Y b \<le> y \<and> y < bx_Y b + bx_H b"

type_synonym Hitboxes = "Box list"

definition hits_Reset :: "Hitboxes \<Rightarrow> Hitboxes" where
  "hits_Reset h = []"

definition hits_Add :: "Hitboxes \<Rightarrow> Box \<Rightarrow> Hitboxes" where
  "hits_Add h b = h @ [b]"

text \<open>\<^verbatim>\<open>At\<close> searches from the box added last.\<close>

fun find_box :: "Box list \<Rightarrow> int \<Rightarrow> int \<Rightarrow> Box option" where
  "find_box [] x y = None"
| "find_box (b # bs) x y = (if box_contains b x y then Some b else find_box bs x y)"

definition hits_At :: "Hitboxes \<Rightarrow> int \<Rightarrow> int \<Rightarrow> Box option" where
  "hits_At h x y = find_box (rev h) x y"

section \<open>Model\<close>

datatype Result = KindNone | KindPlay Game | KindQuit | KindIdle

text \<open>\<^verbatim>\<open>now.Sub(t)\<close> saturates at the range of a duration.\<close>

definition Sub :: "int \<Rightarrow> int \<Rightarrow> int" where
  "Sub now t = max (- (2 ^ 63)) (min (2 ^ 63 - 1) (now - t))"

definition zero_time :: int where
  "zero_time = - 62135596800000000000"

definition doubleClickWindow :: int where
  "doubleClickWindow = 400000000"

definition flashDuration :: int where
  "flashDuration = 3000000000"

record 'p LobbyModel =
  m_guest :: bool
  m_fingerprint :: string
  m_prefs :: "'p option"
  m_poke :: bool
  m_bannerPoke :: bool
  m_hasBanner :: bool
  m_games :: "GameStatus list"
  m_notice :: Notice
  m_cursor :: int
  m_width :: int
  m_height :: int
  m_aboutOpen :: bool
  m_alphaOpen :: bool
  m_alphaGame :: "GameStatus option"
  m_alphaDontShow :: bool
  m_blink :: bool
  m_flash :: string
  m_flashUntil :: int
  m_idleTimeout :: int
  m_lastInput :: int
  m_lastClickID :: string
  m_lastClickAt :: int
  m_hits :: Hitboxes
  m_result :: Result

text \<open>What the calls out of one \<open>Update\<close> return, in the order they are made.\<close>

record env =
  e_now :: int
  e_now2 :: int
  e_games :: "GameStatus list"
  e_games2 :: "GameStatus list"
  e_notice :: Notice

datatype mouse_button = MouseLeft | MouseWheelUp | MouseWheelDown | MouseOther

datatype msg =
    WindowSizeMsg int int
  | PokeMsg
  | TickMsg
  | KeyPressMsg string
  | MouseClickMsg mouse_button int int
  | MouseWheelMsg mouse_button
  | OtherMsg

text \<open>
  The command \<open>Update\<close> returns: nothing, quit, the next tick, or one wait for each subscription
  channel there is.
\<close>

datatype cmd = NoCmd | Quit | TickCmd | PokeCmds bool bool

text \<open>UTF-8 text of the program beyond ASCII.\<close>

definition emdash :: string where
  "emdash = encode_rune 0x2014"

definition ellipsis :: string where
  "ellipsis = encode_rune 0x2026"

fun admission_text :: "admission_error \<Rightarrow> string" where
  "admission_text ErrKeyRequired = ''KEY REQUIRED '' @ emdash @ '' generate a keypair to play''"
| "admission_text ErrUnavailable = ''GAME OFFLINE '' @ emdash @ '' TRY LATER''"
| "admission_text ErrRemoved = ''GAME NO LONGER AVAILABLE''"

definition setFlash :: "int \<Rightarrow> string \<Rightarrow> 'p LobbyModel \<Rightarrow> 'p LobbyModel" where
  "setFlash now text m = m\<lparr>m_flash := text, m_flashUntil := now + flashDuration\<rparr>"

definition refreshGames :: "GameStatus list \<Rightarrow> 'p LobbyModel \<Rightarrow> 'p LobbyModel" where
  "refreshGames games m =
     (let c = (if int (length games) \<le> m_cursor m then int (length games) - 1 else m_cursor m)
      in m\<lparr>m_games := games, m_cursor := (if c < 0 then 0 else c)\<rparr>)"

definition refreshBanner :: "Notice \<Rightarrow> 'p LobbyModel \<Rightarrow> 'p LobbyModel" where
  "refreshBanner notice m = m\<lparr>m_notice := (if m_hasBanner m then notice else zero_Notice)\<rparr>"

text \<open>
  The options of \<^verbatim>\<open>New\<close>, with what the model's clock shows when they run as arguments: guest mode, a
  flash notice, and another clock, which starts the idle time and a notice anew.
\<close>

type_synonym 'p Option = "'p LobbyModel \<Rightarrow> 'p LobbyModel"

definition WithGuest :: "'p Option" where
  "WithGuest m = m\<lparr>m_guest := True\<rparr>"

definition WithFlash :: "int \<Rightarrow> string \<Rightarrow> 'p Option" where
  "WithFlash now text m = (if text = [] then m else m\<lparr>m_flash := text, m_flashUntil := now + flashDuration\<rparr>)"

definition WithClock :: "int \<Rightarrow> int \<Rightarrow> 'p Option" where
  "WithClock now now2 m =
     (let m1 = m\<lparr>m_lastInput := now\<rparr> in if m_flash m1 \<noteq> [] then m1\<lparr>m_flashUntil := now2 + flashDuration\<rparr> else m1)"

definition NewModel ::
    "env \<Rightarrow> bool \<Rightarrow> bool \<Rightarrow> bool \<Rightarrow> string \<Rightarrow> 'p option \<Rightarrow> int \<Rightarrow> int \<Rightarrow> int \<Rightarrow> 'p Option list \<Rightarrow> 'p LobbyModel" where
  "NewModel e hasBanner poke bannerPoke fingerprint prefs width height idleTimeout opts =
     (let m = \<lparr>m_guest = False, m_fingerprint = fingerprint, m_prefs = prefs, m_poke = poke,
               m_bannerPoke = bannerPoke, m_hasBanner = hasBanner, m_games = [], m_notice = zero_Notice,
               m_cursor = 0, m_width = width, m_height = height, m_aboutOpen = False, m_alphaOpen = False,
               m_alphaGame = None, m_alphaDontShow = False, m_blink = False, m_flash = [],
               m_flashUntil = zero_time, m_idleTimeout = idleTimeout, m_lastInput = e_now e,
               m_lastClickID = [], m_lastClickAt = zero_time, m_hits = [], m_result = KindNone\<rparr>;
          m1 = refreshBanner (e_notice e) (refreshGames (e_games e) m)
      in fold (\<lambda>opt. opt) opts m1)"

text \<open>
  The options the server passes, and the model it starts with. The clock is read once for the last
  input and once for the flash.
\<close>

definition lobby_options :: "int \<Rightarrow> string \<Rightarrow> bool \<Rightarrow> 'p Option list" where
  "lobby_options now flash guest = (if flash \<noteq> [] then [WithFlash now flash] else []) @ (if guest then [WithGuest] else [])"

definition NewLobby ::
    "env \<Rightarrow> bool \<Rightarrow> bool \<Rightarrow> bool \<Rightarrow> string \<Rightarrow> 'p option \<Rightarrow> int \<Rightarrow> int \<Rightarrow> int \<Rightarrow> string \<Rightarrow> bool \<Rightarrow> 'p LobbyModel" where
  "NewLobby e hasBanner poke bannerPoke fingerprint prefs width height idleTimeout flash guest =
     NewModel e hasBanner poke bannerPoke fingerprint prefs width height idleTimeout (lobby_options (e_now2 e) flash guest)"

definition Result_of :: "'p LobbyModel \<Rightarrow> Result" where
  "Result_of m = m_result m"

definition moveCursor :: "int \<Rightarrow> 'p LobbyModel \<Rightarrow> 'p LobbyModel" where
  "moveCursor delta m =
     (if m_games m = [] then m
      else
        (let c = m_cursor m + delta;
             c1 = (if c < 0 then 0 else c);
             c2 = (if int (length (m_games m)) \<le> c1 then int (length (m_games m)) - 1 else c1)
         in m\<lparr>m_cursor := c2\<rparr>))"

text \<open>\<^verbatim>\<open>launchGame\<close>: the last look at the registry before the program quits with the game.\<close>

definition launchGame :: "env \<Rightarrow> GameStatus list \<Rightarrow> Game \<Rightarrow> 'p LobbyModel \<Rightarrow> 'p LobbyModel \<times> cmd" where
  "launchGame e games g m =
     (case Playable games (g_ID g) (m_guest m) of
        Inl err \<Rightarrow> (setFlash (e_now2 e) (admission_text err) m, NoCmd)
      | Inr current \<Rightarrow> (m\<lparr>m_result := KindPlay (gs_Game current)\<rparr>, Quit))"

definition needsAlphaWarning :: "('p \<Rightarrow> string \<Rightarrow> bool) \<Rightarrow> GameStatus \<Rightarrow> 'p LobbyModel \<Rightarrow> bool" where
  "needsAlphaWarning has g m =
     (if \<not> g_AlphaWarning (gs_Game g) then False
      else case m_prefs m of None \<Rightarrow> True | Some p \<Rightarrow> \<not> has p (g_ID (gs_Game g)))"

definition activate :: "('p \<Rightarrow> string \<Rightarrow> bool) \<Rightarrow> env \<Rightarrow> 'p LobbyModel \<Rightarrow> 'p LobbyModel \<times> cmd" where
  "activate has e m =
     (if m_cursor m < 0 \<or> int (length (m_games m)) \<le> m_cursor m then (m, NoCmd)
      else
        (case Playable (e_games e) (g_ID (gs_Game (m_games m ! nat (m_cursor m)))) (m_guest m) of
           Inl err \<Rightarrow> (setFlash (e_now2 e) (admission_text err) m, NoCmd)
         | Inr g \<Rightarrow>
             if needsAlphaWarning has g m
             then (m\<lparr>m_alphaOpen := True, m_alphaGame := Some g, m_alphaDontShow := False\<rparr>, NoCmd)
             else launchGame e (e_games2 e) (gs_Game g) m))"

definition alpha_id :: "'p LobbyModel \<Rightarrow> string" where
  "alpha_id m = (case m_alphaGame m of None \<Rightarrow> [] | Some g \<Rightarrow> g_ID (gs_Game g))"

definition confirmAlpha :: "('p \<Rightarrow> string \<Rightarrow> 'p) \<Rightarrow> env \<Rightarrow> 'p LobbyModel \<Rightarrow> 'p LobbyModel \<times> cmd" where
  "confirmAlpha ack e m =
     (case Playable (e_games e) (alpha_id m) (m_guest m) of
        Inl err \<Rightarrow> (setFlash (e_now2 e) (admission_text err) (m\<lparr>m_alphaOpen := False\<rparr>), NoCmd)
      | Inr g \<Rightarrow>
          (let m1 = m\<lparr>m_alphaOpen := False\<rparr>;
               m2 = (if m_alphaDontShow m1
                     then m1\<lparr>m_prefs := map_option (\<lambda>p. ack p (g_ID (gs_Game g))) (m_prefs m1)\<rparr> else m1)
           in launchGame e (e_games2 e) (gs_Game g) m2))"

text \<open>
  \<^verbatim>\<open>handleKey\<close>; \<open>True\<close> in the third component means that \<^verbatim>\<open>ProbeNow\<close> was called.
\<close>

definition handleKey ::
    "('p \<Rightarrow> string \<Rightarrow> bool) \<Rightarrow> ('p \<Rightarrow> string \<Rightarrow> 'p) \<Rightarrow> env \<Rightarrow> string \<Rightarrow> 'p LobbyModel \<Rightarrow> 'p LobbyModel \<times> cmd \<times> bool" where
  "handleKey has ack e key m =
     (let plain = (\<lambda>m'. (m', NoCmd, False)); of_pair = (\<lambda>(m', c). (m', c, False)) in
      if key = ''ctrl+c'' then (m\<lparr>m_result := KindQuit\<rparr>, Quit, False)
      else if m_alphaOpen m then
        (if key = ''space'' \<or> key = '' '' then plain (m\<lparr>m_alphaDontShow := \<not> m_alphaDontShow m\<rparr>)
         else if key = ''enter'' then of_pair (confirmAlpha ack e m)
         else if key = ''esc'' \<or> key = ''backspace'' then plain (m\<lparr>m_alphaOpen := False\<rparr>)
         else plain m)
      else if m_aboutOpen m then plain (m\<lparr>m_aboutOpen := False\<rparr>)
      else if key = ''up'' \<or> key = ''k'' then plain (moveCursor (- 1) m)
      else if key = ''down'' \<or> key = ''j'' then plain (moveCursor 1 m)
      else if key = ''enter'' \<or> key = ''space'' \<or> key = '' '' then of_pair (activate has e m)
      else if key = ''r'' then (setFlash (e_now2 e) (''RE-CHECKING GAMES'' @ ellipsis) m, NoCmd, True)
      else if key = ''?'' then plain (m\<lparr>m_aboutOpen := True\<rparr>)
      else if key = ''q'' then (m\<lparr>m_result := KindQuit\<rparr>, Quit, False)
      else plain m)"

definition handleClick ::
    "('p \<Rightarrow> string \<Rightarrow> bool) \<Rightarrow> ('p \<Rightarrow> string \<Rightarrow> 'p) \<Rightarrow> env \<Rightarrow> mouse_button \<Rightarrow> int \<Rightarrow> int \<Rightarrow> 'p LobbyModel
     \<Rightarrow> 'p LobbyModel \<times> cmd" where
  "handleClick has ack e button x y m =
     (if button \<noteq> MouseLeft then (m, NoCmd)
      else if m_alphaOpen m then
        (case hits_At (m_hits m) x y of
           None \<Rightarrow> (m, NoCmd)
         | Some box \<Rightarrow>
             if bx_ID box = ''alpha:check'' then (m\<lparr>m_alphaDontShow := \<not> m_alphaDontShow m\<rparr>, NoCmd)
             else if bx_ID box = ''alpha:continue'' then confirmAlpha ack e m
             else (m, NoCmd))
      else if m_aboutOpen m then (m\<lparr>m_aboutOpen := False\<rparr>, NoCmd)
      else
        (case hits_At (m_hits m) x y of
           None \<Rightarrow> (m, NoCmd)
         | Some box \<Rightarrow>
             (case bx_Data box of
                None \<Rightarrow> (m, NoCmd)
              | Some idx \<Rightarrow>
                  if idx < 0 \<or> int (length (m_games m)) \<le> idx then (m, NoCmd)
                  else
                    (let now = e_now2 e;
                         isDouble = (bx_ID box = m_lastClickID m \<and> Sub now (m_lastClickAt m) \<le> doubleClickWindow);
                         m1 = m\<lparr>m_lastClickID := bx_ID box, m_lastClickAt := now\<rparr>
                     in if idx = m_cursor m1 \<or> isDouble then activate has e (m1\<lparr>m_cursor := idx\<rparr>)
                        else (m1\<lparr>m_cursor := idx\<rparr>, NoCmd)))))"

definition handleWheel :: "mouse_button \<Rightarrow> 'p LobbyModel \<Rightarrow> 'p LobbyModel" where
  "handleWheel button m =
     (if m_alphaOpen m \<or> m_aboutOpen m then m
      else case button of
          MouseWheelUp \<Rightarrow> moveCursor (- 1) m
        | MouseWheelDown \<Rightarrow> moveCursor 1 m
        | _ \<Rightarrow> m)"

definition handleTick :: "env \<Rightarrow> 'p LobbyModel \<Rightarrow> 'p LobbyModel \<times> cmd" where
  "handleTick e m =
     (let now = e_now e;
          m1 = m\<lparr>m_blink := \<not> m_blink m\<rparr>;
          m2 = (if m_flash m1 \<noteq> [] \<and> m_flashUntil m1 < now then m1\<lparr>m_flash := []\<rparr> else m1);
          m3 = refreshBanner (e_notice e) (refreshGames (e_games e) m2)
      in if 0 < m_idleTimeout m3 \<and> m_idleTimeout m3 \<le> Sub now (m_lastInput m3)
         then (m3\<lparr>m_result := KindIdle\<rparr>, Quit) else (m3, TickCmd))"

definition Update ::
    "('p \<Rightarrow> string \<Rightarrow> bool) \<Rightarrow> ('p \<Rightarrow> string \<Rightarrow> 'p) \<Rightarrow> env \<Rightarrow> msg \<Rightarrow> 'p LobbyModel \<Rightarrow> 'p LobbyModel \<times> cmd \<times> bool" where
  "Update has ack e msg m =
     (case msg of
        WindowSizeMsg w h \<Rightarrow> (m\<lparr>m_width := w, m_height := h\<rparr>, NoCmd, False)
      | PokeMsg \<Rightarrow> (refreshBanner (e_notice e) (refreshGames (e_games e) m), PokeCmds (m_poke m) (m_bannerPoke m), False)
      | TickMsg \<Rightarrow> (let (m', c) = handleTick e m in (m', c, False))
      | KeyPressMsg key \<Rightarrow> handleKey has ack e key (m\<lparr>m_lastInput := e_now e\<rparr>)
      | MouseClickMsg b x y \<Rightarrow>
          (let (m', c) = handleClick has ack e b x y (m\<lparr>m_lastInput := e_now e\<rparr>) in (m', c, False))
      | MouseWheelMsg b \<Rightarrow> (handleWheel b (m\<lparr>m_lastInput := e_now e\<rparr>), NoCmd, False)
      | OtherMsg \<Rightarrow> (m, NoCmd, False))"

section \<open>The cursor\<close>

definition lobby_inv :: "'p LobbyModel \<Rightarrow> bool" where
  "lobby_inv m \<longleftrightarrow> 0 \<le> m_cursor m \<and> m_cursor m < max 1 (int (length (m_games m)))"

text \<open>The start in one equation.\<close>

lemma NewLobby_eq:
  "NewLobby e hasBanner poke bannerPoke fingerprint prefs width height idleTimeout flash guest =
     (let m = \<lparr>m_guest = guest, m_fingerprint = fingerprint, m_prefs = prefs, m_poke = poke,
               m_bannerPoke = bannerPoke, m_hasBanner = hasBanner, m_games = [], m_notice = zero_Notice,
               m_cursor = 0, m_width = width, m_height = height, m_aboutOpen = False, m_alphaOpen = False,
               m_alphaGame = None, m_alphaDontShow = False, m_blink = False, m_flash = [],
               m_flashUntil = zero_time, m_idleTimeout = idleTimeout, m_lastInput = e_now e,
               m_lastClickID = [], m_lastClickAt = zero_time, m_hits = [], m_result = KindNone\<rparr>;
          m1 = refreshBanner (e_notice e) (refreshGames (e_games e) m)
      in if flash = [] then m1 else setFlash (e_now2 e) flash m1)"
  by (simp add: NewLobby_def NewModel_def lobby_options_def WithGuest_def WithFlash_def setFlash_def refreshBanner_def
      refreshGames_def Let_def)

text \<open>The order of a flash notice and a clock does not matter, as long as the notice is timed by that clock.\<close>

lemma WithClock_WithFlash:
  "m_flash m = [] \<Longrightarrow> WithClock now now2 (WithFlash t text m) = WithFlash now2 text (WithClock now now2 m)"
  by (simp add: WithClock_def WithFlash_def Let_def)

lemma refreshGames_inv: "lobby_inv (refreshGames games m)"
  by (auto simp: lobby_inv_def refreshGames_def Let_def)

lemma moveCursor_inv: "lobby_inv m \<Longrightarrow> lobby_inv (moveCursor d m)"
  by (cases "m_games m") (auto simp: lobby_inv_def moveCursor_def Let_def)

lemma lobby_inv_simps [simp]:
  "lobby_inv (refreshBanner n m) = lobby_inv m" "lobby_inv (setFlash now txt m) = lobby_inv m"
  "lobby_inv (m\<lparr>m_guest := g\<rparr>) = lobby_inv m" "lobby_inv (m\<lparr>m_result := r\<rparr>) = lobby_inv m"
  "lobby_inv (m\<lparr>m_alphaOpen := b\<rparr>) = lobby_inv m" "lobby_inv (m\<lparr>m_alphaGame := ag\<rparr>) = lobby_inv m"
  "lobby_inv (m\<lparr>m_alphaDontShow := b\<rparr>) = lobby_inv m" "lobby_inv (m\<lparr>m_aboutOpen := b\<rparr>) = lobby_inv m"
  "lobby_inv (m\<lparr>m_prefs := p\<rparr>) = lobby_inv m" "lobby_inv (m\<lparr>m_lastInput := t\<rparr>) = lobby_inv m"
  "lobby_inv (m\<lparr>m_width := w, m_height := h\<rparr>) = lobby_inv m" "lobby_inv (m\<lparr>m_hits := hs\<rparr>) = lobby_inv m"
  "lobby_inv (m\<lparr>m_lastClickID := i, m_lastClickAt := t\<rparr>) = lobby_inv m"
  by (simp_all add: lobby_inv_def refreshBanner_def setFlash_def)

lemma launchGame_inv: "lobby_inv m \<Longrightarrow> lobby_inv (fst (launchGame e games g m))"
  by (simp add: launchGame_def split: sum.split)

lemma activate_inv: "lobby_inv m \<Longrightarrow> lobby_inv (fst (activate has e m))"
  by (simp add: activate_def launchGame_inv split: sum.split)

lemma confirmAlpha_inv: "lobby_inv m \<Longrightarrow> lobby_inv (fst (confirmAlpha ack e m))"
  by (simp add: confirmAlpha_def launchGame_inv Let_def split: sum.split)

text \<open>
  What a key press or a click can amount to: leaving, confirming the dialogue that is open,
  activating a game when none is open, or a change that neither ends the program nor touches the
  preferences.
\<close>

definition timers :: "'p LobbyModel \<Rightarrow> int \<times> int" where
  "timers m = (m_lastInput m, m_idleTimeout m)"

definition input_outcome ::
    "('p \<Rightarrow> string \<Rightarrow> bool) \<Rightarrow> ('p \<Rightarrow> string \<Rightarrow> 'p) \<Rightarrow> env \<Rightarrow> 'p LobbyModel \<Rightarrow> 'p LobbyModel \<times> cmd \<Rightarrow> bool" where
  "input_outcome has ack e m r \<longleftrightarrow>
     r = (m\<lparr>m_result := KindQuit\<rparr>, Quit)
     \<or> (m_alphaOpen m \<and> r = confirmAlpha ack e m)
     \<or> (\<not> m_alphaOpen m \<and> (\<exists>m'. r = activate has e m' \<and> m_result m' = m_result m \<and> m_guest m' = m_guest m
            \<and> m_prefs m' = m_prefs m \<and> m_alphaOpen m' = m_alphaOpen m \<and> timers m' = timers m \<and> (lobby_inv m \<longrightarrow> lobby_inv m')))
     \<or> (\<exists>m'. r = (m', NoCmd) \<and> m_result m' = m_result m \<and> m_prefs m' = m_prefs m
            \<and> timers m' = timers m \<and> (lobby_inv m \<longrightarrow> lobby_inv m'))"

lemma input_quiet:
  "m_result m' = m_result m \<Longrightarrow> m_prefs m' = m_prefs m \<Longrightarrow> timers m' = timers m \<Longrightarrow> (lobby_inv m \<Longrightarrow> lobby_inv m') \<Longrightarrow>
   input_outcome has ack e m (m', NoCmd)"
  by (auto simp: input_outcome_def)

lemma input_quit: "input_outcome has ack e m (m\<lparr>m_result := KindQuit\<rparr>, Quit)"
  by (simp add: input_outcome_def)

lemma input_confirm: "m_alphaOpen m \<Longrightarrow> input_outcome has ack e m (confirmAlpha ack e m)"
  by (simp add: input_outcome_def)

lemma input_activate: "\<not> m_alphaOpen m \<Longrightarrow> input_outcome has ack e m (activate has e m)"
  by (auto simp: input_outcome_def)

lemma moveCursor_simps [simp]: "m_result (moveCursor d m) = m_result m" "m_prefs (moveCursor d m) = m_prefs m"
  by (simp_all add: moveCursor_def Let_def)

lemma setFlash_simps [simp]:
  "m_result (setFlash now t m) = m_result m" "m_guest (setFlash now t m) = m_guest m"
  "m_prefs (setFlash now t m) = m_prefs m" "m_alphaOpen (setFlash now t m) = m_alphaOpen m"
  by (simp_all add: setFlash_def)

lemma timers_simps [simp]:
  "timers (moveCursor d m) = timers m" "timers (setFlash now t m) = timers m"
  "timers (m\<lparr>m_alphaDontShow := b\<rparr>) = timers m" "timers (m\<lparr>m_alphaOpen := b\<rparr>) = timers m"
  "timers (m\<lparr>m_aboutOpen := b\<rparr>) = timers m" "timers (m\<lparr>m_result := r\<rparr>) = timers m"
  "timers (m\<lparr>m_prefs := pr\<rparr>) = timers m" "timers (m\<lparr>m_alphaGame := ag\<rparr>) = timers m"
  by (simp_all add: timers_def moveCursor_def setFlash_def Let_def)

lemmas input_intros = input_quiet input_quit input_confirm input_activate

lemma handleKey_outcome:
  "input_outcome has ack e m (fst (handleKey has ack e key m), fst (snd (handleKey has ack e key m)))"
  unfolding handleKey_def Let_def split_def
  by (simp add: input_intros moveCursor_inv split: if_split)

lemma handleClick_outcome: "input_outcome has ack e m (handleClick has ack e b x y m)"
proof (cases "b = MouseLeft \<and> \<not> m_alphaOpen m \<and> \<not> m_aboutOpen m
    \<and> (\<exists>box idx. hits_At (m_hits m) x y = Some box \<and> bx_Data box = Some idx \<and> 0 \<le> idx \<and> idx < int (length (m_games m)))")
  case True
  then obtain box idx where box: "hits_At (m_hits m) x y = Some box" "bx_Data box = Some idx" "0 \<le> idx"
    "idx < int (length (m_games m))" and st: "b = MouseLeft" "\<not> m_alphaOpen m" "\<not> m_aboutOpen m" by blast
  define m1 where "m1 = m\<lparr>m_lastClickID := bx_ID box, m_lastClickAt := e_now2 e, m_cursor := idx\<rparr>"
  have m1: "m_result m1 = m_result m" "m_guest m1 = m_guest m" "m_prefs m1 = m_prefs m"
    "m_alphaOpen m1 = m_alphaOpen m" "timers m1 = timers m" "lobby_inv m1"
    using box by (simp_all add: m1_def lobby_inv_def timers_def)
  have "handleClick has ack e b x y m = activate has e m1 \<or> handleClick has ack e b x y m = (m1, NoCmd)"
    using box st unfolding handleClick_def by (simp add: Let_def m1_def)
  then show ?thesis using m1 st(2) unfolding input_outcome_def by metis
next
  case False
  then have "idx < 0 \<or> int (length (m_games m)) \<le> idx"
    if "b = MouseLeft" "\<not> m_alphaOpen m" "\<not> m_aboutOpen m" "hits_At (m_hits m) x y = Some box" "bx_Data box = Some idx"
    for box idx using that by force
  then show ?thesis unfolding handleClick_def
    by (simp add: input_intros split: option.split)
qed

lemma input_outcome_inv: "input_outcome has ack e m r \<Longrightarrow> lobby_inv m \<Longrightarrow> lobby_inv (fst r)"
  by (auto simp: input_outcome_def activate_inv confirmAlpha_inv)

lemma handleKey_inv: "lobby_inv m \<Longrightarrow> lobby_inv (fst (handleKey has ack e key m))"
  using input_outcome_inv [OF handleKey_outcome] by fastforce

lemma handleClick_inv: "lobby_inv m \<Longrightarrow> lobby_inv (fst (handleClick has ack e b x y m))"
  using input_outcome_inv [OF handleClick_outcome] .

lemma handleTick_inv: "lobby_inv (fst (handleTick e m))"
  by (simp add: handleTick_def Let_def refreshGames_inv)

lemma handleWheel_inv: "lobby_inv m \<Longrightarrow> lobby_inv (handleWheel b m)"
  by (simp add: handleWheel_def moveCursor_inv split: mouse_button.split)

lemma Update_inv: "lobby_inv m \<Longrightarrow> lobby_inv (fst (Update has ack e msg m))"
  by (cases msg) (simp_all add: Update_def split_def Let_def refreshGames_inv handleKey_inv handleClick_inv
      handleTick_inv handleWheel_inv)

text \<open>
  One lobby program: it starts as \<open>New\<close> makes it, messages update it and a view pass rebuilds the
  hitboxes of the model.
\<close>

inductive lobby_init :: "'p LobbyModel \<Rightarrow> bool" where
  "lobby_init (NewLobby e hasBanner poke bannerPoke fp prefs width height idle flash guest)"

inductive lobby_step :: "('p \<Rightarrow> string \<Rightarrow> bool) \<Rightarrow> ('p \<Rightarrow> string \<Rightarrow> 'p) \<Rightarrow> 'p LobbyModel \<Rightarrow> 'p LobbyModel \<Rightarrow> bool"
  for has ack where
  step_update: "m_result m = KindNone \<Longrightarrow> lobby_step has ack m (fst (Update has ack e msg m))"
| step_view: "lobby_step has ack m (m\<lparr>m_hits := hs\<rparr>)"

inductive_cases lobby_initE: "lobby_init m"
inductive_cases lobby_stepE: "lobby_step has ack m m'"

lemma lobby_init_inv: "lobby_init m \<Longrightarrow> lobby_inv m"
  by (erule lobby_initE) (simp add: NewLobby_eq Let_def refreshGames_inv)

lemma lobby_step_inv: "lobby_inv m \<Longrightarrow> lobby_step has ack m m' \<Longrightarrow> lobby_inv m'"
  by (erule lobby_stepE) (simp_all add: Update_inv)

interpretation lobby: machine lobby_init "lobby_step has ack" lobby_inv for has ack
  by unfold_locales (fact lobby_init_inv, fact lobby_step_inv)

section \<open>Ending with a game\<close>

text \<open>What an operation does to the result of a running program.\<close>

definition outcome_ok :: "env \<Rightarrow> bool \<Rightarrow> 'p LobbyModel \<times> cmd \<Rightarrow> bool" where
  "outcome_ok e guest p \<longleftrightarrow>
     (snd p = Quit \<longleftrightarrow> m_result (fst p) \<noteq> KindNone)
     \<and> (\<forall>g. m_result (fst p) = KindPlay g \<longrightarrow>
          (\<exists>st. Playable (e_games2 e) (g_ID g) guest = Inr st \<and> gs_Game st = g))"

lemma outcome_ok_same: "m_result m = KindNone \<Longrightarrow> c \<noteq> Quit \<Longrightarrow> outcome_ok e guest (m, c)"
  by (simp add: outcome_ok_def)

lemma result_simps [simp]:
  "m_result (refreshGames gs m) = m_result m" "m_result (refreshBanner n m) = m_result m"
  "m_result (handleWheel b m) = m_result m" "m_prefs (refreshGames gs m) = m_prefs m"
  "m_prefs (refreshBanner n m) = m_prefs m" "m_prefs (handleWheel b m) = m_prefs m"
  by (simp_all add: refreshGames_def refreshBanner_def handleWheel_def Let_def split: mouse_button.split)

lemma launchGame_ok:
  assumes "m_result m = KindNone" "games = e_games2 e"
  shows "outcome_ok e (m_guest m) (launchGame e games g m)"
proof (cases "Playable games (g_ID g) (m_guest m)")
  case (Inr st)
  then have "g_ID (gs_Game st) = g_ID g" using Playable_Inr by fastforce
  with Inr assms show ?thesis by (auto simp: launchGame_def outcome_ok_def)
qed (use assms in \<open>simp add: launchGame_def outcome_ok_def\<close>)

lemma activate_ok: "m_result m = KindNone \<Longrightarrow> outcome_ok e (m_guest m) (activate has e m)"
  using launchGame_ok [of m "e_games2 e" e] by (simp add: activate_def outcome_ok_same split: sum.split)

lemma confirmAlpha_ok:
  assumes "m_result m = KindNone"
  shows "outcome_ok e (m_guest m) (confirmAlpha ack e m)"
  using assms launchGame_ok [of "m\<lparr>m_alphaOpen := False\<rparr>" "e_games2 e" e]
    launchGame_ok [of "m\<lparr>m_alphaOpen := False, m_prefs := pr\<rparr>" "e_games2 e" e for pr]
  by (simp add: confirmAlpha_def outcome_ok_same Let_def split: sum.split)

lemma input_outcome_ok:
  assumes "input_outcome has ack e m r" "m_result m = KindNone"
  shows "outcome_ok e (m_guest m) r"
  using assms(1) unfolding input_outcome_def
proof (elim disjE exE conjE)
  fix m' assume "r = activate has e m'" "m_result m' = m_result m" "m_guest m' = m_guest m"
  then show ?thesis using activate_ok [of m' e has] assms(2) by simp
qed (use assms(2) confirmAlpha_ok [OF assms(2), of e ack] in \<open>auto simp: outcome_ok_same outcome_ok_def\<close>)

text \<open>The messages that only show something: they never end the program with a game.\<close>

lemma Update_input:
  assumes "Update has ack e msg m = (m', c, p)"
  shows "input_outcome has ack e (m\<lparr>m_lastInput := e_now e\<rparr>) (m', c)
    \<or> (m_result m' = m_result m \<and> c \<noteq> Quit \<and> m_prefs m' = m_prefs m)
    \<or> (m_result m' = KindIdle \<and> c = Quit \<and> m_prefs m' = m_prefs m)"
proof (cases msg)
  case (KeyPressMsg key)
  then show ?thesis
    using assms handleKey_outcome [of has ack e "m\<lparr>m_lastInput := e_now e\<rparr>" key] by (simp add: Update_def)
next
  case (MouseClickMsg b x y)
  then show ?thesis
    using assms handleClick_outcome [of has ack e "m\<lparr>m_lastInput := e_now e\<rparr>" b x y]
    by (simp add: Update_def split_def Let_def) (metis prod.collapse)
next
  case TickMsg
  then show ?thesis using assms
    by (auto simp: Update_def handleTick_def split_def Let_def split: if_splits)
qed (use assms in \<open>auto simp: Update_def\<close>)

lemma Update_ok:
  assumes "m_result m = KindNone" "Update has ack e msg m = (m', c, p)"
  shows "outcome_ok e (m_guest m) (m', c)"
  using Update_input [OF assms(2)] input_outcome_ok [of has ack e "m\<lparr>m_lastInput := e_now e\<rparr>" "(m', c)"] assms(1)
  by (auto simp: outcome_ok_def)

section \<open>Alpha warnings\<close>

text \<open>Why a game may start in one update, seen from the model before it.\<close>

definition alpha_cleared :: "('p \<Rightarrow> string \<Rightarrow> bool) \<Rightarrow> env \<Rightarrow> 'p LobbyModel \<Rightarrow> string \<Rightarrow> bool" where
  "alpha_cleared has e m i \<longleftrightarrow>
     (m_alphaOpen m \<and> alpha_id m = i)
     \<or> (\<exists>st. Playable (e_games e) i (m_guest m) = Inr st
           \<and> (g_AlphaWarning (gs_Game st) \<longrightarrow> (\<exists>p. m_prefs m = Some p \<and> has p i)))"

lemma launchGame_id:
  "m_result m = KindNone \<Longrightarrow> m_result (fst (launchGame e games g m)) = KindPlay g' \<Longrightarrow> g_ID g' = g_ID g"
  using Playable_Inr [of games "g_ID g" "m_guest m"] by (auto simp: launchGame_def split: sum.splits)

lemma activate_cleared:
  assumes "m_result m = KindNone" "m_result (fst (activate has e m)) = KindPlay g"
  shows "alpha_cleared has e m (g_ID g)"
proof -
  let ?i = "g_ID (gs_Game (m_games m ! nat (m_cursor m)))"
  obtain st where st: "Playable (e_games e) ?i (m_guest m) = Inr st" "\<not> needsAlphaWarning has st m"
    and la: "m_result (fst (launchGame e (e_games2 e) (gs_Game st) m)) = KindPlay g"
    using assms by (auto simp: activate_def split: sum.splits if_splits)
  have "g_ID (gs_Game st) = ?i" using Playable_Inr [OF st(1)] by simp
  moreover have "g_ID g = g_ID (gs_Game st)" using launchGame_id [OF assms(1) la] .
  ultimately show ?thesis using st
    by (auto simp: alpha_cleared_def needsAlphaWarning_def split: if_splits option.splits)
qed

lemma confirmAlpha_cleared:
  assumes "m_result m = KindNone" "m_alphaOpen m" "m_result (fst (confirmAlpha ack e m)) = KindPlay g"
  shows "alpha_cleared has e m (g_ID g)"
proof -
  define m2 where "m2 = (\<lambda>st :: GameStatus. if m_alphaDontShow m
      then m\<lparr>m_alphaOpen := False, m_prefs := map_option (\<lambda>p. ack p (g_ID (gs_Game st))) (m_prefs m)\<rparr>
      else m\<lparr>m_alphaOpen := False\<rparr>)"
  have r: "m_result (m2 st) = KindNone" for st using assms(1) by (simp add: m2_def)
  obtain st where st: "Playable (e_games e) (alpha_id m) (m_guest m) = Inr st"
    and la: "m_result (fst (launchGame e (e_games2 e) (gs_Game st) (m2 st))) = KindPlay g"
    using assms by (auto simp: confirmAlpha_def Let_def m2_def split: sum.splits if_splits)
  have "g_ID g = alpha_id m" using Playable_Inr [OF st] launchGame_id [OF r la] by simp
  then show ?thesis using assms(2) by (simp add: alpha_cleared_def)
qed

lemma input_outcome_cleared:
  assumes "input_outcome has ack e m r" "m_result m = KindNone" "m_result (fst r) = KindPlay g"
  shows "alpha_cleared has e m (g_ID g)"
  using assms(1) unfolding input_outcome_def
proof (elim disjE exE conjE)
  assume "m_alphaOpen m" "r = confirmAlpha ack e m"
  then show ?thesis using confirmAlpha_cleared assms(2,3) by blast
next
  fix m' assume m': "r = activate has e m'" "m_result m' = m_result m" "m_guest m' = m_guest m"
    "m_prefs m' = m_prefs m" "m_alphaOpen m' = m_alphaOpen m" "\<not> m_alphaOpen m"
  then have "alpha_cleared has e m' (g_ID g)" using activate_cleared [of m' has e g] assms by simp
  then show ?thesis using m' by (simp add: alpha_cleared_def)
qed (use assms in auto)

lemma launchGame_prefs [simp]: "m_prefs (fst (launchGame e games g m)) = m_prefs m"
  by (simp add: launchGame_def split: sum.split)

lemma activate_prefs [simp]: "m_prefs (fst (activate has e m)) = m_prefs m"
  by (simp add: activate_def split: sum.split)

lemma launchGame_timers [simp]: "timers (fst (launchGame e games g m)) = timers m"
  by (simp add: launchGame_def split: sum.split)

lemma activate_timers [simp]: "timers (fst (activate has e m)) = timers m"
  by (simp add: activate_def split: sum.split)

lemma confirmAlpha_timers [simp]: "timers (fst (confirmAlpha ack e m)) = timers m"
  by (simp add: confirmAlpha_def Let_def split: sum.split)

lemma input_outcome_timers: "input_outcome has ack e m r \<Longrightarrow> timers (fst r) = timers m"
  by (auto simp: input_outcome_def)

lemma confirmAlpha_prefs:
  "m_prefs (fst (confirmAlpha ack e m)) =
     (case Playable (e_games e) (alpha_id m) (m_guest m) of
        Inl _ \<Rightarrow> m_prefs m
      | Inr _ \<Rightarrow> if m_alphaDontShow m then map_option (\<lambda>p. ack p (alpha_id m)) (m_prefs m) else m_prefs m)"
proof (cases "Playable (e_games e) (alpha_id m) (m_guest m)")
  case (Inr st)
  then have "g_ID (gs_Game st) = alpha_id m" using Playable_Inr by blast
  with Inr show ?thesis by (simp add: confirmAlpha_def Let_def)
qed (simp add: confirmAlpha_def)

lemma input_outcome_prefs:
  "input_outcome has ack e m r \<Longrightarrow>
   m_prefs (fst r) = m_prefs m \<or> m_prefs (fst r) = map_option (\<lambda>p. ack p (alpha_id m)) (m_prefs m)"
  by (auto simp: input_outcome_def confirmAlpha_prefs split: sum.splits if_splits)

lemma Update_prefs:
  "m_prefs (fst (Update has ack e msg m)) = m_prefs m
   \<or> m_prefs (fst (Update has ack e msg m)) = map_option (\<lambda>p. ack p (alpha_id m)) (m_prefs m)"
proof -
  let ?m = "m\<lparr>m_lastInput := e_now e\<rparr>"
  obtain m' c p where u: "Update has ack e msg m = (m', c, p)" by (metis prod_cases3)
  have "alpha_id ?m = alpha_id m" by (simp add: alpha_id_def)
  then show ?thesis
    using Update_input [OF u] input_outcome_prefs [of has ack e ?m "(m', c)"] by (auto simp: u)
qed

section \<open>The interface of the preferences\<close>

text \<open>
  What the menu relies on in \<^verbatim>\<open>AlphaPrefs\<close>, for preferences whose storage works and ids it accepts: an
  acknowledgement is found again, and acknowledging one game neither loses nor invents another's.
\<close>

locale alpha_prefs =
  fixes usable :: "'p \<Rightarrow> bool"
    and accepts :: "string \<Rightarrow> bool"
    and has :: "'p \<Rightarrow> string \<Rightarrow> bool"
    and ack :: "'p \<Rightarrow> string \<Rightarrow> 'p"
  assumes ack_usable: "usable p \<Longrightarrow> usable (ack p i)"
    and has_ack: "usable p \<Longrightarrow> has (ack p i) j \<longleftrightarrow> (accepts i \<and> j = i) \<or> has p j"
begin

definition dismissed :: "'p LobbyModel \<Rightarrow> string \<Rightarrow> bool" where
  "dismissed m i \<longleftrightarrow> (\<exists>p. m_prefs m = Some p \<and> usable p \<and> has p i)"

lemma dismissed_step: "lobby_step has ack m m' \<Longrightarrow> dismissed m i \<Longrightarrow> dismissed m' i"
proof (erule lobby_stepE)
  fix e msg assume "dismissed m i" "m' = fst (Update has ack e msg m)"
  then show "dismissed m' i" using Update_prefs [of has ack e msg m]
    by (auto simp: dismissed_def ack_usable has_ack)
qed (simp add: dismissed_def)

lemma dismissed_steps: "(lobby_step has ack)\<^sup>*\<^sup>* m m' \<Longrightarrow> dismissed m i \<Longrightarrow> dismissed m' i"
  by (induction rule: rtranclp_induct) (auto intro: dismissed_step)

lemma dismissed_quiet: "dismissed m (g_ID (gs_Game g)) \<Longrightarrow> \<not> needsAlphaWarning has g m"
  by (auto simp: dismissed_def needsAlphaWarning_def)

text \<open>A dialogue confirmed with the box checked never opens again for that game.\<close>

lemma confirm_dismisses:
  assumes "m_prefs m = Some p" "usable p" "m_alphaDontShow m" "accepts (alpha_id m)"
    and "Playable (e_games e) (alpha_id m) (m_guest m) = Inr st"
    and "(lobby_step has ack)\<^sup>*\<^sup>* (fst (confirmAlpha ack e m)) n" and "g_ID (gs_Game g) = alpha_id m"
  shows "\<not> needsAlphaWarning has g n"
proof -
  have "dismissed (fst (confirmAlpha ack e m)) (alpha_id m)"
    using assms by (simp add: dismissed_def confirmAlpha_prefs ack_usable has_ack)
  then show ?thesis using dismissed_steps [OF assms(6)] dismissed_quiet assms(7) by metis
qed

end

section \<open>Waits for notifications\<close>

text \<open>
  Every wait the program starts on a subscription channel blocks until that channel is poked or
  closed. \<open>waits\<close> counts the waits on the registry's and on the banner's channel after the pokes in
  the list, \<open>True\<close> for one of the registry.
\<close>

fun rearm :: "cmd \<Rightarrow> nat \<times> nat \<Rightarrow> nat \<times> nat" where
  "rearm (PokeCmds a b) (r, n) = ((if a then r + 1 else r), (if b then n + 1 else n))"
| "rearm _ w = w"

fun waits :: "('p \<Rightarrow> string \<Rightarrow> bool) \<Rightarrow> ('p \<Rightarrow> string \<Rightarrow> 'p) \<Rightarrow> 'p LobbyModel \<Rightarrow> (bool \<times> env) list \<Rightarrow> nat \<times> nat \<Rightarrow> nat \<times> nat" where
  "waits has ack m [] w = w"
| "waits has ack m ((which, e) # ps) (r, n) =
     (let (m', c, _) = Update has ack e PokeMsg m
      in waits has ack m' ps (rearm c (if which then (r - 1, n) else (r, n - 1))))"

lemma waits_total:
  assumes "m_poke m" "m_bannerPoke m" "0 < r" "0 < n"
  shows "fst (waits has ack m ps (r, n)) + snd (waits has ack m ps (r, n)) = r + n + length ps
    \<and> 0 < fst (waits has ack m ps (r, n)) \<and> 0 < snd (waits has ack m ps (r, n))"
  using assms
proof (induction ps arbitrary: m r n)
  case (Cons p ps)
  obtain which e where p: "p = (which, e)" by (cases p)
  let ?m = "refreshBanner (e_notice e) (refreshGames (e_games e) m)"
  have m: "m_poke ?m" "m_bannerPoke ?m"
    using Cons.prems by (simp_all add: refreshBanner_def refreshGames_def Let_def)
  have u: "Update has ack e PokeMsg m = (?m, PokeCmds True True, False)" using Cons.prems by (simp add: Update_def)
  show ?case
    using Cons.prems Cons.IH [OF m, of r "n + 1"] Cons.IH [OF m, of "r + 1" n]
    by (cases which) (auto simp: p u Let_def simp del: fst_eqD snd_eqD)
qed simp

section \<open>Properties\<close>

text \<open>
  In every state of a lobby program, however messages, registry changes and view passes
  interleave, the cursor names a listed game, or is zero when there is none.
\<close>

theorem lobby_cursor_in_range:
  assumes "(lobby_step has ack)\<^sup>*\<^sup>* (NewLobby e hasBanner poke bannerPoke fp prefs width height idle flash guest) m"
  shows "0 \<le> m_cursor m \<and> m_cursor m < max 1 (int (length (m_games m)))"
  using lobby.reach_inv [OF lobby_init.intros assms] by (simp add: lobby_inv_def)

definition example_env :: "GameStatus list \<Rightarrow> int \<Rightarrow> env" where
  "example_env games now = \<lparr>e_now = now, e_now2 = now, e_games = games, e_games2 = games, e_notice = zero_Notice\<rparr>"

definition example_lobby :: "GameStatus list \<Rightarrow> (string \<Rightarrow> bool) LobbyModel" where
  "example_lobby games = NewLobby (example_env games 0) False True True [] (Some (\<lambda>_. False)) 80 24 60 [] False"

theorem lobby_cursor_in_range_witness:
  "let m0 = example_lobby [example_status ''farm'' True True];
       m = fst (Update (\<lambda>p. p) (\<lambda>p i. p(i := True)) (example_env [] 5) PokeMsg m0)
   in (lobby_step (\<lambda>p. p) (\<lambda>p i. p(i := True)))\<^sup>*\<^sup>* m0 m \<and> 0 \<le> m_cursor m \<and> m_cursor m < 1"
proof -
  let ?m = "example_lobby [example_status ''farm'' True True]"
  let ?n = "fst (Update (\<lambda>p. p) (\<lambda>p i. p(i := True)) (example_env [] 5) PokeMsg ?m)"
  have "m_result ?m = KindNone" by (simp add: example_lobby_def NewLobby_eq refreshGames_def refreshBanner_def Let_def)
  then have "lobby_step (\<lambda>p. p) (\<lambda>p i. p(i := True)) ?m ?n" by (rule step_update)
  then have st: "(lobby_step (\<lambda>p. p) (\<lambda>p i. p(i := True)))\<^sup>*\<^sup>* ?m ?n" by simp
  have "m_games ?n = []" by (simp add: Update_def refreshGames_def refreshBanner_def example_env_def Let_def)
  then show ?thesis
    using st lobby_cursor_in_range [OF st [unfolded example_lobby_def]] by (simp add: example_lobby_def Let_def)
qed

text \<open>
  (C9) A message ends the program exactly when it leaves a result; and when the result is a game,
  that game is listed under its id, online and, for a guest, open to guests in the registry
  snapshot taken last, just before the program quits.
\<close>

theorem lobby_play_admitted:
  assumes "m_result m = KindNone" and "Update has ack e msg m = (m', c, p)"
  shows "(c = Quit \<longleftrightarrow> m_result m' \<noteq> KindNone)
    \<and> (\<forall>g. m_result m' = KindPlay g \<longrightarrow>
         (\<exists>st \<in> set (e_games2 e). gs_Game st = g \<and> gs_Online st \<and> (m_guest m \<longrightarrow> g_AllowGuests g)))"
proof -
  have ok: "outcome_ok e (m_guest m) (m', c)" by (rule Update_ok [OF assms])
  have "\<exists>st \<in> set (e_games2 e). gs_Game st = g \<and> gs_Online st \<and> (m_guest m \<longrightarrow> g_AllowGuests g)"
    if r: "m_result m' = KindPlay g" for g
  proof -
    obtain st where st: "Playable (e_games2 e) (g_ID g) (m_guest m) = Inr st" "gs_Game st = g"
      using ok r by (auto simp: outcome_ok_def)
    show ?thesis using Playable_Inr [OF st(1)] st(2) by blast
  qed
  with ok show ?thesis by (simp add: outcome_ok_def)
qed

lemma example_enter:
  "\<exists>m'. Update (\<lambda>p. p) (\<lambda>p i. p(i := True)) (example_env [example_status ''farm'' True True] 5) (KeyPressMsg ''enter'')
      (example_lobby [example_status ''farm'' True True]) = (m', Quit, False)
    \<and> m_result m' = KindPlay (gs_Game (example_status ''farm'' True True))"
  by (simp add: Update_def handleKey_def activate_def launchGame_def needsAlphaWarning_def example_lobby_def
      example_env_def NewLobby_eq refreshGames_def refreshBanner_def Let_def example_status_def
      example_entry_def entry_game_def game_of_def)

lemma example_running: "m_result (example_lobby gs) = KindNone"
  by (simp add: example_lobby_def NewLobby_eq refreshGames_def refreshBanner_def Let_def)

theorem lobby_play_admitted_witness:
  "\<exists>m' p. Update (\<lambda>p. p) (\<lambda>p i. p(i := True)) (example_env [example_status ''farm'' True True] 5) (KeyPressMsg ''enter'')
      (example_lobby [example_status ''farm'' True True]) = (m', Quit, p) \<and> m_result m' \<noteq> KindNone"
proof -
  obtain m' where u: "Update (\<lambda>p. p) (\<lambda>p i. p(i := True)) (example_env [example_status ''farm'' True True] 5)
      (KeyPressMsg ''enter'') (example_lobby [example_status ''farm'' True True]) = (m', Quit, False)"
    using example_enter by blast
  from lobby_play_admitted [OF example_running u] u show ?thesis by blast
qed



text \<open>
  The idle timeout: a tick ends the program as idle exactly when a timeout is set and the last
  input is at least that long ago; every key press, click and wheel turn counts as input, so the
  timeout restarts from it, and nothing else moves that moment.
\<close>

theorem lobby_idle_exact:
  assumes "m_result m = KindNone"
  shows "(m_result (fst (Update has ack e TickMsg m)) = KindIdle \<longleftrightarrow>
            0 < m_idleTimeout m \<and> m_idleTimeout m \<le> Sub (e_now e) (m_lastInput m))
    \<and> m_idleTimeout (fst (Update has ack e msg m)) = m_idleTimeout m
    \<and> m_lastInput (fst (Update has ack e msg m)) =
        (case msg of KeyPressMsg _ \<Rightarrow> e_now e | MouseClickMsg _ _ _ \<Rightarrow> e_now e | MouseWheelMsg _ \<Rightarrow> e_now e
         | _ \<Rightarrow> m_lastInput m)"
proof -
  let ?m = "m\<lparr>m_lastInput := e_now e\<rparr>"
  have t: "timers ?m = (e_now e, m_idleTimeout m)" by (simp add: timers_def)
  have w: "timers (handleWheel b ?m) = timers ?m" for b
    by (simp add: handleWheel_def split: mouse_button.split)
  have k: "timers (fst (handleKey has ack e key ?m)) = timers ?m" for key
    using input_outcome_timers [OF handleKey_outcome] by fastforce
  have c: "timers (fst (handleClick has ack e b x y ?m)) = timers ?m" for b x y
    using input_outcome_timers [OF handleClick_outcome] .
  have keep: "m_lastInput (refreshBanner n (refreshGames gs u)) = m_lastInput u"
    "m_idleTimeout (refreshBanner n (refreshGames gs u)) = m_idleTimeout u" for n gs and u :: "'a LobbyModel"
    by (simp_all add: refreshBanner_def refreshGames_def Let_def)
  have "m_lastInput (fst (Update has ack e msg m)) =
        (case msg of KeyPressMsg _ \<Rightarrow> e_now e | MouseClickMsg _ _ _ \<Rightarrow> e_now e | MouseWheelMsg _ \<Rightarrow> e_now e
         | _ \<Rightarrow> m_lastInput m) \<and> m_idleTimeout (fst (Update has ack e msg m)) = m_idleTimeout m"
    using t w k c by (cases msg) (simp_all add: Update_def timers_def handleTick_def keep split_def Let_def)
  then show ?thesis using assms by (auto simp: Update_def handleTick_def keep split_def Let_def)
qed

theorem lobby_idle_exact_witness:
  "m_result (fst (Update (\<lambda>p. p) (\<lambda>p i. p(i := True)) (example_env [] 61) TickMsg (example_lobby []))) = KindIdle"
  using lobby_idle_exact [OF example_running [of "[]"], of "\<lambda>p. p" "\<lambda>p i. p(i := True)" "example_env [] 61" TickMsg]
  by (simp add: example_lobby_def NewLobby_eq refreshGames_def refreshBanner_def Let_def example_env_def Sub_def)

text \<open>
  Every notification starts a wait on both channels although only one was consumed, so with
  both subscriptions the number of blocked waits grows by one with every notification while the
  menu is open: after \<open>n\<close> of them there are \<open>n + 2\<close>. They end only when the channels are closed.
\<close>

theorem poke_waits_grow:
  assumes "m_poke m" and "m_bannerPoke m"
  shows "fst (waits has ack m ps (1, 1)) + snd (waits has ack m ps (1, 1)) = length ps + 2"
  using waits_total [OF assms, of 1 1 has ack ps] by simp

theorem poke_waits_grow_witness:
  "waits (\<lambda>p. p) (\<lambda>p i. p(i := True)) (example_lobby []) [(True, example_env [] 1), (True, example_env [] 2)] (1, 1) = (1, 3)"
proof -
  have "m_poke (example_lobby [])" "m_bannerPoke (example_lobby [])"
    by (simp_all add: example_lobby_def NewLobby_eq refreshGames_def refreshBanner_def Let_def)
  from poke_waits_grow [OF this, of "\<lambda>p. p" "\<lambda>p i. p(i := True)" "[(True, example_env [] 1), (True, example_env [] 2)]"] this
  show ?thesis by (simp add: Update_def refreshGames_def refreshBanner_def Let_def)
qed

end
