(* ===== verification/Go_Json.thy ===== *)
theory Go_Json
  imports Go_Net
begin

text \<open>
  What the snapshot publisher uses of \<^verbatim>\<open>encoding/json\<close> and of package \<^verbatim>\<open>time\<close>: strings with the escapes
  of \<^verbatim>\<open>json.Marshal\<close> (HTML-sensitive characters included), decimal numbers, Booleans, arrays, objects in
  field order, and a UTC time with whole seconds in RFC 3339 form.
\<close>

section \<open>Strings\<close>

definition json_rune :: "rune \<times> string \<Rightarrow> string" where
  "json_rune p =
     (let (r, bytes) = p in
      if r = 34 then [chr 92, chr 34]
      else if r = 92 then [chr 92, chr 92]
      else if r = 8 then [chr 92, CHR ''b'']
      else if r = 12 then [chr 92, CHR ''f'']
      else if r = 10 then [chr 92, CHR ''n'']
      else if r = 13 then [chr 92, CHR ''r'']
      else if r = 9 then [chr 92, CHR ''t'']
      else if r < 32 \<or> r \<in> {60, 62, 38} then [chr 92] @ ''u00'' @ [hex_digit (r div 16), hex_digit (r mod 16)]
      else if r = RuneError \<and> length bytes = 1 then [chr 92] @ ''ufffd''
      else if r = 0x2028 \<or> r = 0x2029 then [chr 92] @ ''u202'' @ [hex_digit (r mod 16)]
      else bytes)"

definition json_string :: "string \<Rightarrow> string" where
  "json_string s = [chr 34] @ concat (map json_rune (chunks s)) @ [chr 34]"

definition json_int :: "int \<Rightarrow> string" where
  "json_int n = (if n < 0 then ''-'' @ dec_string (nat (- n)) else dec_string (nat n))"

definition json_bool :: "bool \<Rightarrow> string" where
  "json_bool b = (if b then ''true'' else ''false'')"

definition json_array :: "string list \<Rightarrow> string" where
  "json_array xs = ''['' @ join '','' xs @ '']''"

definition json_object :: "(string \<times> string) list \<Rightarrow> string" where
  "json_object fields = [chr 123] @ join '','' (map (\<lambda>(k, v). json_string k @ '':'' @ v) fields) @ [chr 125]"

section \<open>Times\<close>

text \<open>
  The Gregorian date of a day counted from 1970-01-01, by eras of 400 years that start on the
  first of March: the year, month and day of the month.
\<close>

definition civil :: "int \<Rightarrow> int \<times> int \<times> int" where
  "civil days =
     (let z = days + 719468;
          era = z div 146097;
          doe = z mod 146097;
          yoe = (doe - doe div 1460 + doe div 36524 - doe div 146096) div 365;
          doy = doe - (365 * yoe + yoe div 4 - yoe div 100);
          mp = (5 * doy + 2) div 153;
          d = doy - (153 * mp + 2) div 5 + 1;
          m = (if mp < 10 then mp + 3 else mp - 9);
          y = yoe + era * 400 + (if m \<le> 2 then 1 else 0)
      in (y, m, d))"

definition pad :: "nat \<Rightarrow> int \<Rightarrow> string" where
  "pad w n = (let s = dec_string (nat n) in replicate (w - length s) (CHR ''0'') @ s)"

text \<open>A UTC time of whole seconds since 1970; a year of other than four digits is an error.\<close>

definition rfc3339 :: "int \<Rightarrow> string option" where
  "rfc3339 secs =
     (let (y, m, d) = civil (secs div 86400); t = secs mod 86400
      in if y < 0 \<or> 9999 < y then None
         else Some (pad 4 y @ ''-'' @ pad 2 m @ ''-'' @ pad 2 d @ ''T'' @ pad 2 (t div 3600) @ '':''
                    @ pad 2 (t div 60 mod 60) @ '':'' @ pad 2 (t mod 60) @ ''Z''))"

section \<open>Lemmas\<close>

lemma is_digit_chr: "n < 10 \<Longrightarrow> is_digit (chr (48 + n))"
  by (simp add: is_digit_def)

lemma dec_string_digits: "list_all is_digit (dec_string n)"
proof (induction n rule: dec_string.induct)
  case (1 n)
  then show ?case by (subst dec_string.simps) (simp add: is_digit_chr)
qed

lemma is_digit_printable: "is_digit c \<Longrightarrow> 32 \<le> byte c"
  by (simp add: is_digit_def)

lemma byte_in_high:
  "byte_in (second_lo b) hi c \<Longrightarrow> 0x80 \<le> byte c" "byte_in 0x80 hi c \<Longrightarrow> 0x80 \<le> byte c"
  by (auto simp: byte_in_def second_lo_def split: if_splits)

lemma take_2_3: "take 2 (a # b # r) = [a, b]" "take 3 (a # b # c # r) = [a, b, c]"
  by (simp_all add: numeral_eq_Suc)

lemma decode_first_high:
  assumes "d \<in> set (take (snd (decode_first c cs)) cs)"
  shows "0x80 \<le> byte d"
proof -
  note simps = decode_first_def Let_def take_2_3
  show ?thesis
  proof (cases cs)
    case (Cons c1 r)
    show ?thesis
    proof (cases r)
      case Nil
      then show ?thesis using assms Cons by (auto simp: simps dest: byte_in_high split: if_splits)
    next
      case r: (Cons c2 r2)
      then show ?thesis
      proof (cases r2)
        case Nil
        then show ?thesis using assms Cons r by (auto simp: simps dest: byte_in_high split: if_splits)
      next
        case (Cons c3 r3)
        then show ?thesis using assms \<open>cs = c1 # r\<close> r
          by (auto simp: simps dest: byte_in_high split: if_splits)
      qed
    qed
  qed (use assms in simp)
qed

lemma rune_high:
  "0xC2 \<le> b \<Longrightarrow> 0x80 \<le> (b - 0xC0) * 64 + x"
  "0xE0 \<le> b \<Longrightarrow> byte_in (second_lo b) hi c \<Longrightarrow> 0x80 \<le> (b - 0xE0) * 4096 + (byte c - 0x80) * 64 + x"
  "0xF0 \<le> b \<Longrightarrow> byte_in (second_lo b) hi c \<Longrightarrow>
     0x80 \<le> (b - 0xF0) * 262144 + (byte c - 0x80) * 4096 + x + y"
  by (auto simp: byte_in_def second_lo_def split: if_splits)

lemma decode_first_rune: "0x80 \<le> byte c \<Longrightarrow> 0x80 \<le> fst (decode_first c cs)"
  unfolding decode_first_def Let_def
  by (simp split: list.split) (auto simp: RuneError_def intro: rune_high)

lemma chunks_bytes:
  "(r, bs) \<in> set (chunks s) \<Longrightarrow> r < 0x80 \<and> bs = [chr r] \<or> 0x80 \<le> r \<and> list_all (\<lambda>c. 0x80 \<le> byte c) bs"
proof (induction s rule: chunks.induct)
  case (2 c cs)
  show ?case
  proof (cases "byte c < 0x80")
    case True
    then show ?thesis using 2 by (auto simp: chunks_Cons_ascii decode_first_ascii)
  next
    case False
    then show ?thesis
      using 2 decode_first_high [of _ c cs] decode_first_rune [of c cs] by (auto simp: Let_def list_all_iff)
  qed
qed simp

definition printable :: "string \<Rightarrow> bool" where
  "printable s \<longleftrightarrow> list_all (\<lambda>c. 32 \<le> byte c) s"

lemma printable_append [simp]: "printable (s @ t) \<longleftrightarrow> printable s \<and> printable t"
  by (simp add: printable_def)

lemma printable_Nil [simp]: "printable []"
  by (simp add: printable_def)

lemma printable_Cons [simp]: "printable (c # s) \<longleftrightarrow> 32 \<le> byte c \<and> printable s"
  by (simp add: printable_def)

lemma hex_digit_printable: "n < 16 \<Longrightarrow> 32 \<le> byte (hex_digit n)"
  by (simp add: hex_digit_def)

text \<open>The escaped form of a string has no control characters, whatever its bytes are.\<close>

lemma json_rune_printable: "(r, bs) \<in> set (chunks s) \<Longrightarrow> printable (json_rune (r, bs))"
  using chunks_bytes [of r bs s]
  by (auto simp: json_rune_def hex_digit_printable list_all_iff printable_def)

lemma json_string_printable: "printable (json_string s)"
proof -
  have "printable (concat (map json_rune ps))" if "set ps \<subseteq> set (chunks s)" for ps
    using that json_rune_printable by (induction ps) auto
  then show ?thesis by (simp add: json_string_def)
qed

lemma dec_string_printable: "printable (dec_string n)"
  using dec_string_digits [of n] by (auto simp: printable_def list_all_iff is_digit_printable)

lemma json_int_printable: "printable (json_int n)"
  by (simp add: json_int_def dec_string_printable)

lemma json_bool_printable: "printable (json_bool b)"
  by (simp add: json_bool_def)

lemma join_printable: "printable sep \<Longrightarrow> list_all printable xs \<Longrightarrow> printable (join sep xs)"
  by (induction sep xs rule: join.induct) auto

lemma json_array_printable: "list_all printable xs \<Longrightarrow> printable (json_array xs)"
  by (simp add: json_array_def join_printable)

lemma json_object_printable: "list_all (printable \<circ> snd) fs \<Longrightarrow> printable (json_object fs)"
  unfolding json_object_def
  by (force simp: list_all_iff json_string_printable intro!: join_printable)

lemma pad_printable: "printable (pad w n)"
  by (simp add: pad_def dec_string_printable Let_def) (simp add: printable_def list_all_iff)

lemma rfc3339_printable: "rfc3339 t = Some s \<Longrightarrow> printable s"
  by (auto simp: rfc3339_def pad_printable split_def Let_def split: if_splits)

end
