(* ===== verification/View.thy ===== *)
theory View
  imports Lobby Go_Json "HOL-Library.Monad_Syntax"
begin

text \<open>
  \<^verbatim>\<open>internal/lobby/view.go\<close> and \<^verbatim>\<open>theme.go\<close>: what the menu draws and where it can be clicked. The terminal
  library is an argument: how it renders a text in a style, how many cells a string takes, and its
  two placement functions. A write outside the content rows, a slice out of bounds and a negative
  repetition are panics in Go and \<open>None\<close> here.

  Shown: \<open>View\<close> never panics; the hit test of the boxes it registers is the geometry of the rows on
  the screen; the selected game is always on the screen; and the frame is 24 rows of 80 cells.
\<close>

section \<open>Styles\<close>

record look =
  lk_Foreground :: "string option"
  lk_Background :: "string option"
  lk_Bold :: bool

datatype style =
    styleScreen | styleFrame | styleTitle | styleHost | styleCursor | styleOnline | styleOffline | styleName
  | styleNameSel | styleNameOff | styleTagline | styleDesc | styleIdentity | styleFlash | styleKeybar | styleBlink
  | styleGuest | styleGuestCommand | styleFinger | styleAboutH | styleAbout | styleBannerTitle | styleBannerInfo
  | styleBannerWarn | styleBannerDanger | styleAlphaCheck | styleAlphaContinue

definition screenBackground :: string where
  "screenBackground = ''234''"

definition fg :: "string \<Rightarrow> look" where
  "fg c = \<lparr>lk_Foreground = Some c, lk_Background = None, lk_Bold = False\<rparr>"

definition bold :: "look \<Rightarrow> look" where
  "bold l = l\<lparr>lk_Bold := True\<rparr>"

fun theme :: "style \<Rightarrow> look" where
  "theme styleScreen = \<lparr>lk_Foreground = None, lk_Background = Some screenBackground, lk_Bold = False\<rparr>"
| "theme styleFrame = fg ''24''"
| "theme styleTitle = bold (fg ''45'')"
| "theme styleHost = fg ''31''"
| "theme styleCursor = bold (fg ''45'')"
| "theme styleOnline = fg ''45''"
| "theme styleOffline = fg ''240''"
| "theme styleName = fg ''39''"
| "theme styleNameSel = bold (fg ''51'')"
| "theme styleNameOff = fg ''244''"
| "theme styleTagline = fg ''245''"
| "theme styleDesc = fg ''240''"
| "theme styleIdentity = fg ''245''"
| "theme styleFlash = bold (fg ''214'')"
| "theme styleKeybar = fg ''31''"
| "theme styleBlink = fg ''45''"
| "theme styleGuest = bold (fg ''226'')"
| "theme styleGuestCommand = fg ''45''"
| "theme styleFinger = fg ''240''"
| "theme styleAboutH = bold (fg ''45'')"
| "theme styleAbout = fg ''250''"
| "theme styleBannerTitle = bold (fg ''51'')"
| "theme styleBannerInfo = fg ''39''"
| "theme styleBannerWarn = fg ''214''"
| "theme styleBannerDanger = bold (fg ''203'')"
| "theme styleAlphaCheck = fg ''250''"
| "theme styleAlphaContinue = bold (fg ''45'')"

text \<open>
  The calls into the terminal library: \<^verbatim>\<open>Style.Render\<close>, \<^verbatim>\<open>Width\<close>, \<^verbatim>\<open>Place\<close> in the centre, and rendering
  in a style with a width and a height.
\<close>

record lipgloss =
  lg_Render :: "look \<Rightarrow> string \<Rightarrow> string"
  lg_Width :: "string \<Rightarrow> int"
  lg_Place :: "int \<Rightarrow> int \<Rightarrow> string \<Rightarrow> string"
  lg_Screen :: "look \<Rightarrow> int \<Rightarrow> int \<Rightarrow> string \<Rightarrow> string"

definition Render :: "lipgloss \<Rightarrow> style \<Rightarrow> string \<Rightarrow> string" where
  "Render lg st s = lg_Render lg (theme st) s"

section \<open>Layout\<close>

definition frameW :: int where "frameW = 80"

definition frameH :: int where "frameH = 24"

definition innerW :: int where "innerW = frameW - 2"

definition contentRows :: int where "contentRows = frameH - 2"

definition hostLabel :: string where "hostLabel = ''ssharcade.dev''"

definition windowTitle :: string where "windowTitle = ''SSHARCADE''"

definition gamesTopRow :: int where "gamesTopRow = 1"

definition maxVisible :: int where "maxVisible = 7"

definition bannerTopRow :: int where "bannerTopRow = 0"

definition bannerReserveRows :: int where "bannerReserveRows = 4"

definition identityRow :: int where "identityRow = 16"

definition flashRow :: int where "flashRow = 18"

definition fingerRow :: int where "fingerRow = 20"

definition nameColWidth :: int where "nameColWidth = 14"

definition rowIndent :: int where "rowIndent = 3"

lemmas layout_defs = frameW_def frameH_def innerW_def contentRows_def gamesTopRow_def maxVisible_def
  bannerTopRow_def bannerReserveRows_def identityRow_def flashRow_def fingerRow_def nameColWidth_def rowIndent_def

text \<open>Go's \<^verbatim>\<open>strings.Repeat\<close> and an assignment to an element of a slice.\<close>

definition Repeat :: "string \<Rightarrow> int \<Rightarrow> string option" where
  "Repeat s n = (if n < 0 then None else Some (concat (replicate (nat n) s)))"

definition put :: "int \<Rightarrow> string \<Rightarrow> string list \<Rightarrow> string list option" where
  "put i s content = (if 0 \<le> i \<and> i < int (length content) then Some (content[nat i := s]) else None)"

text \<open>\<^verbatim>\<open>xs[lo:hi]\<close>.\<close>

definition slice :: "int \<Rightarrow> int \<Rightarrow> 'a list \<Rightarrow> 'a list option" where
  "slice lo hi xs =
     (if 0 \<le> lo \<and> lo \<le> hi \<and> hi \<le> int (length xs) then Some (take (nat (hi - lo)) (drop (nat lo) xs)) else None)"

definition fit :: "string \<Rightarrow> int \<Rightarrow> string" where
  "fit s width =
     (if width \<le> 0 then []
      else
        (let r = runes s in
         if int (length r) \<le> width then s
         else if width = 1 then ellipsis
         else string_of_runes (take (nat (width - 1)) r) @ ellipsis))"

definition padLine :: "lipgloss \<Rightarrow> string \<Rightarrow> string option" where
  "padLine lg line =
     (let w = lg_Width lg line
      in if innerW < w then Some line else do { p \<leftarrow> Repeat '' '' (innerW - w); Some (line @ p) })"

definition indent :: "int \<Rightarrow> string \<Rightarrow> string option" where
  "indent n s = do { p \<leftarrow> Repeat '' '' n; Some (p @ s) }"

definition middot :: string where "middot = encode_rune 0xB7"

definition versionLabel :: "string \<Rightarrow> string" where
  "versionLabel v = (if v = [] then [] else ''v'' @ v)"

section \<open>The menu\<close>

definition gamesOrigin :: "'p LobbyModel \<Rightarrow> int" where
  "gamesOrigin m = (if n_Enabled (m_notice m) then gamesTopRow + bannerReserveRows else gamesTopRow)"

definition maxVisibleGames :: "'p LobbyModel \<Rightarrow> int" where
  "maxVisibleGames m =
     (if \<not> n_Enabled (m_notice m) then maxVisible
      else
        (let n = (identityRow - gamesOrigin m) div 2
         in if n < 1 then 1 else if maxVisible < n then maxVisible else n))"

definition scrollOffset :: "'p LobbyModel \<Rightarrow> int \<Rightarrow> int" where
  "scrollOffset m limit =
     (if int (length (m_games m)) \<le> limit then 0
      else
        (let first = m_cursor m - limit + 1;
             first1 = (if first < 0 then 0 else first)
         in if int (length (m_games m)) - limit < first1 then int (length (m_games m)) - limit else first1))"

definition fillBanner :: "lipgloss \<Rightarrow> 'p LobbyModel \<Rightarrow> string list \<Rightarrow> string list option" where
  "fillBanner lg m content =
     (if \<not> n_Enabled (m_notice m) then Some content
      else
        (let bodyStyle =
               (case n_Level (m_notice m) of
                  LevelWarning \<Rightarrow> styleBannerWarn | LevelDanger \<Rightarrow> styleBannerDanger | _ \<Rightarrow> styleBannerInfo);
             title = n_Title (m_notice m); message = n_Message (m_notice m)
         in do {
              content1 \<leftarrow>
                (if title \<noteq> [] then do {
                   line \<leftarrow> indent rowIndent (Render lg styleBannerTitle (fit title (innerW - rowIndent)));
                   put bannerTopRow line content }
                 else Some content);
              (if message \<noteq> [] then
                 (let row = (if title \<noteq> [] then bannerTopRow + 1 else bannerTopRow)
                  in if row < identityRow - 1 then do {
                       line \<leftarrow> indent rowIndent (Render lg bodyStyle (fit message (innerW - rowIndent)));
                       put row line content1 }
                     else Some content1)
               else Some content1) }))"

text \<open>The two lines of one game.\<close>

definition game_nameLine :: "lipgloss \<Rightarrow> GameStatus \<Rightarrow> bool \<Rightarrow> string option" where
  "game_nameLine lg g selected =
     (let cursor = (if selected then Render lg styleCursor (encode_rune 0x25B8 @ '' '') else ''  '');
          dot = (if gs_Online g then Render lg styleOnline (encode_rune 0x25CF @ '' '')
                 else Render lg styleOffline (encode_rune 0x25CB @ '' ''));
          nameStyle = (if \<not> gs_Online g then styleNameOff else if selected then styleNameSel else styleName);
          name = Render lg nameStyle (fit (g_Name (gs_Game g)) nameColWidth);
          tagline = (if gs_Online g then g_Tagline (gs_Game g) else ''OFFLINE '' @ emdash @ '' back soon'');
          tagStyle = (if gs_Online g then styleTagline else styleOffline);
          tagWidth = innerW - rowIndent - 2 - 2 - nameColWidth - 1
      in indent rowIndent (cursor @ dot @ name @ '' '' @ Render lg tagStyle (fit tagline tagWidth)))"

definition game_desc :: "GameStatus \<Rightarrow> string" where
  "game_desc g =
     (let desc = join ('' '' @ middot @ '' '') (g_Descriptors (gs_Game g));
          gameVersion = (if gs_DetectedVersion g = [] then g_Version (gs_Game g) else gs_DetectedVersion g);
          v = versionLabel gameVersion
      in if v \<noteq> [] then (if desc = [] then v else desc @ '' '' @ middot @ '' '' @ v) else desc)"

definition game_descLine :: "lipgloss \<Rightarrow> bool \<Rightarrow> GameStatus \<Rightarrow> string option" where
  "game_descLine lg guest g =
     (let descStyle = (if gs_Online g then styleDesc else styleOffline);
          policy = (if guest
                    then Render lg styleGuest (if g_AllowGuests (gs_Game g) then ''GUEST OK'' else ''KEY REQUIRED'')
                         @ Render lg descStyle ('' '' @ middot @ '' '')
                    else []);
          descWidth = innerW - rowIndent - 4 - (if guest then lg_Width lg policy else 0)
      in indent (rowIndent + 4) (policy @ Render lg descStyle (fit (game_desc g) descWidth)))"

definition game_box :: "int \<Rightarrow> int \<Rightarrow> int \<Rightarrow> int \<Rightarrow> GameStatus \<Rightarrow> Box" where
  "game_box ox oy row idx g =
     \<lparr>bx_X = ox + 1, bx_Y = oy + 1 + row, bx_W = innerW, bx_H = 2, bx_ID = ''game:'' @ g_ID (gs_Game g), bx_Data = Some idx\<rparr>"

text \<open>The loop over the visible games; \<open>vi\<close> counts them from the first.\<close>

fun fill_games ::
    "lipgloss \<Rightarrow> 'p LobbyModel \<Rightarrow> int \<Rightarrow> int \<Rightarrow> int \<Rightarrow> int \<Rightarrow> GameStatus list \<Rightarrow> string list \<times> Hitboxes
     \<Rightarrow> (string list \<times> Hitboxes) option" where
  "fill_games lg m ox oy first vi [] (content, hits) = Some (content, hits)"
| "fill_games lg m ox oy first vi (g # gs) (content, hits) =
     (let idx = first + vi; row = gamesOrigin m + vi * 2 in do {
        nameLine \<leftarrow> game_nameLine lg g (idx = m_cursor m);
        descLine \<leftarrow> game_descLine lg (m_guest m) g;
        if identityRow - 1 \<le> row + 1 then Some (content, hits)
        else do {
          content1 \<leftarrow> put row nameLine content;
          content2 \<leftarrow> put (row + 1) descLine content1;
          fill_games lg m ox oy first (vi + 1) gs (content2, hits_Add hits (game_box ox oy row idx g)) } })"

definition keyed_notice :: string where
  "keyed_notice = ''Your key is your account. Same key, same saves, any game.''"

definition guest_notice :: string where
  "guest_notice = ''Guest progress won'' @ encode_rune 0x2019 @ ''t be saved. Leaving a game resets it.''"

text \<open>The chrome below the games: the notice about accounts, the flash and whose key it is.\<close>

definition fill_identity :: "lipgloss \<Rightarrow> 'p LobbyModel \<Rightarrow> string list \<Rightarrow> string list option" where
  "fill_identity lg m content = do {
     line \<leftarrow> indent rowIndent (Render lg styleIdentity keyed_notice);
     content1 \<leftarrow> put identityRow line content;
     if m_guest m then do {
       line1 \<leftarrow> indent rowIndent (Render lg styleIdentity guest_notice);
       content2 \<leftarrow> put identityRow line1 content1;
       line2 \<leftarrow> indent rowIndent (Render lg styleGuestCommand ''ssh-keygen -t ed25519'');
       put (identityRow + 1) line2 content2 }
     else Some content1 }"

definition fill_flash :: "lipgloss \<Rightarrow> 'p LobbyModel \<Rightarrow> string list \<Rightarrow> string list option" where
  "fill_flash lg m content =
     (if m_flash m \<noteq> [] then
        (let f = Render lg styleFlash (m_flash m)
         in do { line \<leftarrow> indent (max ((innerW - lg_Width lg f) div 2) 0) f; put flashRow line content })
      else Some content)"

definition fill_finger :: "lipgloss \<Rightarrow> 'p LobbyModel \<Rightarrow> string list \<Rightarrow> string list option" where
  "fill_finger lg m content =
     (if m_guest m then
        (let fp = Render lg styleGuest ''Guest Account''
         in do { line \<leftarrow> indent (max (innerW - lg_Width lg fp - 2) 0) fp; put fingerRow line content })
      else if m_fingerprint m \<noteq> [] then
        (let fp = Render lg styleFinger (''key '' @ fit (m_fingerprint m) 24)
         in do { line \<leftarrow> indent (max (innerW - lg_Width lg fp - 2) 0) fp; put fingerRow line content })
      else Some content)"

definition fillMenu ::
    "lipgloss \<Rightarrow> 'p LobbyModel \<Rightarrow> int \<Rightarrow> int \<Rightarrow> string list \<times> Hitboxes \<Rightarrow> (string list \<times> Hitboxes) option" where
  "fillMenu lg m ox oy ch = do {
     content1 \<leftarrow> fillBanner lg m (fst ch);
     let limit = maxVisibleGames m;
     let first = scrollOffset m limit;
     visible \<leftarrow> slice first (min (first + limit) (int (length (m_games m)))) (m_games m);
     (content2, hits) \<leftarrow> fill_games lg m ox oy first 0 visible (content1, snd ch);
     content3 \<leftarrow> fill_identity lg m content2;
     content4 \<leftarrow> fill_flash lg m content3;
     content5 \<leftarrow> fill_finger lg m content4;
     Some (content5, hits) }"

section \<open>The other screens\<close>

text \<open>\<open>version\<close> is the build's version string.\<close>

definition aboutLines :: "string \<Rightarrow> string list" where
  "aboutLines version =
     [[],
      ''ABOUT SSHARCADE'',
      ''router v'' @ version,
      [],
      ''One address, every game:  ssh '' @ hostLabel,
      [],
      ''Your SSH key is your account. When you enter a game, the arcade'',
      ''forwards a fingerprint of your public key over a trusted private'',
      ''network '' @ emdash @ '' so the same key opens the same saves in every game,'',
      ''whether you connect through the arcade or straight to a game.'',
      [],
      ''Your private key never leaves your machine; SSH proves who you'',
      ''are without sending it anywhere.'',
      [],
      ''Pick a save: the SSH username selects a save slot, e.g.'',
      ''  ssh scout@'' @ hostLabel,
      [],
      [],
      ''PRESS ANY KEY TO RETURN'']"

definition guestAboutLines :: "string list" where
  "guestAboutLines =
     [[], ''ABOUT SSHARCADE'', [],
      ''Guest progress is temporary and resets when you leave a game.'',
      ''Only games marked GUEST OK allow guests.'', [],
      ''Generate a keypair in a local terminal:'',
      ''  ssh-keygen -t ed25519'',
      ''Reconnect with your key to start saving. Guest progress cannot'',
      ''be transferred to an account.'', [],
      ''Keep your private key; decline any overwrite prompt.'',
      ''If needed, choose your key explicitly:'',
      ''  ssh -i ~/.ssh/id_ed25519 '' @ hostLabel,
      ''Keep the same SSH username to reopen a saved slot.'', [],
      ''Your private key stays on your machine.'', [],
      ''PRESS ANY KEY TO RETURN'']"

text \<open>The loop that both text screens share: a line per row, in the style its text asks for.\<close>

fun fill_lines :: "lipgloss \<Rightarrow> (string \<Rightarrow> style) \<Rightarrow> int \<Rightarrow> string list \<Rightarrow> string list \<Rightarrow> string list option" where
  "fill_lines lg style_of i [] content = Some content"
| "fill_lines lg style_of i (line # lines) content =
     (if int (length content) \<le> i then Some content
      else do {
        row \<leftarrow> indent rowIndent (Render lg (style_of line) (fit line (innerW - rowIndent)));
        content1 \<leftarrow> put i row content;
        fill_lines lg style_of (i + 1) lines content1 })"

definition fillAbout :: "lipgloss \<Rightarrow> string \<Rightarrow> 'p LobbyModel \<Rightarrow> string list \<Rightarrow> string list option" where
  "fillAbout lg version m content =
     fill_lines lg (\<lambda>line. if HasPrefix line ''ABOUT'' \<or> HasPrefix line ''PRESS'' then styleAboutH else styleAbout) 0
       (if m_guest m then guestAboutLines else aboutLines version) content"

definition alphaCheckboxLine :: "'p LobbyModel \<Rightarrow> string" where
  "alphaCheckboxLine m =
     (if m_alphaDontShow m then ''[x]'' else ''[ ]'')
     @ (if m_guest m then '' Hide for this lobby connection''
        else '' Don'' @ [chr 39] @ ''t show this again for this game'')"

definition continueLine :: string where
  "continueLine = encode_rune 0x25B8 @ '' CONTINUE TO GAME''"

definition alphaLines :: "'p LobbyModel \<Rightarrow> string list" where
  "alphaLines m =
     (let name = (case m_alphaGame m of None \<Rightarrow> [] | Some g \<Rightarrow> g_Name (gs_Game g)) in
      [[],
       ''ALPHA SOFTWARE'',
       [],
       fit (name @ '' is in active development.'') (innerW - rowIndent),
       ''Features, balance, and saves may change without notice.'',
       [],
       alphaCheckboxLine m,
       [],
       continueLine,
       [],
       ''SPACE TOGGLE '' @ middot @ '' ENTER CONTINUE '' @ middot @ '' ESC BACK''])"

definition alphaStyle :: "'p LobbyModel \<Rightarrow> string \<Rightarrow> style" where
  "alphaStyle m line =
     (if HasPrefix line ''ALPHA'' then styleAboutH
      else if HasPrefix line (encode_rune 0x25B8 @ '' CONTINUE'') then styleAlphaContinue
      else if HasPrefix line ''SPACE'' then styleAboutH
      else if line = alphaCheckboxLine m then styleAlphaCheck
      else styleAbout)"

definition alpha_box :: "int \<Rightarrow> int \<Rightarrow> int \<Rightarrow> string \<Rightarrow> Box" where
  "alpha_box ox oy row name =
     \<lparr>bx_X = ox + 1, bx_Y = oy + 1 + row, bx_W = innerW, bx_H = 1, bx_ID = name, bx_Data = None\<rparr>"

definition fillAlphaWarn ::
    "lipgloss \<Rightarrow> 'p LobbyModel \<Rightarrow> int \<Rightarrow> int \<Rightarrow> string list \<times> Hitboxes \<Rightarrow> (string list \<times> Hitboxes) option" where
  "fillAlphaWarn lg m ox oy ch = do {
     content \<leftarrow> fill_lines lg (alphaStyle m) 0 (alphaLines m) (fst ch);
     Some (content, hits_Add (hits_Add (snd ch) (alpha_box ox oy 6 ''alpha:check'')) (alpha_box ox oy 8 ''alpha:continue'')) }"

section \<open>The frame\<close>

definition hline :: string where "hline = encode_rune 0x2500"

definition vline :: string where "vline = encode_rune 0x2502"

definition topLeft :: string where "topLeft = encode_rune 0x250C @ encode_rune 0x25C7 @ '' ''"

definition topRight :: string where "topRight = '' '' @ encode_rune 0x2510"

definition bottomLeft :: string where "bottomLeft = encode_rune 0x2514 @ '' ''"

definition bottomRight :: string where "bottomRight = '' '' @ encode_rune 0x2518"

definition keybar :: string where
  "keybar =
     encode_rune 0x2191 @ encode_rune 0x2193 @ '' SELECT '' @ middot @ '' ENTER PLAY '' @ middot @ '' R REFRESH ''
     @ middot @ '' ? ABOUT '' @ middot @ '' Q QUIT''"

definition topBorder :: "lipgloss \<Rightarrow> string option" where
  "topBorder lg =
     (let title = ''SSHARCADE'';
          fill = frameW - lg_Width lg topLeft - int (length title) - 2 - int (length hostLabel) - lg_Width lg topRight
      in do {
           dashes \<leftarrow> Repeat hline fill;
           Some (Render lg styleFrame topLeft @ Render lg styleTitle title @ Render lg styleFrame ('' '' @ dashes @ '' '')
             @ Render lg styleHost hostLabel @ Render lg styleFrame topRight) })"

definition bottomBorder :: "lipgloss \<Rightarrow> 'p LobbyModel \<Rightarrow> string option" where
  "bottomBorder lg m =
     (let cursor = (if m_blink m then encode_rune 0x2588 else '' '');
          fill = frameW - lg_Width lg bottomLeft - lg_Width lg keybar - lg_Width lg bottomRight - lg_Width lg cursor - 2
      in do {
           dashes \<leftarrow> Repeat hline fill;
           Some (Render lg styleFrame bottomLeft @ Render lg styleKeybar keybar @ Render lg styleFrame ('' '' @ dashes @ '' '')
             @ Render lg styleBlink cursor @ Render lg styleFrame bottomRight) })"

fun frame_rows :: "lipgloss \<Rightarrow> string \<Rightarrow> string list \<Rightarrow> string option" where
  "frame_rows lg margin [] = Some []"
| "frame_rows lg margin (line # content) = do {
     p \<leftarrow> padLine lg line;
     rest \<leftarrow> frame_rows lg margin content;
     Some (margin @ Render lg styleFrame vline @ p @ Render lg styleFrame vline @ [chr 10] @ rest) }"

definition fill_content :: "lipgloss \<Rightarrow> string \<Rightarrow> 'p LobbyModel \<Rightarrow> int \<Rightarrow> int \<Rightarrow> (string list \<times> Hitboxes) option" where
  "fill_content lg version m ox oy =
     (let content = replicate (nat contentRows) [] in
      if m_alphaOpen m then fillAlphaWarn lg m ox oy (content, hits_Reset (m_hits m))
      else if m_aboutOpen m then do { c \<leftarrow> fillAbout lg version m content; Some (c, hits_Reset (m_hits m)) }
      else fillMenu lg m ox oy (content, hits_Reset (m_hits m)))"

definition viewFrame :: "lipgloss \<Rightarrow> string \<Rightarrow> 'p LobbyModel \<Rightarrow> (string \<times> Hitboxes) option" where
  "viewFrame lg version m =
     (let ox = (m_width m - frameW) div 2; oy = (m_height m - frameH) div 2 in do {
        (content, hits) \<leftarrow> fill_content lg version m ox oy;
        top \<leftarrow> Repeat [chr 10] oy;
        margin \<leftarrow> Repeat '' '' ox;
        tb \<leftarrow> topBorder lg;
        rows \<leftarrow> frame_rows lg margin content;
        bb \<leftarrow> bottomBorder lg m;
        Some (top @ margin @ tb @ [chr 10] @ rows @ margin @ bb, hits) })"

definition viewTooSmall :: "lipgloss \<Rightarrow> 'p LobbyModel \<Rightarrow> string" where
  "viewTooSmall lg m =
     (let times = encode_rune 0xD7;
          msg = ''RESIZE TERMINAL '' @ emdash @ '' need '' @ json_int frameW @ times @ json_int frameH
                @ '', have '' @ json_int (m_width m) @ times @ json_int (m_height m)
      in lg_Place lg (max (m_width m) 1) (max (m_height m) 1) (Render lg styleFlash msg))"

record tea_view =
  v_Body :: string
  v_AltScreen :: bool
  v_BackgroundColor :: string
  v_WindowTitle :: string
  v_MouseCellMotion :: bool

text \<open>\<^verbatim>\<open>View\<close>: the view, and the hitboxes, which it first resets.\<close>

definition View :: "lipgloss \<Rightarrow> string \<Rightarrow> 'p LobbyModel \<Rightarrow> (tea_view \<times> Hitboxes) option" where
  "View lg version m = do {
     (body, hits) \<leftarrow>
       (if m_width m < frameW \<or> m_height m < frameH then Some (viewTooSmall lg m, hits_Reset (m_hits m))
        else viewFrame lg version m);
     Some (\<lparr>v_Body = lg_Screen lg (theme styleScreen) (max (m_width m) 1) (max (m_height m) 1) body,
            v_AltScreen = True, v_BackgroundColor = screenBackground, v_WindowTitle = windowTitle,
            v_MouseCellMotion = True\<rparr>, hits) }"

section \<open>Nothing panics\<close>

lemma Repeat_Some [simp]: "0 \<le> n \<Longrightarrow> Repeat s n = Some (concat (replicate (nat n) s))"
  by (simp add: Repeat_def)

lemma concat_spaces: "concat (replicate n [c]) = replicate n c"
  by (induction n) simp_all

lemma indent_Some [simp]: "0 \<le> n \<Longrightarrow> indent n s = Some (replicate (nat n) (CHR '' '') @ s)"
  by (simp add: indent_def concat_spaces)

lemma put_Some: "0 \<le> i \<Longrightarrow> i < int (length content) \<Longrightarrow> put i s content = Some (content[nat i := s])"
  by (simp add: put_def)

text \<open>
  A screenful: all content rows, each of which satisfies a predicate. Every step of the drawing maps
  a screenful to a screenful, if the lines it draws satisfy the predicate.
\<close>

definition screenful :: "(string \<Rightarrow> bool) \<Rightarrow> string list \<Rightarrow> bool" where
  "screenful P content \<longleftrightarrow> length content = nat contentRows \<and> list_all P content"

definition draws :: "(string \<Rightarrow> bool) \<Rightarrow> (string list \<Rightarrow> string list option) \<Rightarrow> bool" where
  "draws P f \<longleftrightarrow> (\<forall>content. screenful P content \<longrightarrow> (\<exists>content'. f content = Some content' \<and> screenful P content'))"

lemma drawsD: "draws P f \<Longrightarrow> screenful P content \<Longrightarrow> \<exists>content'. f content = Some content' \<and> screenful P content'"
  by (simp add: draws_def)

lemma draws_keep: "draws P Some"
  by (simp add: draws_def)

lemma put_screenful:
  assumes "screenful P content" "0 \<le> i" "i < contentRows" "P s"
  shows "\<exists>content'. put i s content = Some content' \<and> screenful P content'"
proof -
  have "int (length content) = contentRows" using assms(1) by (simp add: screenful_def layout_defs)
  then have "put i s content = Some (content[nat i := s])" using assms by (simp add: put_Some)
  moreover have "screenful P (content[nat i := s])"
    using assms(1,4) by (auto simp: screenful_def list_all_iff dest: set_update_subset_insert [THEN subsetD])
  ultimately show ?thesis by blast
qed

lemma draws_put: "0 \<le> i \<Longrightarrow> i < contentRows \<Longrightarrow> P s \<Longrightarrow> draws P (put i s)"
  by (simp add: draws_def put_screenful)

lemma draws_bind: "draws P f \<Longrightarrow> draws P g \<Longrightarrow> draws P (\<lambda>content. f content \<bind> g)"
  by (fastforce simp: draws_def)

lemma origin_cases: "gamesOrigin m = 1 \<and> maxVisibleGames m = 7 \<or> gamesOrigin m = 5 \<and> maxVisibleGames m = 5"
  by (auto simp: gamesOrigin_def maxVisibleGames_def layout_defs Let_def)

lemma scroll_range:
  "0 < limit \<Longrightarrow> 0 \<le> scrollOffset m limit \<and> scrollOffset m limit \<le> max 0 (int (length (m_games m)) - limit)"
  by (auto simp: scrollOffset_def Let_def)

text \<open>The boxes of the visible games.\<close>

definition game_boxes :: "'p LobbyModel \<Rightarrow> int \<Rightarrow> int \<Rightarrow> int \<Rightarrow> int \<Rightarrow> GameStatus list \<Rightarrow> Box list" where
  "game_boxes m ox oy first vi gs =
     map (\<lambda>j. game_box ox oy (gamesOrigin m + (vi + int j) * 2) (first + (vi + int j)) (gs ! j)) [0..<length gs]"

lemma game_boxes_Cons:
  "game_boxes m ox oy first vi (g # gs) =
     game_box ox oy (gamesOrigin m + vi * 2) (first + vi) g # game_boxes m ox oy first (vi + 1) gs"
  by (simp add: game_boxes_def upt_conv_Cons map_Suc_upt [symmetric] algebra_simps del: upt_Suc)

definition game_lines :: "(string \<Rightarrow> bool) \<Rightarrow> lipgloss \<Rightarrow> 'p LobbyModel \<Rightarrow> GameStatus \<Rightarrow> bool" where
  "game_lines P lg m g \<longleftrightarrow>
     (\<forall>sel. \<exists>line. game_nameLine lg g sel = Some line \<and> P line) \<and> (\<exists>line. game_descLine lg (m_guest m) g = Some line \<and> P line)"

lemma fill_games_draws:
  assumes "screenful P content" "0 \<le> vi" "gamesOrigin m + (vi + int (length gs)) * 2 \<le> identityRow - 1"
    "\<forall>g \<in> set gs. game_lines P lg m g"
  shows "\<exists>content'. fill_games lg m ox oy first vi gs (content, hits) = Some (content', hits @ game_boxes m ox oy first vi gs)
    \<and> screenful P content'"
  using assms
proof (induction gs arbitrary: vi content hits)
  case (Cons g gs)
  obtain nl where nl: "game_nameLine lg g (first + vi = m_cursor m) = Some nl" "P nl"
    using Cons.prems(4) unfolding game_lines_def by (meson list.set_intros(1))
  obtain dl where dl: "game_descLine lg (m_guest m) g = Some dl" "P dl"
    using Cons.prems(4) by (auto simp: game_lines_def)
  let ?row = "gamesOrigin m + vi * 2"
  have row: "0 \<le> ?row" "?row + 1 < identityRow - 1" "?row + 1 < contentRows"
    using Cons.prems(2,3) origin_cases [of m] by (auto simp: layout_defs)
  obtain c1 where c1: "put ?row nl content = Some c1" "screenful P c1"
    using put_screenful [OF Cons.prems(1), of ?row nl] row nl(2) by auto
  obtain c2 where c2: "put (?row + 1) dl c1 = Some c2" "screenful P c2"
    using put_screenful [OF c1(2), of "?row + 1" dl] row dl(2) by auto
  have "gamesOrigin m + ((vi + 1) + int (length gs)) * 2 \<le> identityRow - 1" using Cons.prems(3) by (simp add: algebra_simps)
  then show ?case
    using Cons.IH [OF c2(2), of "vi + 1" "hits @ [game_box ox oy ?row (first + vi) g]"] Cons.prems(2,4) nl dl c1 c2 row
    by (simp add: Let_def hits_Add_def game_boxes_Cons)
qed (simp add: game_boxes_def)

lemma visible_games:
  "\<exists>gs. slice (scrollOffset m (maxVisibleGames m))
      (min (scrollOffset m (maxVisibleGames m) + maxVisibleGames m) (int (length (m_games m)))) (m_games m) = Some gs
    \<and> gs = take (nat (maxVisibleGames m)) (drop (nat (scrollOffset m (maxVisibleGames m))) (m_games m))"
proof -
  let ?l = "maxVisibleGames m" and ?n = "int (length (m_games m))"
  have l: "0 < ?l" using origin_cases [of m] by auto
  note r = scroll_range [OF l, of m]
  have "0 \<le> scrollOffset m ?l \<and> scrollOffset m ?l \<le> min (scrollOffset m ?l + ?l) ?n" using r l by auto
  moreover have "take (nat (min (scrollOffset m ?l + ?l) ?n - scrollOffset m ?l)) (drop (nat (scrollOffset m ?l)) (m_games m))
      = take (nat ?l) (drop (nat (scrollOffset m ?l)) (m_games m))"
    using r l by (cases "scrollOffset m ?l + ?l \<le> ?n") (auto simp: min_def nat_diff_distrib)
  ultimately show ?thesis by (simp add: slice_def)
qed

abbreviation indented :: "string \<Rightarrow> string" where
  "indented s \<equiv> replicate 3 (CHR '' '') @ s"

lemma indent_row [simp]: "indent rowIndent s = Some (indented s)"
  by (simp add: layout_defs)

lemma draws_if: "(b \<Longrightarrow> draws P f) \<Longrightarrow> draws P (\<lambda>content. if b then f content else Some content)"
  by (cases b) (simp_all add: draws_keep)

lemma draws_eta: "draws P (\<lambda>content. f content) \<Longrightarrow> g = f \<Longrightarrow> draws P g"
  by simp

lemma fillBanner_draws:
  assumes t: "\<And>st. P (indented (Render lg st (fit (n_Title (m_notice m)) (innerW - rowIndent))))"
    and b: "\<And>st. P (indented (Render lg st (fit (n_Message (m_notice m)) (innerW - rowIndent))))"
  shows "draws P (fillBanner lg m)"
proof -
  let ?title = "put bannerTopRow (indented (Render lg styleBannerTitle (fit (n_Title (m_notice m)) (innerW - rowIndent))))"
  let ?body = "\<lambda>st row. put row (indented (Render lg st (fit (n_Message (m_notice m)) (innerW - rowIndent))))"
  let ?row = "if n_Title (m_notice m) \<noteq> [] then bannerTopRow + 1 else bannerTopRow"
  let ?st = "case n_Level (m_notice m) of
    LevelWarning \<Rightarrow> styleBannerWarn | LevelDanger \<Rightarrow> styleBannerDanger | _ \<Rightarrow> styleBannerInfo"
  have rows: "0 \<le> bannerTopRow" "bannerTopRow < contentRows" "0 \<le> ?row" "?row < contentRows" by (simp_all add: layout_defs)
  have put: "draws P ?title" "draws P (?body ?st ?row)"
    by (rule draws_put, (rule rows t b)+)+
  have row: "bannerTopRow < identityRow - 1" "bannerTopRow + 1 < identityRow - 1" by (simp_all add: layout_defs)
  have "draws P (\<lambda>c. if n_Enabled (m_notice m) then
      (if n_Title (m_notice m) \<noteq> [] then ?title c else Some c) \<bind>
      (\<lambda>c1. if n_Message (m_notice m) \<noteq> [] then ?body ?st ?row c1 else Some c1) else Some c)"
    by (intro draws_if draws_bind put)
  then show ?thesis by (rule draws_eta) (simp add: fun_eq_iff fillBanner_def Let_def row cong: if_cong)
qed

lemma fill_identity_draws:
  assumes "\<And>st. P (indented (Render lg st keyed_notice))" "\<And>st. P (indented (Render lg st guest_notice))"
    "\<And>st. P (indented (Render lg st ''ssh-keygen -t ed25519''))"
  shows "draws P (fill_identity lg m)"
proof -
  have a: "draws P (put identityRow (indented (Render lg styleIdentity keyed_notice)))"
    "draws P (put identityRow (indented (Render lg styleIdentity guest_notice)))"
    "draws P (put (identityRow + 1) (indented (Render lg styleGuestCommand ''ssh-keygen -t ed25519'')))"
    using assms by (auto intro!: draws_put simp: layout_defs)
  have "draws P (\<lambda>c. put identityRow (indented (Render lg styleIdentity keyed_notice)) c \<bind>
      (\<lambda>c1. put identityRow (indented (Render lg styleIdentity guest_notice)) c1 \<bind>
         put (identityRow + 1) (indented (Render lg styleGuestCommand ''ssh-keygen -t ed25519''))))"
    using a by (intro draws_bind)
  moreover have "fill_identity lg m = (if m_guest m then
        (\<lambda>c. put identityRow (indented (Render lg styleIdentity keyed_notice)) c \<bind>
          (\<lambda>c1. put identityRow (indented (Render lg styleIdentity guest_notice)) c1 \<bind>
             put (identityRow + 1) (indented (Render lg styleGuestCommand ''ssh-keygen -t ed25519''))))
      else put identityRow (indented (Render lg styleIdentity keyed_notice)))"
    by (simp add: fun_eq_iff fill_identity_def)
  ultimately show ?thesis using a(1) by simp
qed

definition flashLine :: "lipgloss \<Rightarrow> 'p LobbyModel \<Rightarrow> string" where
  "flashLine lg m =
     (let f = Render lg styleFlash (m_flash m)
      in replicate (nat (max ((innerW - lg_Width lg f) div 2) 0)) (CHR '' '') @ f)"

lemma fill_flash_draws: "(m_flash m \<noteq> [] \<Longrightarrow> P (flashLine lg m)) \<Longrightarrow> draws P (fill_flash lg m)"
  using draws_put [of flashRow P "flashLine lg m"]
  by (cases "m_flash m = []") (auto simp: fill_flash_def flashLine_def Let_def draws_def layout_defs)

definition fingerLine :: "lipgloss \<Rightarrow> style \<Rightarrow> string \<Rightarrow> string" where
  "fingerLine lg st s =
     (let fp = Render lg st s in replicate (nat (max (innerW - lg_Width lg fp - 2) 0)) (CHR '' '') @ fp)"

lemma fill_finger_draws:
  assumes "P (fingerLine lg styleGuest ''Guest Account'')" "P (fingerLine lg styleFinger (''key '' @ fit (m_fingerprint m) 24))"
  shows "draws P (fill_finger lg m)"
  using assms draws_put [of fingerRow P "fingerLine lg styleGuest ''Guest Account''"]
    draws_put [of fingerRow P "fingerLine lg styleFinger (''key '' @ fit (m_fingerprint m) 24)"]
  by (auto simp: fill_finger_def fingerLine_def Let_def draws_def layout_defs)

lemma fill_lines_draws:
  assumes "\<And>st line. line \<in> set lines \<Longrightarrow> P (indented (Render lg st (fit line (innerW - rowIndent))))" "0 \<le> i" "screenful P content"
  shows "\<exists>content'. fill_lines lg style_of i lines content = Some content' \<and> screenful P content'"
  using assms
proof (induction lines arbitrary: i content)
  case (Cons line lines)
  have len: "int (length content) = contentRows" using Cons.prems(3) by (simp add: screenful_def layout_defs)
  show ?case
  proof (cases "contentRows \<le> i")
    case False
    then obtain c1 where c1: "put i (indented (Render lg (style_of line) (fit line (innerW - rowIndent)))) content = Some c1" "screenful P c1"
      using put_screenful [OF Cons.prems(3,2)] Cons.prems(1) by (metis list.set_intros(1) not_le)
    show ?thesis using Cons.IH [of "i + 1" c1] c1 Cons.prems(1,2) False len by simp
  qed (use Cons.prems len in simp)
qed simp

text \<open>Every line the program may draw for a model.\<close>

definition all_lines :: "(string \<Rightarrow> bool) \<Rightarrow> lipgloss \<Rightarrow> string \<Rightarrow> 'p LobbyModel \<Rightarrow> bool" where
  "all_lines P lg version m \<longleftrightarrow>
     P [] \<and> (\<forall>g \<in> set (m_games m). game_lines P lg m g)
     \<and> (\<forall>st. \<forall>s \<in> {n_Title (m_notice m), n_Message (m_notice m)} \<union> set (aboutLines version) \<union> set guestAboutLines \<union> set (alphaLines m).
          P (indented (Render lg st (fit s (innerW - rowIndent)))))
     \<and> (\<forall>st. \<forall>s \<in> {keyed_notice, guest_notice, ''ssh-keygen -t ed25519''}. P (indented (Render lg st s)))
     \<and> (m_flash m \<noteq> [] \<longrightarrow> P (flashLine lg m))
     \<and> P (fingerLine lg styleGuest ''Guest Account'') \<and> P (fingerLine lg styleFinger (''key '' @ fit (m_fingerprint m) 24))"

lemma fillMenu_draws:
  assumes "all_lines P lg version m" "screenful P content"
  shows "\<exists>content'. fillMenu lg m ox oy (content, hits) = Some (content', hits @
      game_boxes m ox oy (scrollOffset m (maxVisibleGames m)) 0
        (take (nat (maxVisibleGames m)) (drop (nat (scrollOffset m (maxVisibleGames m))) (m_games m))))
    \<and> screenful P content'"
proof -
  let ?f = "scrollOffset m (maxVisibleGames m)" and ?gs = "take (nat (maxVisibleGames m)) (drop (nat (scrollOffset m (maxVisibleGames m))) (m_games m))"
  obtain c1 where c1: "fillBanner lg m content = Some c1" "screenful P c1"
    using drawsD [OF fillBanner_draws assms(2), of lg m] assms(1) by (auto simp: all_lines_def)
  have "gamesOrigin m + (0 + int (length ?gs)) * 2 \<le> identityRow - 1"
    using origin_cases [of m] by (auto simp: layout_defs)
  moreover have "\<forall>g \<in> set ?gs. game_lines P lg m g"
    using assms(1) by (auto simp: all_lines_def dest!: in_set_takeD in_set_dropD)
  ultimately obtain c2 where c2: "fill_games lg m ox oy ?f 0 ?gs (c1, hits) = Some (c2, hits @ game_boxes m ox oy ?f 0 ?gs)" "screenful P c2"
    using fill_games_draws [OF c1(2), of 0 m ?gs lg] by blast
  obtain c3 where c3: "fill_identity lg m c2 = Some c3" "screenful P c3"
    using drawsD [OF fill_identity_draws c2(2), of lg m] assms(1) by (auto simp: all_lines_def)
  obtain c4 where c4: "fill_flash lg m c3 = Some c4" "screenful P c4"
    using drawsD [OF fill_flash_draws c3(2), of m lg] assms(1) by (auto simp: all_lines_def)
  obtain c5 where c5: "fill_finger lg m c4 = Some c5" "screenful P c5"
    using drawsD [OF fill_finger_draws c4(2), of lg m] assms(1) by (auto simp: all_lines_def)
  show ?thesis using c1(1) c2(1) c3(1) c4(1) c5 visible_games [of m] by (auto simp: fillMenu_def Let_def)
qed

lemma fill_content_draws:
  assumes "all_lines P lg version m"
  shows "\<exists>content. fill_content lg version m ox oy = Some (content,
      if m_alphaOpen m then [alpha_box ox oy 6 ''alpha:check'', alpha_box ox oy 8 ''alpha:continue'']
      else if m_aboutOpen m then []
      else game_boxes m ox oy (scrollOffset m (maxVisibleGames m)) 0
        (take (nat (maxVisibleGames m)) (drop (nat (scrollOffset m (maxVisibleGames m))) (m_games m))))
    \<and> screenful P content"
proof -
  let ?c = "replicate (nat contentRows) []"
  have c: "screenful P ?c" using assms by (simp add: screenful_def all_lines_def list_all_iff)
  have lines: "\<exists>c. fill_lines lg st 0 ls ?c = Some c \<and> screenful P c"
    if "set ls \<subseteq> set (aboutLines version) \<union> set guestAboutLines \<union> set (alphaLines m)" for st ls
    using that assms by (intro fill_lines_draws c) (auto simp: all_lines_def)
  have alpha: "\<exists>c. fill_lines lg st 0 (alphaLines m) ?c = Some c \<and> screenful P c" for st by (rule lines) auto
  have about: "\<exists>c. fillAbout lg version m ?c = Some c \<and> screenful P c"
    unfolding fillAbout_def by (rule lines) auto
  show ?thesis
    using alpha [of "alphaStyle m"] about fillMenu_draws [OF assms c, of ox oy "[]"]
    by (auto simp: fill_content_def fillAlphaWarn_def hits_Add_def hits_Reset_def Let_def)
qed

section \<open>The hit test\<close>

lemma find_box_map:
  assumes "\<And>j. j < n \<Longrightarrow> box_contains (f j) x y \<longleftrightarrow> Q \<and> j = k"
  shows "find_box (rev (map f [0..<n])) x y = (if Q \<and> k < n then Some (f k) else None)"
  using assms by (induction n) (auto simp: less_Suc_eq)

text \<open>
  The game whose row is under a cell: the cell lies between the borders, in one of the two lines of a
  visible game.
\<close>

definition ox_of :: "'p LobbyModel \<Rightarrow> int" where
  "ox_of m = (m_width m - frameW) div 2"

definition oy_of :: "'p LobbyModel \<Rightarrow> int" where
  "oy_of m = (m_height m - frameH) div 2"

definition row_at :: "'p LobbyModel \<Rightarrow> int \<Rightarrow> int \<Rightarrow> int option" where
  "row_at m x y =
     (let first = scrollOffset m (maxVisibleGames m); line = y - (oy_of m + 1 + gamesOrigin m); k = line div 2
      in if ox_of m + 1 \<le> x \<and> x < ox_of m + 1 + innerW \<and> 0 \<le> line \<and> k < maxVisibleGames m
            \<and> first + k < int (length (m_games m))
         then Some (first + k) else None)"

lemma game_boxes_At:
  fixes m :: "'p LobbyModel"
  defines "first \<equiv> scrollOffset m (maxVisibleGames m)"
  shows "hits_At (game_boxes m (ox_of m) (oy_of m) first 0 (take (nat (maxVisibleGames m)) (drop (nat first) (m_games m)))) x y =
     map_option (\<lambda>idx. game_box (ox_of m) (oy_of m) (gamesOrigin m + (idx - first) * 2) idx (m_games m ! nat idx)) (row_at m x y)"
proof -
  let ?gs = "take (nat (maxVisibleGames m)) (drop (nat first) (m_games m))"
  let ?l = "y - (oy_of m + 1 + gamesOrigin m)"
  let ?Q = "ox_of m + 1 \<le> x \<and> x < ox_of m + 1 + innerW \<and> 0 \<le> ?l"
  let ?f = "\<lambda>j. game_box (ox_of m) (oy_of m) (gamesOrigin m + (0 + int j) * 2) (first + (0 + int j)) (?gs ! j)"
  have lim: "0 < maxVisibleGames m" using origin_cases [of m] by auto
  have f: "0 \<le> first" using scroll_range [OF lim, of m] by (simp add: first_def)
  have c: "box_contains (?f j) x y \<longleftrightarrow> ?Q \<and> j = nat (?l div 2)" for j
    by (auto simp: box_contains_def game_box_def)
  have "hits_At (game_boxes m (ox_of m) (oy_of m) first 0 ?gs) x y = find_box (rev (map ?f [0..<length ?gs])) x y"
    by (simp only: hits_At_def game_boxes_def)
  also have "\<dots> = (if ?Q \<and> nat (?l div 2) < length ?gs then Some (?f (nat (?l div 2))) else None)"
    by (rule find_box_map) (rule c)
  also have "\<dots> = map_option (\<lambda>idx. game_box (ox_of m) (oy_of m) (gamesOrigin m + (idx - first) * 2) idx (m_games m ! nat idx)) (row_at m x y)"
  proof (cases "row_at m x y")
    case None
    then show ?thesis using f lim by (auto simp: row_at_def Let_def first_def [symmetric] split: if_splits)
  next
    case (Some idx)
    then have i: "idx = first + ?l div 2" "?Q" "?l div 2 < maxVisibleGames m" "first + ?l div 2 < int (length (m_games m))"
      by (auto simp: row_at_def Let_def first_def [symmetric] split: if_splits)
    then have "0 \<le> ?l div 2" by simp
    then have "nat (?l div 2) < length ?gs" "?gs ! nat (?l div 2) = m_games m ! nat idx"
      using i f by (auto simp: nat_add_distrib)
    with Some i \<open>0 \<le> ?l div 2\<close> show ?thesis by simp
  qed
  finally show ?thesis .
qed

text \<open>Scrolling keeps the selected game among the visible ones.\<close>

lemma cursor_visible:
  assumes "lobby_inv m" "m_games m \<noteq> []"
  shows "scrollOffset m (maxVisibleGames m) \<le> m_cursor m
    \<and> m_cursor m < scrollOffset m (maxVisibleGames m) + maxVisibleGames m"
  using assms origin_cases [of m] by (cases "m_games m") (auto simp: lobby_inv_def scrollOffset_def Let_def)

section \<open>Widths\<close>

text \<open>The characters the program draws with that take one cell each.\<close>

definition narrow_rune :: "rune \<Rightarrow> bool" where
  "narrow_rune r \<longleftrightarrow>
     0x20 \<le> r \<and> r \<le> 0x7E
     \<or> r \<in> {0xB7, 0xD7, 0x2014, 0x2019, 0x2026, 0x2191, 0x2193, 0x2500, 0x2502, 0x250C, 0x2510, 0x2514, 0x2518,
             0x2588, 0x25B8, 0x25C7, 0x25CB, 0x25CF}"

definition narrow :: "string \<Rightarrow> bool" where
  "narrow s \<longleftrightarrow> string_of_runes (runes s) = s \<and> list_all narrow_rune (runes s)"

definition cells :: "string \<Rightarrow> int" where
  "cells s = int (length (runes s))"

text \<open>
  What the terminal library promises about texts of such characters: styles take no cells, and every
  character takes one. A segment is a text with the style it is rendered in, if any.
\<close>

definition segs :: "lipgloss \<Rightarrow> (style option \<times> string) list \<Rightarrow> string" where
  "segs lg ss = concat (map (\<lambda>(st, t). case st of None \<Rightarrow> t | Some st \<Rightarrow> Render lg st t) ss)"

definition lipgloss_ok :: "lipgloss \<Rightarrow> bool" where
  "lipgloss_ok lg \<longleftrightarrow>
     (\<forall>ss. list_all (narrow \<circ> snd) ss \<longrightarrow> lg_Width lg (segs lg ss) = sum_list (map (cells \<circ> snd) ss))"

lemma narrow_valid: "narrow_rune r \<Longrightarrow> valid_rune r"
  by (auto simp: narrow_rune_def valid_rune_def)

lemma runes_of_narrow: "list_all narrow_rune rs \<Longrightarrow> runes (string_of_runes rs @ s) = rs @ runes s"
  by (rule runes_encode) (auto simp: list_all_iff narrow_valid)

lemma string_of_runes_append [simp]: "string_of_runes (rs @ ts) = string_of_runes rs @ string_of_runes ts"
  by (simp add: string_of_runes_def)

lemma runes_Nil [simp]: "runes [] = []"
  by (simp add: runes_def)

lemma narrow_of_runes: "list_all narrow_rune rs \<Longrightarrow> narrow (string_of_runes rs) \<and> cells (string_of_runes rs) = int (length rs)"
  using runes_of_narrow [of rs "[]"] by (simp add: narrow_def cells_def)

lemma narrow_append:
  assumes "narrow s" "narrow t"
  shows "narrow (s @ t)" "cells (s @ t) = cells s + cells t"
proof -
  have "runes (s @ t) = runes s @ runes t"
    using assms runes_of_narrow [of "runes s" t] by (simp add: narrow_def)
  with assms show "narrow (s @ t)" "cells (s @ t) = cells s + cells t" by (simp_all add: narrow_def cells_def)
qed

lemma narrow_Nil [simp]: "narrow []" "cells [] = 0"
  by (simp_all add: narrow_def cells_def string_of_runes_def)

lemma encode_eq: "encode_rune r = string_of_runes [r]"
  by (simp add: string_of_runes_def)

lemma narrow_encode: "narrow_rune r \<Longrightarrow> narrow (encode_rune r) \<and> cells (encode_rune r) = 1"
  using narrow_of_runes [of "[r]"] by (simp add: string_of_runes_def)

lemma narrow_ellipsis: "narrow ellipsis" "cells ellipsis = 1"
  by (simp_all add: ellipsis_def narrow_encode narrow_rune_def)

lemma fit_narrow: "narrow s \<Longrightarrow> narrow (fit s w)"
  using narrow_append(1) [OF _ narrow_ellipsis(1), of "string_of_runes (take (nat (w - 1)) (runes s))"]
    narrow_of_runes [of "take (nat (w - 1)) (runes s)"]
  by (auto simp: fit_def Let_def narrow_ellipsis narrow_def [of s] list_all_take)

lemma fit_cells: "narrow s \<Longrightarrow> cells (fit s w) \<le> max 0 w"
proof -
  assume s: "narrow s"
  let ?t = "string_of_runes (take (nat (w - 1)) (runes s))"
  have t: "narrow ?t" "cells ?t = int (length (take (nat (w - 1)) (runes s)))"
    using narrow_of_runes [of "take (nat (w - 1)) (runes s)"] s by (auto simp: narrow_def list_all_take)
  show ?thesis
    using t narrow_append(2) [OF t(1) narrow_ellipsis(1)]
    by (auto simp: fit_def Let_def narrow_ellipsis cells_def [of s])
qed

lemma Width_segs: "lipgloss_ok lg \<Longrightarrow> list_all (narrow \<circ> snd) ss \<Longrightarrow> lg_Width lg (segs lg ss) = sum_list (map (cells \<circ> snd) ss)"
  by (simp add: lipgloss_ok_def)

lemma segs_Nil [simp]: "segs lg [] = []"
  by (simp add: segs_def)

lemma segs_append: "segs lg (ss @ ts) = segs lg ss @ segs lg ts"
  by (simp add: segs_def)

lemma segs_one: "segs lg [(None, t)] = t" "segs lg [(Some st, t)] = Render lg st t"
  by (simp_all add: segs_def)

text \<open>A line of known width: segments of one-cell characters that add up to it.\<close>

definition line_of :: "lipgloss \<Rightarrow> int \<Rightarrow> string \<Rightarrow> bool" where
  "line_of lg w s \<longleftrightarrow> (\<exists>ss. s = segs lg ss \<and> list_all (narrow \<circ> snd) ss \<and> sum_list (map (cells \<circ> snd) ss) = w)"

lemma line_append: "line_of lg v s \<Longrightarrow> line_of lg w t \<Longrightarrow> line_of lg (v + w) (s @ t)"
  unfolding line_of_def by (metis (no_types, lifting) segs_append list_all_append map_append sum_list_append)

lemma line_Render: "narrow t \<Longrightarrow> line_of lg (cells t) (Render lg st t)"
  unfolding line_of_def by (intro exI [of _ "[(Some st, t)]"]) (simp add: segs_one)

lemma line_plain: "narrow t \<Longrightarrow> line_of lg (cells t) t"
  unfolding line_of_def by (intro exI [of _ "[(None, t)]"]) (simp add: segs_one)

lemma line_Width: "lipgloss_ok lg \<Longrightarrow> line_of lg w s \<Longrightarrow> lg_Width lg s = w"
  by (auto simp: line_of_def Width_segs)

lemma Width_plain: "lipgloss_ok lg \<Longrightarrow> narrow t \<Longrightarrow> lg_Width lg t = cells t"
  using line_Width line_plain by blast

lemma Width_Render: "lipgloss_ok lg \<Longrightarrow> narrow t \<Longrightarrow> lg_Width lg (Render lg st t) = cells t"
  using line_Width line_Render by blast

lemma chr_space: "chr 32 = CHR '' ''"
  by code_simp

lemma spaces_runes: "replicate n (CHR '' '') = string_of_runes (replicate n 32)"
  by (induction n) (simp_all add: string_of_runes_def encode_rune_ascii chr_space)

lemma narrow_spaces: "narrow (replicate n (CHR '' ''))" "cells (replicate n (CHR '' '')) = int n"
  using narrow_of_runes [of "replicate n 32"] by (simp_all add: spaces_runes narrow_rune_def list_all_iff)

lemma line_spaces: "line_of lg (int n) (replicate n (CHR '' ''))"
  using line_plain [OF narrow_spaces(1), of lg n] narrow_spaces(2) [of n] by simp

text \<open>A row that fits between the borders.\<close>

definition row_ok :: "lipgloss \<Rightarrow> string \<Rightarrow> bool" where
  "row_ok lg s \<longleftrightarrow> (\<exists>w. line_of lg w s \<and> 0 \<le> w \<and> w \<le> innerW)"

lemma cells_nonneg [simp]: "0 \<le> cells s"
  by (simp add: cells_def)

lemma padLine_ok:
  assumes "lipgloss_ok lg" "row_ok lg s"
  shows "\<exists>p. padLine lg s = Some p \<and> line_of lg innerW p"
proof -
  obtain w where w: "line_of lg w s" "0 \<le> w" "w \<le> innerW" using assms(2) by (auto simp: row_ok_def)
  have "padLine lg s = Some (s @ replicate (nat (innerW - w)) (CHR '' ''))"
    using line_Width [OF assms(1) w(1)] w(3) by (simp add: padLine_def Let_def concat_spaces)
  moreover have "line_of lg innerW (s @ replicate (nat (innerW - w)) (CHR '' ''))"
    using line_append [OF w(1) line_spaces, of "nat (innerW - w)"] w(3) by simp
  ultimately show ?thesis by blast
qed

lemma row_indented: "narrow t \<Longrightarrow> cells t \<le> innerW - rowIndent \<Longrightarrow> row_ok lg (indented (Render lg st t))"
  using line_append [OF line_spaces [of lg 3] line_Render [of t lg st]]
  unfolding row_ok_def by (intro exI [of _ "3 + cells t"]) (simp add: layout_defs)

lemma row_fit: "narrow s \<Longrightarrow> row_ok lg (indented (Render lg st (fit s (innerW - rowIndent))))"
  using fit_cells [of s "innerW - rowIndent"] by (intro row_indented fit_narrow) (simp_all add: layout_defs)

text \<open>The texts of the program itself.\<close>

lemma runes_Cons_ascii: "byte c < 0x80 \<Longrightarrow> runes (c # s) = byte c # runes s"
  by (simp add: runes_def chunks_Cons_ascii del: chunks.simps(2))

lemma narrow_Cons:
  assumes "32 \<le> byte c \<and> byte c \<le> 126"
  shows "narrow (c # s) \<longleftrightarrow> narrow s" "cells (c # s) = 1 + cells s"
  using assms by (simp_all add: narrow_def cells_def runes_Cons_ascii string_of_runes_def encode_rune_ascii)
    (simp add: narrow_rune_def)

lemma narrow_symbols:
  "narrow emdash" "cells emdash = 1" "narrow middot" "cells middot = 1"
  "narrow_rune r \<Longrightarrow> narrow (encode_rune r)" "narrow_rune r \<Longrightarrow> cells (encode_rune r) = 1"
  by (auto simp: emdash_def middot_def narrow_encode narrow_rune_def)

lemmas narrow_text = narrow_append narrow_symbols narrow_Cons narrow_rune_def

lemma notice_narrow:
  "narrow keyed_notice" "cells keyed_notice = 57" "narrow guest_notice" "cells guest_notice = 56"
  "narrow ''ssh-keygen -t ed25519''" "cells ''ssh-keygen -t ed25519'' = 21"
  by (simp_all add: keyed_notice_def guest_notice_def narrow_text)

lemma border_narrow:
  "narrow keybar" "cells keybar = 53" "narrow topLeft" "cells topLeft = 3" "narrow topRight" "cells topRight = 2"
  "narrow bottomLeft" "cells bottomLeft = 2" "narrow bottomRight" "cells bottomRight = 2"
  "narrow hostLabel" "cells hostLabel = 13" "narrow ''SSHARCADE''" "cells ''SSHARCADE'' = 9" "narrow vline" "cells vline = 1"
  "narrow '' ''" "cells '' '' = 1" "narrow hline" "cells hline = 1"
  by (simp_all add: keybar_def topLeft_def topRight_def bottomLeft_def bottomRight_def hostLabel_def vline_def hline_def narrow_text)

lemma about_narrow: "narrow version \<Longrightarrow> list_all narrow (aboutLines version)"
  by (simp add: aboutLines_def hostLabel_def narrow_text)

lemma guest_about_narrow: "list_all narrow guestAboutLines"
  by (simp add: guestAboutLines_def hostLabel_def narrow_text)

lemma chr_quote: "chr 39 = CHR 0x27"
  by code_simp

lemma alpha_narrow: "(\<And>g. m_alphaGame m = Some g \<Longrightarrow> narrow (g_Name (gs_Game g))) \<Longrightarrow> list_all narrow (alphaLines m)"
  by (cases "m_alphaGame m") (simp_all add: alphaLines_def alphaCheckboxLine_def continueLine_def fit_narrow chr_quote narrow_text)

section \<open>Rows fit\<close>

definition game_texts :: "GameStatus \<Rightarrow> bool" where
  "game_texts g \<longleftrightarrow>
     narrow (g_Name (gs_Game g)) \<and> narrow (g_Tagline (gs_Game g)) \<and> list_all narrow (g_Descriptors (gs_Game g))
     \<and> narrow (g_Version (gs_Game g)) \<and> narrow (gs_DetectedVersion g)"

text \<open>The texts of a model are drawn with one-cell characters, and its flash fits on a row.\<close>

definition texts_ok :: "'p LobbyModel \<Rightarrow> bool" where
  "texts_ok m \<longleftrightarrow>
     list_all game_texts (m_games m) \<and> narrow (n_Title (m_notice m)) \<and> narrow (n_Message (m_notice m))
     \<and> narrow (m_fingerprint m) \<and> narrow (m_flash m) \<and> cells (m_flash m) \<le> innerW
     \<and> (\<forall>g. m_alphaGame m = Some g \<longrightarrow> narrow (g_Name (gs_Game g)))"

lemma join_narrow: "narrow sep \<Longrightarrow> list_all narrow xs \<Longrightarrow> narrow (join sep xs)"
  by (induction sep xs rule: join.induct) (auto simp: narrow_append)

lemma game_desc_narrow: "game_texts g \<Longrightarrow> narrow (game_desc g)"
  by (simp add: game_texts_def game_desc_def versionLabel_def Let_def join_narrow narrow_text)

lemma row_of_line: "line_of lg w s \<Longrightarrow> 0 \<le> w \<Longrightarrow> w \<le> innerW \<Longrightarrow> row_ok lg s"
  by (auto simp: row_ok_def)

lemma line_two: "line_of lg 2 (encode_rune r @ '' '')" "line_of lg 2 (Render lg st (encode_rune r @ '' ''))" if "narrow_rune r"
  using that line_plain [of "encode_rune r @ '' ''" lg] line_Render [of "encode_rune r @ '' ''" lg st]
  by (simp_all add: narrow_append narrow_symbols border_narrow)

lemma nameLine_ok:
  assumes "game_texts g"
  shows "\<exists>line. game_nameLine lg g sel = Some line \<and> row_ok lg line"
proof -
  let ?t = "if gs_Online g then g_Tagline (gs_Game g) else ''OFFLINE '' @ emdash @ '' back soon''"
  let ?cur = "if sel then Render lg styleCursor (encode_rune 0x25B8 @ '' '') else ''  ''"
  let ?dot = "if gs_Online g then Render lg styleOnline (encode_rune 0x25CF @ '' '') else Render lg styleOffline (encode_rune 0x25CB @ '' '')"
  let ?n = "fit (g_Name (gs_Game g)) nameColWidth" and ?u = "fit ?t 56"
  have nt: "narrow ?t" using assms by (simp add: game_texts_def narrow_text)
  have nn: "narrow (g_Name (gs_Game g))" using assms by (simp add: game_texts_def)
  have cur: "line_of lg 2 ?cur" using line_spaces [of lg 2] by (simp add: line_two narrow_rune_def numeral_2_eq_2)
  have dot: "line_of lg 2 ?dot" by (simp add: line_two narrow_rune_def)
  have sp: "line_of lg 1 '' ''" using line_spaces [of lg 1] by simp
  have line: "line_of lg (3 + (2 + (2 + (cells ?n + (1 + cells ?u))))) (indented (?cur @ ?dot @ Render lg st ?n @ '' '' @ Render lg su ?u))" for st su
    by (intro line_append line_spaces [of lg 3, simplified] cur dot sp line_Render fit_narrow nt nn)
  have "cells ?n \<le> 14" "cells ?u \<le> 56"
    using fit_cells [OF nn, of nameColWidth] fit_cells [OF nt, of 56] by (simp_all add: layout_defs)
  then have w: "0 \<le> 3 + (2 + (2 + (cells ?n + (1 + cells ?u))))" "3 + (2 + (2 + (cells ?n + (1 + cells ?u)))) \<le> innerW"
    using cells_nonneg [of ?n] cells_nonneg [of ?u] by (auto simp: innerW_def frameW_def)
  have "row_ok lg (indented (?cur @ ?dot @ Render lg st ?n @ '' '' @ Render lg su ?u))" for st su
    by (rule row_of_line [OF line w])
  then show ?thesis by (simp add: game_nameLine_def Let_def layout_defs)
qed

lemma descLine_ok:
  assumes "lipgloss_ok lg" "game_texts g"
  shows "\<exists>line. game_descLine lg guest g = Some line \<and> row_ok lg line"
proof -
  let ?ds = "if gs_Online g then styleDesc else styleOffline"
  let ?mark = "if g_AllowGuests (gs_Game g) then ''GUEST OK'' else ''KEY REQUIRED''"
  let ?policy = "if guest then Render lg styleGuest ?mark @ Render lg ?ds ('' '' @ middot @ '' '') else []"
  let ?pw = "if guest then cells ?mark + 3 else 0"
  have mark: "narrow ?mark" "cells ?mark \<le> 12" by (simp_all add: narrow_text)
  have dot: "narrow ('' '' @ middot @ '' '')" "cells ('' '' @ middot @ '' '') = 3" by (simp_all add: narrow_text)
  have p: "line_of lg ?pw ?policy"
    using line_append [OF line_Render [OF mark(1), of lg styleGuest] line_Render [OF dot(1), of lg ?ds]] line_plain [of "[]" lg] dot(2)
    by simp
  have pw: "0 \<le> ?pw" "?pw \<le> 15" using mark(2) by auto
  have w: "lg_Width lg ?policy = ?pw" by (rule line_Width [OF assms(1) p])
  let ?d = "fit (game_desc g) (innerW - rowIndent - 4 - ?pw)"
  have nd: "narrow ?d" "cells ?d \<le> 71 - ?pw"
    using fit_narrow [OF game_desc_narrow [OF assms(2)]] fit_cells [OF game_desc_narrow [OF assms(2)], of "innerW - rowIndent - 4 - ?pw"] pw
    by (simp_all add: layout_defs)
  have "line_of lg (7 + (?pw + cells ?d)) (replicate 7 (CHR '' '') @ ?policy @ Render lg ?ds ?d)"
    using line_append [OF line_spaces [of lg 7] line_append [OF p line_Render [OF nd(1), of lg ?ds]]] by simp
  then have "row_ok lg (replicate 7 (CHR '' '') @ ?policy @ Render lg ?ds ?d)"
    by (rule row_of_line) (use nd(2) pw cells_nonneg [of ?d] in \<open>auto simp: layout_defs\<close>)
  moreover have "game_descLine lg guest g = Some (replicate 7 (CHR '' '') @ ?policy @ Render lg ?ds ?d)"
    using w by (auto simp: game_descLine_def Let_def layout_defs)
  ultimately show ?thesis by blast
qed

lemma flashLine_ok: "lipgloss_ok lg \<Longrightarrow> texts_ok m \<Longrightarrow> row_ok lg (flashLine lg m)"
proof -
  assume lg: "lipgloss_ok lg" and t: "texts_ok m"
  have n: "narrow (m_flash m)" "cells (m_flash m) \<le> innerW" using t by (auto simp: texts_ok_def)
  let ?k = "nat (max ((innerW - cells (m_flash m)) div 2) 0)"
  have "line_of lg (int ?k + cells (m_flash m)) (flashLine lg m)"
    using line_append [OF line_spaces [of lg ?k] line_Render [OF n(1), of lg styleFlash]] Width_Render [OF lg n(1)]
    by (simp add: flashLine_def Let_def)
  then show ?thesis by (rule row_of_line) (use n(2) in auto)
qed

lemma fingerLine_ok:
  assumes "lipgloss_ok lg" "narrow s" "cells s \<le> innerW"
  shows "row_ok lg (fingerLine lg st s)"
proof -
  let ?k = "nat (max (innerW - cells s - 2) 0)"
  have "line_of lg (int ?k + cells s) (fingerLine lg st s)"
    using line_append [OF line_spaces [of lg ?k] line_Render [OF assms(2), of lg st]] Width_Render [OF assms(1,2)]
    by (simp add: fingerLine_def Let_def)
  then show ?thesis by (rule row_of_line) (use assms(3) in auto)
qed

lemma finger_texts:
  assumes "narrow fp"
  shows "narrow (''key '' @ fit fp 24)" "cells (''key '' @ fit fp 24) \<le> innerW" "narrow ''Guest Account''" "cells ''Guest Account'' \<le> innerW"
  using fit_narrow [OF assms, of 24] fit_cells [OF assms, of 24] by (simp_all add: narrow_text layout_defs)

lemma all_lines_row_ok:
  assumes "lipgloss_ok lg" "narrow version" "texts_ok m"
  shows "all_lines (row_ok lg) lg version m"
proof -
  have "row_ok lg []" using line_plain [of "[]" lg] by (intro row_of_line [of lg 0]) (simp_all add: layout_defs)
  moreover have "game_lines (row_ok lg) lg m g" if "g \<in> set (m_games m)" for g
    using that assms nameLine_ok [of g lg] descLine_ok [of lg g] by (auto simp: game_lines_def texts_ok_def list_all_iff)
  moreover have "row_ok lg (indented (Render lg st (fit s (innerW - rowIndent))))"
    if "s \<in> {n_Title (m_notice m), n_Message (m_notice m)} \<union> set (aboutLines version) \<union> set guestAboutLines \<union> set (alphaLines m)" for st s
    using that assms about_narrow [OF assms(2)] guest_about_narrow alpha_narrow [of m]
    by (intro row_fit) (auto simp: texts_ok_def list_all_iff)
  moreover have "row_ok lg (indented (Render lg st s))" if "s \<in> {keyed_notice, guest_notice, ''ssh-keygen -t ed25519''}" for st s
    using that by (intro row_indented) (auto simp: notice_narrow layout_defs)
  ultimately show ?thesis
    using flashLine_ok [OF assms(1,3)] fingerLine_ok [OF assms(1)] finger_texts [of "m_fingerprint m"] assms(3)
    by (simp add: all_lines_def texts_ok_def)
qed

section \<open>The frame\<close>

lemma dashes_narrow: "narrow (concat (replicate n hline)) \<and> cells (concat (replicate n hline)) = int n"
  by (induction n) (simp_all add: narrow_append border_narrow)

lemma dashed_narrow:
  "narrow ('' '' @ concat (replicate n hline) @ '' '')" "cells ('' '' @ concat (replicate n hline) @ '' '') = int n + 2"
  using dashes_narrow [of n] narrow_append [OF border_narrow(17) narrow_append(1) [OF _ border_narrow(17)]]
    narrow_append(2) [OF _ border_narrow(17)] border_narrow(18)
  by (metis, simp add: border_narrow dashes_narrow)

lemma topBorder_ok:
  assumes "lipgloss_ok lg"
  shows "\<exists>s. topBorder lg = Some s \<and> line_of lg frameW s"
proof -
  have w: "lg_Width lg topLeft = 3" "lg_Width lg topRight = 2" using assms by (simp_all add: Width_plain border_narrow)
  have "line_of lg (3 + (9 + (53 + (13 + 2)))) (Render lg styleFrame topLeft @ Render lg styleTitle ''SSHARCADE''
      @ Render lg styleFrame ('' '' @ concat (replicate 51 hline) @ '' '') @ Render lg styleHost hostLabel @ Render lg styleFrame topRight)"
    using line_Render [OF border_narrow(3), of lg styleFrame] line_Render [OF border_narrow(13), of lg styleTitle]
      line_Render [OF dashed_narrow(1) [of 51], of lg styleFrame] line_Render [OF border_narrow(11), of lg styleHost]
      line_Render [OF border_narrow(5), of lg styleFrame]
    unfolding border_narrow dashed_narrow by (intro line_append) simp_all
  then show ?thesis by (simp add: topBorder_def w Let_def frameW_def hostLabel_def)
qed

lemma bottomBorder_ok:
  assumes "lipgloss_ok lg"
  shows "\<exists>s. bottomBorder lg m = Some s \<and> line_of lg frameW s"
proof -
  let ?cur = "if m_blink m then encode_rune 0x2588 else '' ''"
  have cur: "narrow ?cur" "cells ?cur = 1" by (simp_all add: narrow_text)
  have w: "lg_Width lg bottomLeft = 2" "lg_Width lg bottomRight = 2" "lg_Width lg keybar = 53" "lg_Width lg ?cur = 1"
    using assms cur by (simp_all add: Width_plain border_narrow)
  have "line_of lg (2 + (53 + (22 + (1 + 2)))) (Render lg styleFrame bottomLeft @ Render lg styleKeybar keybar
      @ Render lg styleFrame ('' '' @ concat (replicate 20 hline) @ '' '') @ Render lg styleBlink ?cur @ Render lg styleFrame bottomRight)"
    using line_Render [OF border_narrow(7), of lg styleFrame] line_Render [OF border_narrow(1), of lg styleKeybar]
      line_Render [OF dashed_narrow(1) [of 20], of lg styleFrame] line_Render [OF cur(1), of lg styleBlink]
      line_Render [OF border_narrow(9), of lg styleFrame]
    unfolding border_narrow dashed_narrow cur(2) by (intro line_append) simp_all
  then show ?thesis using w(4) by (simp add: bottomBorder_def w Let_def frameW_def)
qed

lemma padLine_total: "\<exists>p. padLine lg s = Some p"
  by (simp add: padLine_def Let_def)

lemma frame_rows_total: "\<exists>s. frame_rows lg margin content = Some s"
proof (induction content)
  case (Cons line content)
  then show ?case using padLine_total [of lg line] by auto
qed simp

lemma frame_rows_ok:
  assumes "lipgloss_ok lg" "list_all (row_ok lg) content" "line_of lg (int n) margin"
  shows "\<exists>ls. frame_rows lg margin content = Some (concat (map (\<lambda>l. l @ [chr 10]) ls)) \<and> length ls = length content
    \<and> list_all (line_of lg (int n + frameW)) ls"
  using assms(2)
proof (induction content)
  case (Cons line content)
  then obtain ls where ls: "frame_rows lg margin content = Some (concat (map (\<lambda>l. l @ [chr 10]) ls))" "length ls = length content"
    "list_all (line_of lg (int n + frameW)) ls" by auto
  obtain p where p: "padLine lg line = Some p" "line_of lg innerW p" using padLine_ok [OF assms(1)] Cons.prems by auto
  let ?l = "margin @ Render lg styleFrame vline @ p @ Render lg styleFrame vline"
  have "line_of lg (int n + (1 + (innerW + 1))) ?l"
    using line_Render [OF border_narrow(15), of lg styleFrame] p(2) assms(3)
    unfolding border_narrow by (intro line_append)
  then have "line_of lg (int n + frameW) ?l" by (simp add: innerW_def)
  with ls p show ?case by (intro exI [of _ "?l # ls"]) simp
qed simp

lemma all_lines_True: "all_lines (\<lambda>_. True) lg version m"
  by (simp add: all_lines_def game_lines_def game_nameLine_def game_descLine_def Let_def layout_defs)

text \<open>\<open>viewFrame\<close> in terms of the rows of the content, for a terminal that is large enough.\<close>

lemma viewFrame_hits:
  assumes "lipgloss_ok lg" "frameW \<le> m_width m" "frameH \<le> m_height m"
  shows "\<exists>body. viewFrame lg version m = Some (body,
      if m_alphaOpen m then [alpha_box (ox_of m) (oy_of m) 6 ''alpha:check'', alpha_box (ox_of m) (oy_of m) 8 ''alpha:continue'']
      else if m_aboutOpen m then []
      else game_boxes m (ox_of m) (oy_of m) (scrollOffset m (maxVisibleGames m)) 0
        (take (nat (maxVisibleGames m)) (drop (nat (scrollOffset m (maxVisibleGames m))) (m_games m))))"
proof -
  have o: "0 \<le> ox_of m" "0 \<le> oy_of m" using assms(2,3) by (simp_all add: ox_of_def oy_of_def)
  obtain content where "fill_content lg version m (ox_of m) (oy_of m) = Some (content,
      if m_alphaOpen m then [alpha_box (ox_of m) (oy_of m) 6 ''alpha:check'', alpha_box (ox_of m) (oy_of m) 8 ''alpha:continue'']
      else if m_aboutOpen m then []
      else game_boxes m (ox_of m) (oy_of m) (scrollOffset m (maxVisibleGames m)) 0
        (take (nat (maxVisibleGames m)) (drop (nat (scrollOffset m (maxVisibleGames m))) (m_games m))))"
    using fill_content_draws [OF all_lines_True] by blast
  then show ?thesis
    using topBorder_ok [OF assms(1)] bottomBorder_ok [OF assms(1), of m] o
      frame_rows_total [of lg "concat (replicate (nat (ox_of m)) '' '')" content]
    by (auto simp: viewFrame_def Let_def ox_of_def [symmetric] oy_of_def [symmetric])
qed

lemma join_lines: "ls \<noteq> [] \<Longrightarrow> concat (map (\<lambda>l. l @ [chr 10]) ls) @ t = join [chr 10] (ls @ [t])"
proof (induction ls)
  case (Cons l ls)
  then show ?case by (cases ls) simp_all
qed simp

lemma viewFrame_lines:
  assumes "lipgloss_ok lg" "narrow version" "texts_ok m" "frameW \<le> m_width m" "frameH \<le> m_height m"
  shows "\<exists>ls hits. viewFrame lg version m = Some (replicate (nat (oy_of m)) (chr 10) @ join [chr 10] ls, hits)
    \<and> length ls = nat frameH \<and> list_all (line_of lg (ox_of m + frameW)) ls"
proof -
  have o: "0 \<le> ox_of m" "0 \<le> oy_of m" using assms(4,5) by (simp_all add: ox_of_def oy_of_def)
  let ?margin = "replicate (nat (ox_of m)) (CHR '' '')"
  obtain content hits where c: "fill_content lg version m (ox_of m) (oy_of m) = Some (content, hits)" "screenful (row_ok lg) content"
    using fill_content_draws [OF all_lines_row_ok [OF assms(1-3)]] by blast
  have margin: "line_of lg (int (nat (ox_of m))) ?margin" by (rule line_spaces)
  obtain ls where ls: "frame_rows lg ?margin content = Some (concat (map (\<lambda>l. l @ [chr 10]) ls))" "length ls = length content"
    "list_all (line_of lg (int (nat (ox_of m)) + frameW)) ls"
    using frame_rows_ok [OF assms(1) _ margin, of content] c(2) by (auto simp: screenful_def)
  obtain t b where t: "topBorder lg = Some t" "line_of lg frameW t" and b: "bottomBorder lg m = Some b" "line_of lg frameW b"
    using topBorder_ok [OF assms(1)] bottomBorder_ok [OF assms(1), of m] by blast
  have len: "length ls = 22" using c(2) ls(2) by (simp add: screenful_def layout_defs)
  let ?ls = "(?margin @ t) # ls @ [?margin @ b]"
  have "list_all (line_of lg (ox_of m + frameW)) ?ls"
    using line_append [OF margin t(2)] line_append [OF margin b(2)] ls(3) o by simp
  moreover have "viewFrame lg version m = Some (replicate (nat (oy_of m)) (chr 10) @ join [chr 10] ?ls, hits)"
    using c(1) t(1) b(1) ls(1) o join_lines [of "(?margin @ t) # ls" "?margin @ b"]
    by (simp add: viewFrame_def Let_def ox_of_def [symmetric] oy_of_def [symmetric] concat_spaces)
  ultimately show ?thesis using len by (intro exI [of _ ?ls] exI [of _ hits]) (simp add: layout_defs)
qed

section \<open>Properties\<close>

text \<open>A library that renders without styles and counts characters keeps the promise.\<close>

definition plain_lipgloss :: lipgloss where
  "plain_lipgloss = \<lparr>lg_Render = (\<lambda>_ s. s), lg_Width = cells, lg_Place = (\<lambda>_ _ s. s), lg_Screen = (\<lambda>_ _ _ s. s)\<rparr>"

lemma plain_lipgloss_ok: "lipgloss_ok plain_lipgloss"
proof -
  have "list_all (narrow \<circ> snd) ss \<Longrightarrow> narrow (segs plain_lipgloss ss)
      \<and> cells (segs plain_lipgloss ss) = sum_list (map (cells \<circ> snd) ss)" for ss
    by (induction ss) (auto simp: segs_def plain_lipgloss_def Render_def narrow_append split: option.split)
  then show ?thesis by (simp add: lipgloss_ok_def plain_lipgloss_def)
qed

definition example_menu :: "unit LobbyModel" where
  "example_menu =
     NewLobby \<lparr>e_now = 0, e_now2 = 0, e_games = [example_status ''farm'' True True, example_status ''mine'' False True], e_games2 = [], e_notice = zero_Notice\<rparr>
       False False False ''SHA256:abc'' None 100 30 0 [] False"

lemma example_menu_simps:
  "m_width example_menu = 100" "m_height example_menu = 30" "\<not> m_alphaOpen example_menu" "\<not> m_aboutOpen example_menu"
  "m_games example_menu = [example_status ''farm'' True True, example_status ''mine'' False True]" "m_cursor example_menu = 0"
  "m_notice example_menu = zero_Notice" "m_flash example_menu = []" "m_alphaGame example_menu = None"
  "m_fingerprint example_menu = ''SHA256:abc''"
  by (simp_all add: example_menu_def NewLobby_eq refreshBanner_def refreshGames_def Let_def)

text \<open>
  (C22) Drawing never panics: whatever the model holds, games, texts, cursor and window size included,
  \<open>View\<close> makes no out-of-range access and no negative repetition and yields a view, provided the
  terminal library measures the texts of the program itself by their characters. In a terminal
  that is too small nothing can be clicked.
\<close>

theorem View_total:
  assumes "lipgloss_ok lg"
  shows "\<exists>v hits. View lg version m = Some (v, hits) \<and> (m_width m < frameW \<or> m_height m < frameH \<longrightarrow> hits = [])"
  using viewFrame_hits [OF assms, of m version]
  by (cases "m_width m < frameW \<or> m_height m < frameH") (auto simp: View_def hits_Reset_def)

theorem View_total_witness:
  "\<exists>v hits. View plain_lipgloss ''dev'' example_menu = Some (v, hits)"
  using View_total [OF plain_lipgloss_ok, of "''dev''" example_menu] by blast

lemma View_hits_At:
  assumes "lipgloss_ok lg" and "frameW \<le> m_width m" "frameH \<le> m_height m" and "\<not> m_alphaOpen m" "\<not> m_aboutOpen m"
    and "View lg version m = Some (v, hits)"
  shows "hits_At hits x y =
     map_option (\<lambda>idx. game_box (ox_of m) (oy_of m) (gamesOrigin m + (idx - scrollOffset m (maxVisibleGames m)) * 2) idx
       (m_games m ! nat idx)) (row_at m x y)"
proof -
  have "hits = game_boxes m (ox_of m) (oy_of m) (scrollOffset m (maxVisibleGames m)) 0
      (take (nat (maxVisibleGames m)) (drop (nat (scrollOffset m (maxVisibleGames m))) (m_games m)))"
    using viewFrame_hits [OF assms(1-3), of version] assms(2-6) by (auto simp: View_def)
  then show ?thesis by (simp add: game_boxes_At)
qed



lemma activate_cursor [simp]: "m_cursor (fst (activate has e m)) = m_cursor m"
  by (auto simp: activate_def launchGame_def setFlash_def split: sum.split)

text \<open>
  A click selects what it points at. In a menu that has just been drawn the selected game is on
  the screen; a left click on a visible game's row selects exactly that game, and a click elsewhere
  changes nothing.
\<close>

theorem click_selects:
  assumes "lipgloss_ok lg" and "frameW \<le> m_width m" "frameH \<le> m_height m" and "\<not> m_alphaOpen m" "\<not> m_aboutOpen m"
    and "View lg version m = Some (v, hits)" and "lobby_inv m"
  shows "(m_games m \<noteq> [] \<longrightarrow> (\<exists>x y. row_at m x y = Some (m_cursor m)))
    \<and> (\<forall>idx. row_at m x y = Some idx \<longrightarrow> m_cursor (fst (handleClick has ack e MouseLeft x y (m\<lparr>m_hits := hits\<rparr>))) = idx)
    \<and> (row_at m x y = None \<longrightarrow> handleClick has ack e MouseLeft x y (m\<lparr>m_hits := hits\<rparr>) = (m\<lparr>m_hits := hits\<rparr>, NoCmd))"
proof -
  let ?first = "scrollOffset m (maxVisibleGames m)"
  note hit = View_hits_At [OF assms(1-6), of x y]
  have range: "row_at m x y = Some idx \<Longrightarrow> 0 \<le> idx \<and> idx < int (length (m_games m))" for idx
    using scroll_range [of "maxVisibleGames m" m] origin_cases [of m] by (auto simp: row_at_def Let_def split: if_splits)
  have "row_at m (ox_of m + 1) (oy_of m + 1 + gamesOrigin m + (m_cursor m - ?first) * 2) = Some (m_cursor m)" if "m_games m \<noteq> []"
    using cursor_visible [OF assms(7) that] assms(7) that by (cases "m_games m") (auto simp: row_at_def Let_def lobby_inv_def layout_defs)
  then show ?thesis
    using hit range assms(4,5) by (auto simp: handleClick_def game_box_def Let_def)
qed

theorem click_selects_witness:
  "\<exists>v hits. View plain_lipgloss ''dev'' example_menu = Some (v, hits)
     \<and> m_cursor (fst (handleClick (\<lambda>_ _. False) (\<lambda>p _. p) (example_env [] 5) MouseLeft 40 8 (example_menu\<lparr>m_hits := hits\<rparr>))) = 1"
proof -
  have s: "frameW \<le> m_width example_menu" "frameH \<le> m_height example_menu" by (simp_all add: example_menu_simps layout_defs)
  obtain v hits where v: "View plain_lipgloss ''dev'' example_menu = Some (v, hits)"
    using viewFrame_hits [OF plain_lipgloss_ok s, of "''dev''"] s by (auto simp: View_def)
  have inv: "lobby_inv example_menu" by (simp add: lobby_inv_def example_menu_simps)
  have "row_at example_menu 40 8 = Some 1"
    by (simp add: row_at_def ox_of_def oy_of_def gamesOrigin_def maxVisibleGames_def scrollOffset_def
        example_menu_simps zero_Notice_def layout_defs Let_def)
  then show ?thesis using v click_selects [OF plain_lipgloss_ok s example_menu_simps(3,4) v inv] by blast
qed



text \<open>
  A flash is not cut to the row: one that is wider than the interior is drawn at full width and
  pushes the right border out of its column.
\<close>

lemma flash_overflows:
  assumes "lipgloss_ok lg" "narrow (m_flash m)" "innerW < cells (m_flash m)"
  shows "padLine lg (flashLine lg m) = Some (flashLine lg m) \<and> innerW < lg_Width lg (flashLine lg m)"
  using assms(3) Width_Render [OF assms(1,2), of styleFlash]
  by (simp add: padLine_def flashLine_def Let_def)

end
