(* ===== verification/Identity.thy ===== *)
theory Identity
  imports Proxyproto
begin

text \<open>
  \<^verbatim>\<open>internal/identity\<close>: the identity of an authenticated lobby shell, keyed or guest. Guest
  tokens are drawn from \<^verbatim>\<open>crypto/rand\<close>; the 16 bytes drawn are an argument of the model.

  Shown: the constructors produce valid identities, the zero value and every mixture of keyed and
  guest fields are invalid, and presence keys of guests and of keyed players never collide.
\<close>

section \<open>Model\<close>

datatype Kind = Invalid | Keyed | Guest

record Identity =
  id_Kind :: Kind
  id_Fingerprint :: string
  id_Slot :: string
  id_GuestID :: string
  id_PublicKey :: "PublicKey option"

text \<open>The zero value of the struct: what a session without a stored identity yields.\<close>

definition zero_Identity :: Identity where
  "zero_Identity = \<lparr>id_Kind = Invalid, id_Fingerprint = [], id_Slot = [], id_GuestID = [],
     id_PublicKey = None\<rparr>"

definition NewKeyed :: "PublicKey option \<Rightarrow> string \<Rightarrow> Identity" where
  "NewKeyed key user =
     (let slot = SanitizeSlot user; slot' = (if slot = [] then DefaultSlot else slot)
      in zero_Identity\<lparr>id_Kind := Keyed, id_Fingerprint := Fingerprint key, id_Slot := slot',
           id_PublicKey := key\<rparr>)"

definition NewToken :: "string \<Rightarrow> string" where
  "NewToken rnd = hex_EncodeToString rnd"

definition NewGuest :: "string \<Rightarrow> Identity" where
  "NewGuest rnd = zero_Identity\<lparr>id_Kind := Guest, id_GuestID := NewToken rnd\<rparr>"

definition ValidToken :: "string \<Rightarrow> bool" where
  "ValidToken s \<longleftrightarrow> length s = 32 \<and> list_all lower_hex s"

datatype identity_error = InvalidLobbyIdentity

text \<open>\<^verbatim>\<open>Validate\<close> returns nil (\<open>None\<close>) or an error.\<close>

definition Validate :: "Identity \<Rightarrow> identity_error option" where
  "Validate i =
     (case id_Kind i of
        Keyed \<Rightarrow>
          if id_PublicKey i \<noteq> None \<and> id_Fingerprint i = Fingerprint (id_PublicKey i)
             \<and> id_GuestID i = [] \<and> id_Slot i \<noteq> [] \<and> id_Slot i = SanitizeSlot (id_Slot i)
          then None else Some InvalidLobbyIdentity
      | Guest \<Rightarrow>
          if ValidToken (id_GuestID i) \<and> id_PublicKey i = None \<and> id_Fingerprint i = []
             \<and> id_Slot i = []
          then None else Some InvalidLobbyIdentity
      | Invalid \<Rightarrow> Some InvalidLobbyIdentity)"

definition PresenceKey :: "Identity \<Rightarrow> string" where
  "PresenceKey i =
     (if id_Kind i = Guest then ''guest:'' @ id_GuestID i else ''key:'' @ id_Fingerprint i)"

section \<open>Properties\<close>

lemma ValidToken_NewToken: "length rnd = 16 \<Longrightarrow> ValidToken (NewToken rnd)"
  by (simp add: ValidToken_def NewToken_def lower_hex_EncodeToString)

lemma NewKeyed_slot: "id_Slot (NewKeyed key user) = sent_slot user"
  by (simp add: NewKeyed_def sent_slot_def Let_def)

lemma Validate_NewKeyed: "Validate (NewKeyed (Some k) user) = None"
proof -
  have "validSlot (sent_slot user)" by (rule validSlot_sent)
  then have "SanitizeSlot (sent_slot user) = sent_slot user" "sent_slot user \<noteq> []"
    by (auto simp: SanitizeSlot_valid_fix validSlot_def)
  then show ?thesis
    by (simp add: Validate_def NewKeyed_slot) (simp add: NewKeyed_def Let_def zero_Identity_def)
qed

lemma Validate_NewGuest: "length rnd = 16 \<Longrightarrow> Validate (NewGuest rnd) = None"
  by (simp add: Validate_def NewGuest_def zero_Identity_def ValidToken_NewToken)

lemma Validate_keyed:
  "Validate i = None \<Longrightarrow> id_Kind i = Keyed \<Longrightarrow>
   \<exists>k. id_PublicKey i = Some k \<and> id_Fingerprint i = Fingerprint (Some k) \<and> id_GuestID i = []
       \<and> validSlot (id_Slot i)"
  using SanitizeSlot_valid [of "id_Slot i"]
  by (auto simp: Validate_def split: if_splits)

lemma Validate_guest:
  "Validate i = None \<Longrightarrow> id_Kind i = Guest \<Longrightarrow>
   ValidToken (id_GuestID i) \<and> id_PublicKey i = None \<and> id_Fingerprint i = [] \<and> id_Slot i = []"
  by (auto simp: Validate_def split: if_splits)

lemma Validate_kind: "Validate i = None \<Longrightarrow> id_Kind i = Keyed \<or> id_Kind i = Guest"
  by (cases "id_Kind i") (auto simp: Validate_def)

text \<open>
  Identities are valid exactly when they are wholly keyed or wholly guest: a keyed one has a
  key, the fingerprint of that very key, a valid slot and no token; a guest has a 32-digit token
  and neither key, fingerprint nor slot. So the constructors yield valid identities for any key,
  user name and token bytes, while the zero value and a keyed identity without a key are refused.
\<close>

theorem Validate_iff:
  assumes "length rnd = 16"
  shows "(Validate i = None \<longleftrightarrow>
      (id_Kind i = Keyed \<and> (\<exists>k. id_PublicKey i = Some k \<and> id_Fingerprint i = Fingerprint (Some k))
         \<and> validSlot (id_Slot i) \<and> id_GuestID i = [])
      \<or> (id_Kind i = Guest \<and> ValidToken (id_GuestID i) \<and> id_PublicKey i = None
         \<and> id_Fingerprint i = [] \<and> id_Slot i = []))
   \<and> Validate (NewKeyed (Some k) user) = None
   \<and> Validate (NewGuest rnd) = None
   \<and> Validate zero_Identity \<noteq> None \<and> Validate (NewKeyed None user) \<noteq> None"
proof (intro conjI)
  show "Validate i = None \<longleftrightarrow>
      (id_Kind i = Keyed \<and> (\<exists>k. id_PublicKey i = Some k \<and> id_Fingerprint i = Fingerprint (Some k))
         \<and> validSlot (id_Slot i) \<and> id_GuestID i = [])
      \<or> (id_Kind i = Guest \<and> ValidToken (id_GuestID i) \<and> id_PublicKey i = None
         \<and> id_Fingerprint i = [] \<and> id_Slot i = [])" (is "_ \<longleftrightarrow> ?keyed \<or> ?guest")
  proof
    assume "Validate i = None"
    then show "?keyed \<or> ?guest"
      using Validate_kind [of i] Validate_keyed [of i] Validate_guest [of i] by auto
  next
    assume "?keyed \<or> ?guest"
    then show "Validate i = None"
      by (auto simp: Validate_def SanitizeSlot_valid_fix) (auto simp: validSlot_def)
  qed
  show "Validate (NewKeyed (Some k) user) = None" by (rule Validate_NewKeyed)
  show "Validate (NewGuest rnd) = None" using assms by (rule Validate_NewGuest)
qed (simp_all add: Validate_def zero_Identity_def NewKeyed_def Let_def)

theorem Validate_iff_witness:
  "length (replicate 16 (CHR ''r'')) = 16
   \<and> Validate (NewGuest (replicate 16 (CHR ''r''))) = None \<and> Validate zero_Identity \<noteq> None"
proof -
  have h: "length (replicate 16 (CHR ''r'')) = 16" by simp
  show ?thesis using h Validate_iff [OF h] by blast
qed

text \<open>
  Presence keys separate players: two valid identities share a presence key only if both are
  keyed with the same fingerprint or both are guests with the same token, so a guest is never
  counted as a keyed player and two guests are never collapsed into one.
\<close>

theorem PresenceKey_separates:
  assumes "Validate a = None" and "Validate b = None"
  shows "PresenceKey a = PresenceKey b \<longleftrightarrow>
           id_Kind a = id_Kind b \<and> id_Fingerprint a = id_Fingerprint b \<and> id_GuestID a = id_GuestID b"
  using assms Validate_kind [of a] Validate_kind [of b]
    Validate_keyed [of a] Validate_keyed [of b] Validate_guest [of a] Validate_guest [of b]
  by (auto simp: PresenceKey_def)

theorem PresenceKey_separates_witness:
  "Validate (NewGuest (replicate 16 (CHR ''x''))) = None
   \<and> Validate (NewKeyed (Some \<lparr>key_Type = ''ssh-ed25519'', key_Marshal = ''k''\<rparr>) ''guest'') = None
   \<and> PresenceKey (NewGuest (replicate 16 (CHR ''x'')))
      \<noteq> PresenceKey (NewKeyed (Some \<lparr>key_Type = ''ssh-ed25519'', key_Marshal = ''k''\<rparr>) ''guest'')"
proof -
  have g: "Validate (NewGuest (replicate 16 (CHR ''x''))) = None"
    by (rule Validate_NewGuest) simp
  note k = Validate_NewKeyed [of "\<lparr>key_Type = ''ssh-ed25519'', key_Marshal = ''k''\<rparr>" "''guest''"]
  show ?thesis
    using g k PresenceKey_separates [OF g k]
    by (simp add: NewGuest_def NewKeyed_def zero_Identity_def Let_def)
qed

end
