(* ===== verification/Bridge.thy ===== *)
theory Bridge
  imports Identity Registry
begin

text \<open>
  \<^verbatim>\<open>internal/bridge/bridge.go\<close>: the connection from the router to a game. The SSH library and the game
  are arguments: what the TCP connect, the handshake and each request yield. The result of a visit
  is its error, if any, and what was sent to the game, in order.

  Shown: which failures count as an unreachable game and which as a refused or lost one, that the
  game decodes exactly the player's key fingerprint and slot from the user name, and that a guest
  is never taken for a keyed player and never reaches a game that is closed to guests.
\<close>

section \<open>Model\<close>

text \<open>The errors of the package as \<^verbatim>\<open>errors.Is\<close> and \<^verbatim>\<open>errors.As\<close> tell them apart.\<close>

datatype bridge_error = ErrDialFailed | ErrAccessRejected | ErrConnectionLost | ExitError int

datatype handshake = Established | TimedOut | HandshakeFailed

text \<open>
  The network: \<^verbatim>\<open>NewClientConn\<close> runs with a user name and a host key policy, \<open>None\<close> standing for
  \<^verbatim>\<open>InsecureIgnoreHostKey\<close> and \<open>Some k\<close> for \<^verbatim>\<open>FixedHostKey(k)\<close>.
\<close>

record dial_env =
  de_tcp :: bool
  de_deadline :: bool
  de_handshake :: "string \<Rightarrow> PublicKey option \<Rightarrow> handshake"
  de_clear :: bool

definition dialWithTimeout :: "dial_env \<Rightarrow> string \<Rightarrow> PublicKey option \<Rightarrow> bridge_error option" where
  "dialWithTimeout net user hostKey =
     (if \<not> de_tcp net then Some ErrDialFailed
      else if \<not> de_deadline net then Some ErrDialFailed
      else
        (case de_handshake net user hostKey of
           TimedOut \<Rightarrow> Some ErrDialFailed
         | HandshakeFailed \<Rightarrow> Some ErrAccessRejected
         | Established \<Rightarrow> if \<not> de_clear net then Some ErrAccessRejected else None))"

datatype wait_result = CleanExit | ExitStatus int | WaitFailed

record upstream =
  up_session :: bool
  up_stdin :: bool
  up_pty :: bool
  up_shell :: bool
  up_wait :: wait_result

record window =
  w_Width :: int
  w_Height :: int

text \<open>The player's session: terminal, window when the bridge starts and once the shell is up.\<close>

record player_session =
  ps_term :: string
  ps_window :: window
  ps_current :: window
  ps_hasPty :: bool

datatype sent =
    Dial string string "PublicKey option" int
  | Setenv string string
  | RequestPty string int int
  | Shell
  | WindowChange int int

definition EnvPlayerKey :: string where
  "EnvPlayerKey = ''ARCADE_PLAYER_KEY''"

definition bridge_user :: "Identity \<Rightarrow> string \<Rightarrow> string" where
  "bridge_user i token =
     (if id_Kind i = Guest then ''guest.'' @ token
      else Encode (case id_PublicKey i of None \<Rightarrow> [] | Some k \<Rightarrow> FingerprintBytes k) (id_Slot i))"

text \<open>
  \<^verbatim>\<open>Run\<close>: \<open>rnd\<close> are the random bytes of a guest's visit token and \<open>marshal\<close> is \<^verbatim>\<open>MarshalAuthorizedKey\<close>. The
  copying of bytes and of later window changes while the session runs is not part of the result.
\<close>

definition Run ::
    "dial_env \<Rightarrow> upstream \<Rightarrow> (PublicKey \<Rightarrow> string) \<Rightarrow> string \<Rightarrow> player_session \<Rightarrow> Game \<Rightarrow> int \<Rightarrow> Identity
     \<Rightarrow> bridge_error option \<times> sent list" where
  "Run net up marshal rnd sess game timeout i =
     (let dialTimeout = (if timeout \<le> 0 then 5000000000 else timeout) in
      if Validate i \<noteq> None then (Some ErrAccessRejected, [])
      else if id_Kind i = Guest \<and> \<not> g_AllowGuests game then (Some ErrAccessRejected, [])
      else
        (let user = bridge_user i (NewToken rnd);
             dial = [Dial (g_Addr game) user (g_HostKey game) dialTimeout]
         in case dialWithTimeout net user (g_HostKey game) of
              Some err \<Rightarrow> (Some err, dial)
            | None \<Rightarrow>
                if \<not> up_session up then (Some ErrAccessRejected, dial)
                else
                  (let env = (case (id_Kind i, id_PublicKey i) of
                                (Keyed, Some k) \<Rightarrow> [Setenv EnvPlayerKey (TrimSpace (marshal k))]
                              | _ \<Rightarrow> []);
                       pty = [RequestPty (ps_term sess) (w_Height (ps_window sess)) (w_Width (ps_window sess))];
                       size = (if ps_hasPty sess
                               then [WindowChange (w_Height (ps_current sess)) (w_Width (ps_current sess))] else [])
                   in if \<not> up_stdin up then (Some ErrAccessRejected, dial @ env)
                      else if \<not> up_pty up then (Some ErrAccessRejected, dial @ env @ pty)
                      else if \<not> up_shell up then (Some ErrAccessRejected, dial @ env @ pty @ [Shell])
                      else
                        ((case up_wait up of
                            CleanExit \<Rightarrow> None
                          | ExitStatus n \<Rightarrow> Some (ExitError n)
                          | WaitFailed \<Rightarrow> Some ErrConnectionLost),
                         dial @ env @ pty @ [Shell] @ size))))"

section \<open>Lemmas\<close>

text \<open>What a visit may do: it is allowed when the identity is valid and the game takes the player.\<close>

definition may_visit :: "Identity \<Rightarrow> Game \<Rightarrow> bool" where
  "may_visit i game \<longleftrightarrow> Validate i = None \<and> (id_Kind i = Guest \<longrightarrow> g_AllowGuests game)"

lemma Run_refused: "\<not> may_visit i game \<Longrightarrow> Run net up marshal rnd sess game timeout i = (Some ErrAccessRejected, [])"
  by (auto simp: Run_def may_visit_def Let_def)

lemma Run_dial_failed:
  "may_visit i game \<Longrightarrow> dialWithTimeout net (bridge_user i (NewToken rnd)) (g_HostKey game) = Some err \<Longrightarrow>
   fst (Run net up marshal rnd sess game timeout i) = Some err"
  by (auto simp: Run_def may_visit_def Let_def)

lemma Run_connected:
  "may_visit i game \<Longrightarrow> dialWithTimeout net (bridge_user i (NewToken rnd)) (g_HostKey game) = None \<Longrightarrow>
   fst (Run net up marshal rnd sess game timeout i) =
     (if up_session up \<and> up_stdin up \<and> up_pty up \<and> up_shell up then
        (case up_wait up of CleanExit \<Rightarrow> None | ExitStatus n \<Rightarrow> Some (ExitError n) | WaitFailed \<Rightarrow> Some ErrConnectionLost)
      else Some ErrAccessRejected)"
  by (auto simp: Run_def may_visit_def Let_def)

lemma Run_sent:
  "may_visit i game \<Longrightarrow>
   \<exists>rest. snd (Run net up marshal rnd sess game timeout i) =
       Dial (g_Addr game) (bridge_user i (NewToken rnd)) (g_HostKey game) (if timeout \<le> 0 then 5000000000 else timeout) # rest
     \<and> (\<forall>a u h d. Dial a u h d \<notin> set rest)
     \<and> (id_Kind i = Guest \<longrightarrow> (\<forall>n v. Setenv n v \<notin> set rest))"
  by (auto simp: Run_def may_visit_def Let_def split: option.splits Kind.splits wait_result.splits)

lemma guest_not_keyed: "Parse (''guest.'' @ s) = Inl WantHexThenDot"
  by (simp add: Parse_def fpHexLen_def)

section \<open>Properties\<close>


definition example_net :: dial_env where
  "example_net = \<lparr>de_tcp = True, de_deadline = True, de_handshake = (\<lambda>_ _. Established), de_clear = True\<rparr>"

definition example_game :: Game where
  "example_game = entry_game (\<lambda>_. None) (example_entry ''farm'' ''IDLE FARMER'' 10)"

definition example_session :: player_session where
  "example_session =
     \<lparr>ps_term = ''xterm'', ps_window = \<lparr>w_Width = 80, w_Height = 24\<rparr>, ps_current = \<lparr>w_Width = 80, w_Height = 24\<rparr>, ps_hasPty = True\<rparr>"


lemma Run_announces:
  assumes "may_visit i game"
  shows "\<exists>user rest. snd (Run net up marshal rnd sess game timeout i) =
        Dial (g_Addr game) user (g_HostKey game) (if timeout \<le> 0 then 5000000000 else timeout) # rest
      \<and> (\<forall>a u h d. Dial a u h d \<notin> set rest)
      \<and> (id_Kind i = Keyed \<longrightarrow>
            (\<exists>k. id_PublicKey i = Some k \<and> Parse user = Inr (FingerprintBytes k, id_Slot i)
               \<and> id_Fingerprint i = ''SHA256:'' @ RawStdEncoding (FingerprintBytes k)))
      \<and> (id_Kind i = Guest \<longrightarrow>
            user = ''guest.'' @ hex_EncodeToString rnd \<and> Parse user = Inl WantHexThenDot
            \<and> (\<forall>n v. Setenv n v \<notin> set rest))"
proof -
  let ?user = "bridge_user i (NewToken rnd)"
  obtain rest where rest: "snd (Run net up marshal rnd sess game timeout i) =
      Dial (g_Addr game) ?user (g_HostKey game) (if timeout \<le> 0 then 5000000000 else timeout) # rest"
    "\<forall>a u h d. Dial a u h d \<notin> set rest" "id_Kind i = Guest \<longrightarrow> (\<forall>n v. Setenv n v \<notin> set rest)"
    using Run_sent [OF assms] by blast
  have v: "Validate i = None" using assms by (simp add: may_visit_def)
  have "\<exists>k. id_PublicKey i = Some k \<and> Parse ?user = Inr (FingerprintBytes k, id_Slot i)
      \<and> id_Fingerprint i = ''SHA256:'' @ RawStdEncoding (FingerprintBytes k)" if kind: "id_Kind i = Keyed"
  proof -
    obtain k where k: "id_PublicKey i = Some k" "id_Fingerprint i = Fingerprint (Some k)" "validSlot (id_Slot i)"
      using Validate_keyed [OF v kind] by blast
    have "sent_slot (id_Slot i) = id_Slot i"
      using k(3) SanitizeSlot_valid_fix [OF k(3)] by (auto simp: sent_slot_def validSlot_def)
    then have "?user = hex_EncodeToString (FingerprintBytes k) @ CHR ''.'' # id_Slot i"
      using kind k(1) by (simp add: bridge_user_def Encode_eq)
    moreover have "length (FingerprintBytes k) = 32" by (simp add: FingerprintBytes_def)
    ultimately show ?thesis using k Parse_hex by (auto simp: Fingerprint_def)
  qed
  then show ?thesis
    using rest guest_not_keyed [of "hex_EncodeToString rnd"] by (auto simp: bridge_user_def NewToken_def)
qed

text \<open>
  (C14) The game is told who plays. A keyed player's visit begins with exactly one connection, under
  a user name from which the game decodes the SHA-256 fingerprint of the player's very key and the
  player's slot. A guest's user name never decodes as a keyed one, carries the token of this visit
  alone, and no key is sent along with it.
\<close>

theorem Run_identity:
  assumes "may_visit i game"
  shows "\<exists>user rest. snd (Run net up marshal rnd sess game timeout i) =
        Dial (g_Addr game) user (g_HostKey game) (if timeout \<le> 0 then 5000000000 else timeout) # rest
      \<and> (\<forall>a u h d. Dial a u h d \<notin> set rest)
      \<and> (id_Kind i = Keyed \<longrightarrow>
            (\<exists>k. id_PublicKey i = Some k \<and> Parse user = Inr (FingerprintBytes k, id_Slot i)
               \<and> id_Fingerprint i = ''SHA256:'' @ RawStdEncoding (FingerprintBytes k)))
      \<and> (id_Kind i = Guest \<longrightarrow>
            user = ''guest.'' @ hex_EncodeToString rnd \<and> Parse user = Inl WantHexThenDot
            \<and> (\<forall>n v. Setenv n v \<notin> set rest))"
  by (rule Run_announces [OF assms])

theorem Run_identity_witness:
  "\<exists>user rest. snd (Run example_net \<lparr>up_session = True, up_stdin = True, up_pty = True, up_shell = True, up_wait = CleanExit\<rparr>
       (\<lambda>_. []) (replicate 16 (CHR ''x'')) example_session example_game 0 (NewGuest (replicate 16 (CHR ''y'')))) =
     Dial ''farm:22'' user None 5000000000 # rest \<and> Parse user = Inl WantHexThenDot"
proof -
  have m: "may_visit (NewGuest (replicate 16 (CHR ''y''))) example_game"
    using Validate_NewGuest [of "replicate 16 (CHR ''y'')"]
    by (simp add: may_visit_def example_game_def example_entry_def)
  have g: "g_Addr example_game = ''farm:22''" "g_HostKey example_game = None"
    "id_Kind (NewGuest (replicate 16 (CHR ''y''))) = Guest"
    by (simp_all add: example_game_def example_entry_def entry_game_def game_of_def NewGuest_def)
  from Run_identity [OF m, of example_net "\<lparr>up_session = True, up_stdin = True, up_pty = True, up_shell = True, up_wait = CleanExit\<rparr>"
      "\<lambda>_. []" "replicate 16 (CHR ''x'')" example_session 0]
  show ?thesis unfolding g by (elim exE conjE, intro exI conjI) (simp, simp)
qed

end
