(* ===== verification/Pump.thy ===== *)
theory Pump
  imports Bridge "HOL-Library.Sublist"
begin

text \<open>
  \<^verbatim>\<open>internal/server/pump.go\<close>: the goroutines that own a session's input and its window changes and hand
  them to whichever side is active; and \<^verbatim>\<open>cursorDownWriter\<close> of \<^verbatim>\<open>teaprogram.go\<close>. A pump's goroutine and the
  handler run concurrently: every critical section and every channel operation is a step, and what
  the goroutine holds in its local variables between two of them is part of the state.

  Shown: the consumer attached to the window pump always has the latest size, pending or received,
  so a resize during a switch is never lost; no operation sends on or closes a closed channel; every
  chunk of input goes, whole and in order, to at most one destination; and an attach that falls
  between the end of the loop and the closing of \<^verbatim>\<open>done\<close> gets a channel nobody ever closes.
\<close>

section \<open>Window changes\<close>

text \<open>A channel of capacity one: what is in it, whether it is open, what its consumer received last.\<close>

record wchan =
  wc_buf :: "window option"
  wc_open :: bool
  wc_seen :: "window option"

text \<open>Where the pump's goroutine is: waiting for a resize, about to deliver one, closing, finished.\<close>

datatype loop_pc = Receiving | Delivering "nat option" window | Releasing "nat option" | Finished

record winchPump =
  wp_dst :: "nat option"
  wp_latest :: window
  wp_has :: bool
  wp_done :: bool
  wp_pc :: loop_pc
  wp_chans :: "nat \<rightharpoonup> wchan"
  wp_next :: nat

definition newWinchPump :: winchPump where
  "newWinchPump =
     \<lparr>wp_dst = None, wp_latest = \<lparr>w_Width = 0, w_Height = 0\<rparr>, wp_has = False, wp_done = False,
      wp_pc = Receiving, wp_chans = Map.empty, wp_next = 0\<rparr>"

text \<open>
  \<^verbatim>\<open>deliver\<close> tries to send and, when the buffer is full, to take the stale event out, until a send
  succeeds. The consumer may take the event before either attempt of a round; the schedule says
  when it does, and \<open>None\<close> is a loop that has not ended within it.
\<close>

definition take_event :: "wchan \<Rightarrow> wchan" where
  "take_event ch = (case wc_buf ch of Some w \<Rightarrow> ch\<lparr>wc_buf := None, wc_seen := Some w\<rparr> | None \<Rightarrow> ch)"

fun deliver_loop :: "(bool \<times> bool) list \<Rightarrow> wchan \<Rightarrow> window \<Rightarrow> wchan option" where
  "deliver_loop [] ch w = None"
| "deliver_loop ((before_send, before_drain) # sched) ch w =
     (let ch1 = (if before_send then take_event ch else ch) in
      case wc_buf ch1 of
        None \<Rightarrow> Some (ch1\<lparr>wc_buf := Some w\<rparr>)
      | Some _ \<Rightarrow>
          (let ch2 = (if before_drain then take_event ch1 else ch1)
           in deliver_loop sched (ch2\<lparr>wc_buf := None\<rparr>) w))"

text \<open>
  Its effect, which is one step of the machine below: the stale event, if the consumer has not taken
  it, is replaced. \<open>None\<close> is a send on a closed channel.
\<close>

definition deliver :: "wchan \<Rightarrow> window \<Rightarrow> wchan option" where
  "deliver ch w = (if wc_open ch then Some (ch\<lparr>wc_buf := Some w\<rparr>) else None)"

text \<open>The steps of the goroutine: take a resize under the lock, deliver it, end, close, signal the end.\<close>

definition loop_take :: "winchPump \<Rightarrow> window \<Rightarrow> winchPump" where
  "loop_take p w = p\<lparr>wp_latest := w, wp_has := True, wp_pc := Delivering (wp_dst p) w\<rparr>"

definition loop_deliver :: "winchPump \<Rightarrow> winchPump option" where
  "loop_deliver p =
     (case wp_pc p of
        Delivering None w \<Rightarrow> Some (p\<lparr>wp_pc := Receiving\<rparr>)
      | Delivering (Some c) w \<Rightarrow>
          (case wp_chans p c of
             None \<Rightarrow> None
           | Some ch \<Rightarrow>
               map_option (\<lambda>ch'. p\<lparr>wp_pc := Receiving, wp_chans := (wp_chans p)(c \<mapsto> ch')\<rparr>) (deliver ch w))
      | _ \<Rightarrow> Some p)"

definition loop_end :: "winchPump \<Rightarrow> winchPump" where
  "loop_end p = p\<lparr>wp_dst := None, wp_pc := Releasing (wp_dst p)\<rparr>"

definition loop_release :: "winchPump \<Rightarrow> winchPump option" where
  "loop_release p =
     (case wp_pc p of
        Releasing (Some c) \<Rightarrow>
          (case wp_chans p c of
             None \<Rightarrow> None
           | Some ch \<Rightarrow>
               if wc_open ch
               then Some (p\<lparr>wp_pc := Finished, wp_done := True, wp_chans := (wp_chans p)(c \<mapsto> ch\<lparr>wc_open := False\<rparr>)\<rparr>)
               else None)
      | Releasing None \<Rightarrow> Some (p\<lparr>wp_pc := Finished, wp_done := True\<rparr>)
      | _ \<Rightarrow> Some p)"

definition Attach :: "winchPump \<Rightarrow> nat \<times> winchPump" where
  "Attach p =
     (let c = wp_next p;
          ch = \<lparr>wc_buf = None, wc_open = True, wc_seen = None\<rparr>
      in if wp_done p
         then (c, p\<lparr>wp_chans := (wp_chans p)(c \<mapsto> ch\<lparr>wc_open := False\<rparr>), wp_next := Suc c\<rparr>)
         else (c, p\<lparr>wp_dst := Some c, wp_next := Suc c,
                    wp_chans := (wp_chans p)(c \<mapsto> (if wp_has p then ch\<lparr>wc_buf := Some (wp_latest p)\<rparr> else ch))\<rparr>))"

definition Detach :: "winchPump \<Rightarrow> winchPump" where
  "Detach p = p\<lparr>wp_dst := None\<rparr>"

text \<open>A consumer takes the pending event from its channel.\<close>

definition consume :: "winchPump \<Rightarrow> nat \<Rightarrow> winchPump" where
  "consume p c =
     (case wp_chans p c of
        Some ch \<Rightarrow>
          (case wc_buf ch of
             Some w \<Rightarrow> p\<lparr>wp_chans := (wp_chans p)(c \<mapsto> ch\<lparr>wc_buf := None, wc_seen := Some w\<rparr>)\<rparr>
           | None \<Rightarrow> p)
      | None \<Rightarrow> p)"

inductive winch_step :: "winchPump \<Rightarrow> winchPump \<Rightarrow> bool" where
  w_take: "wp_pc p = Receiving \<Longrightarrow> winch_step p (loop_take p w)"
| w_deliver: "loop_deliver p = Some p' \<Longrightarrow> winch_step p p'"
| w_end: "wp_pc p = Receiving \<Longrightarrow> winch_step p (loop_end p)"
| w_release: "loop_release p = Some p' \<Longrightarrow> winch_step p p'"
| w_attach: "winch_step p (snd (Attach p))"
| w_detach: "winch_step p (Detach p)"
| w_consume: "winch_step p (consume p c)"

inductive_cases winch_stepE: "winch_step p p'"

text \<open>The latest size is pending in a channel, or the last thing its consumer received.\<close>

definition up_to_date :: "winchPump \<Rightarrow> nat \<Rightarrow> bool" where
  "up_to_date p c \<longleftrightarrow>
     (case wp_chans p c of
        None \<Rightarrow> False
      | Some ch \<Rightarrow> (case wc_buf ch of Some w \<Rightarrow> w = wp_latest p | None \<Rightarrow> wc_seen ch = Some (wp_latest p)))"

definition target :: "winchPump \<Rightarrow> nat option" where
  "target p = (case wp_pc p of Delivering c _ \<Rightarrow> c | Releasing c \<Rightarrow> c | _ \<Rightarrow> None)"

definition open_chan :: "winchPump \<Rightarrow> nat \<Rightarrow> bool" where
  "open_chan p c \<longleftrightarrow> (case wp_chans p c of None \<Rightarrow> False | Some ch \<Rightarrow> wc_open ch)"

definition winch_inv :: "winchPump \<Rightarrow> bool" where
  "winch_inv p \<longleftrightarrow>
     (\<forall>c. wp_chans p c \<noteq> None \<longrightarrow> c < wp_next p)
     \<and> (\<forall>c. wp_dst p = Some c \<longrightarrow> open_chan p c)
     \<and> (\<forall>c. target p = Some c \<longrightarrow> open_chan p c)
     \<and> (\<forall>d w. wp_pc p = Delivering d w \<longrightarrow> w = wp_latest p \<and> wp_has p)
     \<and> (\<forall>d. wp_pc p = Releasing d \<longrightarrow> (\<forall>c. d = Some c \<longrightarrow> wp_dst p \<noteq> Some c))
     \<and> (wp_done p \<longleftrightarrow> wp_pc p = Finished)
     \<and> (\<forall>c. wp_dst p = Some c \<and> wp_has p \<and> target p \<noteq> Some c \<longrightarrow> up_to_date p c)"

lemmas winch_defs = winch_inv_def open_chan_def target_def up_to_date_def

lemma newWinchPump_inv: "winch_inv newWinchPump"
  by (simp add: winch_defs newWinchPump_def)

lemma loop_take_inv: "winch_inv p \<Longrightarrow> wp_pc p = Receiving \<Longrightarrow> winch_inv (loop_take p w)"
  by (auto simp: winch_defs loop_take_def)

lemma loop_end_inv: "winch_inv p \<Longrightarrow> wp_pc p = Receiving \<Longrightarrow> winch_inv (loop_end p)"
  by (auto simp: winch_defs loop_end_def)

lemma Detach_inv: "winch_inv p \<Longrightarrow> winch_inv (Detach p)"
  by (auto simp: winch_defs Detach_def)

text \<open>Changing one channel leaves the others as they are.\<close>

lemma chan_upd:
  "open_chan (p\<lparr>wp_chans := (wp_chans p)(c \<mapsto> ch)\<rparr>) d = (if d = c then wc_open ch else open_chan p d)"
  "up_to_date (p\<lparr>wp_chans := (wp_chans p)(c \<mapsto> ch)\<rparr>) d =
     (if d = c then (case wc_buf ch of Some w \<Rightarrow> w = wp_latest p | None \<Rightarrow> wc_seen ch = Some (wp_latest p))
      else up_to_date p d)"
  by (simp_all add: open_chan_def up_to_date_def cong: option.case_cong)

lemma frame [simp]:
  "open_chan (p\<lparr>wp_pc := pc\<rparr>) d = open_chan p d" "up_to_date (p\<lparr>wp_pc := pc\<rparr>) d = up_to_date p d"
  "open_chan (p\<lparr>wp_done := b\<rparr>) d = open_chan p d" "up_to_date (p\<lparr>wp_done := b\<rparr>) d = up_to_date p d"
  "open_chan (p\<lparr>wp_dst := x\<rparr>) d = open_chan p d" "up_to_date (p\<lparr>wp_dst := x\<rparr>) d = up_to_date p d"
  "open_chan (p\<lparr>wp_next := n\<rparr>) d = open_chan p d" "up_to_date (p\<lparr>wp_next := n\<rparr>) d = up_to_date p d"
  by (simp_all add: open_chan_def up_to_date_def cong: option.case_cong)

lemma open_chanE:
  assumes "open_chan p c"
  obtains ch where "wp_chans p c = Some ch" "wc_open ch"
  using assms by (auto simp: open_chan_def split: option.splits)

lemma loop_deliver_inv:
  assumes "winch_inv p"
  shows "\<exists>p'. loop_deliver p = Some p' \<and> winch_inv p'"
proof (cases "\<exists>c w. wp_pc p = Delivering (Some c) w")
  case True
  then obtain c w where pc: "wp_pc p = Delivering (Some c) w" by blast
  then have "open_chan p c" "w = wp_latest p" "wp_has p" using assms by (auto simp: winch_inv_def target_def)
  then obtain ch where ch: "wp_chans p c = Some ch" "wc_open ch" by (blast elim: open_chanE)
  define q where "q = p\<lparr>wp_chans := (wp_chans p)(c \<mapsto> ch\<lparr>wc_buf := Some w\<rparr>)\<rparr>"
  have "loop_deliver p = Some (q\<lparr>wp_pc := Receiving\<rparr>)" using pc ch by (simp add: loop_deliver_def deliver_def q_def)
  moreover have "open_chan q d \<longleftrightarrow> d = c \<or> open_chan p d" "up_to_date q d \<longleftrightarrow> d = c \<or> up_to_date p d" for d
    using ch \<open>w = wp_latest p\<close> unfolding q_def chan_upd by auto
  then have "winch_inv (q\<lparr>wp_pc := Receiving\<rparr>)"
    using assms pc ch unfolding winch_inv_def target_def by (auto simp: q_def)
  ultimately show ?thesis by blast
next
  case False
  then have "loop_deliver p = Some (if \<exists>w. wp_pc p = Delivering None w then p\<lparr>wp_pc := Receiving\<rparr> else p)"
    by (auto simp: loop_deliver_def split: loop_pc.split option.split)
  then show ?thesis using assms by (auto simp: winch_inv_def target_def)
qed

lemma loop_release_inv:
  assumes "winch_inv p"
  shows "\<exists>p'. loop_release p = Some p' \<and> winch_inv p'"
proof (cases "\<exists>c. wp_pc p = Releasing (Some c)")
  case True
  then obtain c where pc: "wp_pc p = Releasing (Some c)" by blast
  then have "open_chan p c" using assms by (auto simp: winch_inv_def target_def)
  then obtain ch where ch: "wp_chans p c = Some ch" "wc_open ch" by (blast elim: open_chanE)
  define q where "q = p\<lparr>wp_chans := (wp_chans p)(c \<mapsto> ch\<lparr>wc_open := False\<rparr>)\<rparr>"
  have "loop_release p = Some (q\<lparr>wp_pc := Finished, wp_done := True\<rparr>)"
    using pc ch by (simp add: loop_release_def q_def)
  moreover have "d \<noteq> c \<Longrightarrow> open_chan q d = open_chan p d" "d \<noteq> c \<Longrightarrow> up_to_date q d = up_to_date p d" for d
    unfolding q_def chan_upd by auto
  then have "winch_inv (q\<lparr>wp_pc := Finished, wp_done := True\<rparr>)"
    using assms pc ch unfolding winch_inv_def target_def by (auto simp: q_def)
  ultimately show ?thesis by blast
next
  case False
  then have "loop_release p = Some (if wp_pc p = Releasing None then p\<lparr>wp_pc := Finished, wp_done := True\<rparr> else p)"
    by (auto simp: loop_release_def split: loop_pc.split option.split)
  then show ?thesis using assms by (auto simp: winch_inv_def target_def)
qed

lemma fresh_chan: "winch_inv p \<Longrightarrow> \<not> open_chan p (wp_next p)"
  by (auto simp: winch_inv_def open_chan_def split: option.split)

lemma Attach_inv:
  assumes "winch_inv p"
  shows "winch_inv (snd (Attach p))"
proof -
  let ?c = "wp_next p"
  define ch where "ch = \<lparr>wc_buf = (if wp_has p \<and> \<not> wp_done p then Some (wp_latest p) else None), wc_open = (\<not> wp_done p), wc_seen = None\<rparr>"
  define q where "q = p\<lparr>wp_chans := (wp_chans p)(?c \<mapsto> ch)\<rparr>"
  have eq: "snd (Attach p) = (if wp_done p then q\<lparr>wp_next := Suc ?c\<rparr> else q\<lparr>wp_dst := Some ?c, wp_next := Suc ?c\<rparr>)"
    by (simp add: Attach_def Let_def q_def ch_def)
  have old: "d \<noteq> ?c \<Longrightarrow> open_chan q d = open_chan p d" "d \<noteq> ?c \<Longrightarrow> up_to_date q d = up_to_date p d" for d
    unfolding q_def chan_upd by auto
  have new: "open_chan q ?c = (\<not> wp_done p)" "wp_has p \<Longrightarrow> \<not> wp_done p \<Longrightarrow> up_to_date q ?c"
    unfolding q_def chan_upd by (simp_all add: ch_def)
  have ne: "wp_dst p \<noteq> Some ?c" "target p \<noteq> Some ?c" using assms fresh_chan [OF assms] by (auto simp: winch_inv_def)
  have tq: "target (snd (Attach p)) = target p" by (simp add: eq target_def q_def)
  have lt: "d < Suc ?c" if "wp_chans q d \<noteq> None" for d
    using that assms by (auto simp: winch_inv_def q_def less_Suc_eq split: if_splits)
  have opn: "open_chan q d" if "open_chan p d" for d
    using that old fresh_chan [OF assms] by metis
  have upd: "up_to_date q d" if "up_to_date p d" "d \<noteq> ?c" for d using that old by metis
  have inv: "\<And>c. wp_dst p = Some c \<Longrightarrow> open_chan p c" "\<And>c. target p = Some c \<Longrightarrow> open_chan p c"
    "\<And>d w. wp_pc p = Delivering d w \<Longrightarrow> w = wp_latest p \<and> wp_has p"
    "\<And>d c. wp_pc p = Releasing d \<Longrightarrow> d = Some c \<Longrightarrow> wp_dst p \<noteq> Some c" "wp_done p \<longleftrightarrow> wp_pc p = Finished"
    "\<And>c. wp_dst p = Some c \<Longrightarrow> wp_has p \<Longrightarrow> target p \<noteq> Some c \<Longrightarrow> up_to_date p c"
    using assms unfolding winch_inv_def by blast+
  have rel: "wp_pc p = Releasing (Some c) \<Longrightarrow> c \<noteq> ?c" for c using ne(2) by (auto simp: target_def)
  show ?thesis
    unfolding winch_inv_def tq
    using lt opn upd inv new ne rel by (cases "wp_done p") (auto simp: eq q_def [symmetric], auto simp: q_def)
qed

lemma consume_inv:
  assumes "winch_inv p"
  shows "winch_inv (consume p c)"
proof (cases "\<exists>ch w. wp_chans p c = Some ch \<and> wc_buf ch = Some w")
  case True
  then obtain ch w where ch: "wp_chans p c = Some ch" "wc_buf ch = Some w" by blast
  define q where "q = p\<lparr>wp_chans := (wp_chans p)(c \<mapsto> ch\<lparr>wc_buf := None, wc_seen := Some w\<rparr>)\<rparr>"
  have q: "consume p c = q" using ch by (simp add: consume_def q_def)
  have "open_chan q d = open_chan p d" "up_to_date p d \<Longrightarrow> up_to_date q d" for d
    using ch unfolding q_def chan_upd by (auto simp: open_chan_def up_to_date_def)
  then show ?thesis using assms ch unfolding q winch_inv_def target_def by (auto simp: q_def)
next
  case False
  then have "consume p c = p" by (auto simp: consume_def split: option.split)
  then show ?thesis using assms by simp
qed

lemma winch_step_inv: "winch_inv p \<Longrightarrow> winch_step p p' \<Longrightarrow> winch_inv p'"
  by (erule winch_stepE)
    (use loop_deliver_inv loop_release_inv in \<open>fastforce simp: loop_take_inv loop_end_inv Attach_inv Detach_inv consume_inv\<close>)+

interpretation winch: machine "\<lambda>p. p = newWinchPump" winch_step winch_inv
  by unfold_locales (simp add: newWinchPump_inv, fact winch_step_inv)

section \<open>Input\<close>

text \<open>
  The input pump: where its goroutine is, the current destination, the pipes that were closed, the
  chunks read, and for every chunk handled what its destination got of it. Writing to a pipe
  delivers the whole chunk, unless the pipe is closed, which may cut it short.
\<close>

datatype input_pc = Reading | Writing "nat option" string | Ending | Ended

record inputPump =
  ip_dst :: "nat option"
  ip_pc :: input_pc
  ip_closed :: "nat set"
  ip_read :: "string list"
  ip_log :: "(nat option \<times> string) list"
  ip_done :: bool

definition newInputPump :: inputPump where
  "newInputPump = \<lparr>ip_dst = None, ip_pc = Reading, ip_closed = {}, ip_read = [], ip_log = [], ip_done = False\<rparr>"

definition SetDest :: "inputPump \<Rightarrow> nat option \<Rightarrow> inputPump" where
  "SetDest p d = p\<lparr>ip_dst := d\<rparr>"

definition input_take :: "inputPump \<Rightarrow> string \<Rightarrow> inputPump" where
  "input_take p chunk = p\<lparr>ip_pc := Writing (ip_dst p) chunk, ip_read := ip_read p @ [chunk]\<rparr>"

text \<open>\<open>n\<close> bytes reach the consumer before the pipe is closed, if it is.\<close>

definition input_write :: "inputPump \<Rightarrow> nat \<Rightarrow> inputPump" where
  "input_write p n =
     (case ip_pc p of
        Writing None chunk \<Rightarrow> p\<lparr>ip_pc := Reading, ip_log := ip_log p @ [(None, [])]\<rparr>
      | Writing (Some d) chunk \<Rightarrow>
          p\<lparr>ip_pc := Reading,
            ip_log := ip_log p @ [(Some d, if d \<in> ip_closed p then take n chunk else chunk)]\<rparr>
      | _ \<Rightarrow> p)"

definition close_pipe :: "inputPump \<Rightarrow> nat \<Rightarrow> inputPump" where
  "close_pipe p d = p\<lparr>ip_closed := insert d (ip_closed p)\<rparr>"

text \<open>The deferred calls at the end of the session: \<^verbatim>\<open>closeDest\<close>, then closing \<^verbatim>\<open>done\<close>.\<close>

definition closeDest :: "inputPump \<Rightarrow> inputPump" where
  "closeDest p =
     (case ip_dst p of None \<Rightarrow> p\<lparr>ip_pc := Ending\<rparr> | Some d \<Rightarrow> (close_pipe p d)\<lparr>ip_pc := Ending\<rparr>)"

definition input_done :: "inputPump \<Rightarrow> inputPump" where
  "input_done p = p\<lparr>ip_pc := Ended, ip_done := True\<rparr>"

inductive input_step :: "inputPump \<Rightarrow> inputPump \<Rightarrow> bool" where
  i_take: "ip_pc p = Reading \<Longrightarrow> chunk \<noteq> [] \<Longrightarrow> length chunk \<le> 1024 \<Longrightarrow> input_step p (input_take p chunk)"
| i_write: "input_step p (input_write p n)"
| i_dest: "input_step p (SetDest p d)"
| i_close: "input_step p (close_pipe p d)"
| i_eof: "ip_pc p = Reading \<Longrightarrow> input_step p (closeDest p)"
| i_done: "ip_pc p = Ending \<Longrightarrow> input_step p (input_done p)"

inductive_cases input_stepE: "input_step p p'"

text \<open>What is handled matches what was read, chunk by chunk; at most the last chunk is still on its way.\<close>

definition input_inv :: "inputPump \<Rightarrow> bool" where
  "input_inv p \<longleftrightarrow>
     (\<exists>handled. ip_read p = handled @ (case ip_pc p of Writing _ chunk \<Rightarrow> [chunk] | _ \<Rightarrow> [])
        \<and> list_all2 (\<lambda>(d, out) chunk. prefix out chunk \<and> (d = None \<longrightarrow> out = []) \<and> (\<forall>c. d = Some c \<and> c \<notin> ip_closed p \<longrightarrow> out = chunk))
            (ip_log p) handled)"

lemma input_take_inv: "input_inv p \<Longrightarrow> ip_pc p = Reading \<Longrightarrow> input_inv (input_take p chunk)"
  by (simp add: input_inv_def input_take_def)

lemma input_write_inv: "input_inv p \<Longrightarrow> input_inv (input_write p n)"
  by (auto simp: input_inv_def input_write_def list_all2_appendI take_is_prefix split: input_pc.splits option.splits)

lemma input_close_inv: "input_inv p \<Longrightarrow> input_inv (close_pipe p d)"
  by (auto simp: input_inv_def close_pipe_def elim!: list_all2_mono)

lemma SetDest_inv: "input_inv p \<Longrightarrow> input_inv (SetDest p d)"
  by (simp add: input_inv_def SetDest_def)

lemma pc_inv: "input_inv p \<Longrightarrow> ip_pc p = Reading \<or> ip_pc p = Ending \<Longrightarrow> pc = Ending \<or> pc = Ended \<Longrightarrow>
    input_inv (p\<lparr>ip_pc := pc, ip_done := b\<rparr>) \<and> input_inv (p\<lparr>ip_pc := pc\<rparr>)"
  by (auto simp: input_inv_def)

lemma closeDest_inv: "input_inv p \<Longrightarrow> ip_pc p = Reading \<Longrightarrow> input_inv (closeDest p)"
  using input_close_inv [of p] pc_inv [of "close_pipe p d" Ending b for d b] pc_inv [of p Ending]
  by (auto simp: closeDest_def close_pipe_def split: option.split)

lemma input_step_inv: "input_inv p \<Longrightarrow> input_step p p' \<Longrightarrow> input_inv p'"
  by (erule input_stepE)
    (simp_all add: input_take_inv input_write_inv SetDest_inv input_close_inv closeDest_inv input_done_def pc_inv)

interpretation input: machine "\<lambda>p. p = newInputPump" input_step input_inv
  by unfold_locales (simp add: input_inv_def newInputPump_def, fact input_step_inv)

section \<open>Newlines on Windows hosts\<close>

definition cursorDown :: string where
  "cursorDown = [chr 27, CHR ''['', CHR ''B'']"

text \<open>
  \<^verbatim>\<open>cursorDownWriter.Write\<close>: what is written to the session, and the result; \<open>inner\<close> is the result of the
  session's own \<^verbatim>\<open>Write\<close>, a count or an error.
\<close>

fun down_loop :: "string \<Rightarrow> string \<Rightarrow> string" where
  "down_loop buf [] = buf"
| "down_loop buf (b # bs) = (if b = chr 10 then down_loop (buf @ cursorDown) bs else down_loop (buf @ [b]) bs)"

definition cursorDownWriter_Write :: "(string \<Rightarrow> nat option) \<Rightarrow> string \<Rightarrow> string \<times> nat option" where
  "cursorDownWriter_Write inner p =
     (if chr 10 \<notin> set p then (p, inner p)
      else (let buf = down_loop [] p in (buf, case inner buf of None \<Rightarrow> None | Some _ \<Rightarrow> Some (length p))))"

lemma down_loop_eq: "down_loop buf p = buf @ concat (map (\<lambda>b. if b = chr 10 then cursorDown else [b]) p)"
  by (induction buf p rule: down_loop.induct) auto

lemma down_plain: "chr 10 \<notin> set p \<Longrightarrow> concat (map (\<lambda>b. if b = chr 10 then cursorDown else [b]) p) = p"
  by (induction p) auto

lemma cursorDown_no_lf: "chr 10 \<notin> set cursorDown"
  by code_simp

section \<open>Properties\<close>

text \<open>
  (C28) Window sizes are never lost. In every reachable state of the pump and its consumers no
  channel operation panics, and whenever the goroutine has nothing in flight for the attached
  consumer, that consumer has the latest size of the terminal in its channel or has received it as
  its newest one, also when it was attached in the middle of a resize.
\<close>

theorem winch_latest_delivered:
  assumes "winch_step\<^sup>*\<^sup>* newWinchPump p"
  shows "loop_deliver p \<noteq> None \<and> loop_release p \<noteq> None
    \<and> (\<forall>c. wp_dst p = Some c \<and> wp_has p \<and> target p \<noteq> Some c \<longrightarrow>
         (\<exists>ch. wp_chans p c = Some ch \<and> wc_open ch
            \<and> (wc_buf ch = Some (wp_latest p) \<or> wc_buf ch = None \<and> wc_seen ch = Some (wp_latest p))))"
proof -
  have inv: "winch_inv p" by (rule winch.reach_inv [OF refl assms])
  have "\<exists>ch. wp_chans p c = Some ch \<and> wc_open ch
      \<and> (wc_buf ch = Some (wp_latest p) \<or> wc_buf ch = None \<and> wc_seen ch = Some (wp_latest p))"
    if "wp_dst p = Some c" "wp_has p" "target p \<noteq> Some c" for c
  proof -
    have "open_chan p c" "up_to_date p c" using inv that by (auto simp: winch_inv_def)
    then show ?thesis by (auto simp: open_chan_def up_to_date_def split: option.splits)
  qed
  then show ?thesis using loop_deliver_inv [OF inv] loop_release_inv [OF inv] by auto
qed

theorem winch_latest_delivered_witness:
  "let w = \<lparr>w_Width = 100, w_Height = 30\<rparr>; p = snd (Attach (loop_take newWinchPump w))
   in winch_step\<^sup>*\<^sup>* newWinchPump p \<and> (\<exists>ch. wp_chans p 0 = Some ch \<and> wc_buf ch = Some w)"
proof -
  let ?w = "\<lparr>w_Width = 100, w_Height = 30\<rparr>"
  let ?q = "loop_take newWinchPump ?w"
  have "winch_step newWinchPump ?q" "winch_step ?q (snd (Attach ?q))"
    by (rule w_take, simp add: newWinchPump_def) (rule w_attach)
  then have st: "winch_step\<^sup>*\<^sup>* newWinchPump (snd (Attach ?q))" by simp
  have d: "wp_dst (snd (Attach ?q)) = Some 0" "wp_has (snd (Attach ?q))" "target (snd (Attach ?q)) \<noteq> Some 0"
    "wp_latest (snd (Attach ?q)) = ?w"
    by (simp_all add: Attach_def loop_take_def newWinchPump_def target_def Let_def)
  have "\<exists>ch. wp_chans (snd (Attach ?q)) 0 = Some ch \<and> wc_buf ch = Some ?w"
    by (simp add: Attach_def loop_take_def newWinchPump_def Let_def)
  with winch_latest_delivered [OF st] d st show ?thesis by (simp add: Let_def)
qed

text \<open>
  (C40) The delivery loop ends and does what it should: whatever the consumer does meanwhile, the loop
  is over after at most two rounds, and it has then replaced the pending event, before or after the
  consumer took it, as in one step.
\<close>

theorem deliver_terminates:
  assumes "2 \<le> length sched" and "wc_open ch"
  shows "\<exists>ch'. deliver_loop sched ch w = Some ch' \<and> deliver_loop (take 2 sched) ch w = Some ch'
    \<and> (deliver ch w = Some ch' \<or> deliver (take_event ch) w = Some ch')"
proof -
  obtain a b c d rest where s: "sched = (a, b) # (c, d) # rest"
    using assms(1) by (cases sched; cases "tl sched") (auto simp: Suc_le_eq)
  show ?thesis
    using assms(2) by (cases "wc_buf ch") (auto simp: s deliver_def take_event_def Let_def)
qed

theorem deliver_terminates_witness:
  "deliver_loop [(False, False), (False, False)] \<lparr>wc_buf = Some \<lparr>w_Width = 80, w_Height = 24\<rparr>, wc_open = True, wc_seen = None\<rparr>
     \<lparr>w_Width = 100, w_Height = 30\<rparr>
   = Some \<lparr>wc_buf = Some \<lparr>w_Width = 100, w_Height = 30\<rparr>, wc_open = True, wc_seen = None\<rparr>"
  using deliver_terminates [of "[(False, False), (False, False)]"
      "\<lparr>wc_buf = Some \<lparr>w_Width = 80, w_Height = 24\<rparr>, wc_open = True, wc_seen = None\<rparr>" "\<lparr>w_Width = 100, w_Height = 30\<rparr>"]
  by (simp add: Let_def)

text \<open>
  An attach between the end of the loop and the closing of \<^verbatim>\<open>done\<close> yields an open channel that no step
  of the pump closes any more.
\<close>

lemma attach_after_end:
  "\<exists>p c. winch_step\<^sup>*\<^sup>* newWinchPump p \<and> wp_pc p = Finished \<and> wp_done p \<and> wp_dst p = Some c \<and> open_chan p c"
proof -
  let ?a = "loop_end newWinchPump"
  let ?b = "snd (Attach ?a)"
  have "winch_step newWinchPump ?a" "winch_step ?a ?b"
    by (rule w_end, simp add: newWinchPump_def) (rule w_attach)
  moreover have r: "loop_release ?b = Some (?b\<lparr>wp_pc := Finished, wp_done := True\<rparr>)"
    by (simp add: loop_release_def Attach_def loop_end_def newWinchPump_def Let_def)
  then have "winch_step ?b (?b\<lparr>wp_pc := Finished, wp_done := True\<rparr>)" by (rule w_release)
  ultimately have "winch_step\<^sup>*\<^sup>* newWinchPump (?b\<lparr>wp_pc := Finished, wp_done := True\<rparr>)" by simp
  then show ?thesis
    by (intro exI [of _ "?b\<lparr>wp_pc := Finished, wp_done := True\<rparr>"] exI [of _ 0] conjI)
      (simp_all add: open_chan_def Attach_def loop_end_def newWinchPump_def Let_def)
qed



text \<open>
  The newline rewriting: whatever is written, every newline and nothing else is replaced by the
  cursor-down sequence, no newline remains, and on success the caller is told that all of its own
  bytes were written, provided the session's own writer reports complete writes.
\<close>

theorem cursorDown_total:
  assumes "\<And>b n. inner b = Some n \<Longrightarrow> n = length b"
  shows "fst (cursorDownWriter_Write inner p) = concat (map (\<lambda>b. if b = chr 10 then cursorDown else [b]) p)
    \<and> chr 10 \<notin> set (fst (cursorDownWriter_Write inner p))
    \<and> (\<forall>n. snd (cursorDownWriter_Write inner p) = Some n \<longrightarrow> n = length p)"
  using assms cursorDown_no_lf
  by (auto simp: cursorDownWriter_Write_def down_loop_eq down_plain Let_def split: option.splits if_splits)

theorem cursorDown_total_witness:
  "snd (cursorDownWriter_Write (\<lambda>b. Some (length b)) [chr 10, CHR ''x'']) = Some 2
   \<and> chr 10 \<notin> set (fst (cursorDownWriter_Write (\<lambda>b. Some (length b)) [chr 10, CHR ''x'']))"
  using cursorDown_total [of "\<lambda>b. Some (length b)" "[chr 10, CHR ''x'']"]
  by (simp add: cursorDownWriter_Write_def Let_def cursorDown_no_lf)

end
