(* ===== verification/Lobby_Run.thy ===== *)
theory Lobby_Run
  imports Prober View Pump Identity
begin

text \<open>
  \<^verbatim>\<open>runLobby\<close> of \<^verbatim>\<open>internal/server/handler.go\<close>: one menu program over the player's terminal, between the
  subscriptions, the input pipe and the window channel it sets up and gives back. Bubble Tea is an
  argument: the messages it delivers, and before which of them it has drawn the model. Other
  sessions and the prober may change the registry and the banner meanwhile in any way that keeps
  their hubs sound.

  Shown: whatever happens, nothing panics and everything set up is given back; the result is the
  one the model left; and a game is only started if it was playable when the menu chose it.
\<close>

section \<open>The program\<close>

text \<open>Drawing replaces the hitboxes of the model, which a later click refers to.\<close>

definition redraw :: "lipgloss \<Rightarrow> string \<Rightarrow> 'p LobbyModel \<Rightarrow> 'p LobbyModel" where
  "redraw lg version m = (case View lg version m of None \<Rightarrow> m | Some (_, hits) \<Rightarrow> m\<lparr>m_hits := hits\<rparr>)"

record lobby_event =
  le_drawn :: bool
  le_env :: env
  le_msg :: msg

text \<open>
  The event loop updates the model until it gets the message to quit, which the command of an update
  or the watcher's \<^verbatim>\<open>p.Quit()\<close> has sent; a message that arrives before that one is still handled, even
  after an update that left a result. The events are those that are handled.
\<close>

fun program ::
    "('p \<Rightarrow> string \<Rightarrow> bool) \<Rightarrow> ('p \<Rightarrow> string \<Rightarrow> 'p) \<Rightarrow> lipgloss \<Rightarrow> string \<Rightarrow> 'p LobbyModel \<Rightarrow> lobby_event list \<Rightarrow> 'p LobbyModel" where
  "program has ack lg version m [] = m"
| "program has ack lg version m (ev # evs) =
     (let m1 = (if le_drawn ev then redraw lg version m else m);
          (m2, _, _) = Update has ack (le_env ev) (le_msg ev) m1
      in program has ack lg version m2 evs)"

section \<open>Around the program\<close>

text \<open>What the session and the server share with the menu: registry, banner, pumps and the next unused pipe.\<close>

record shared =
  sh_registry :: Registry
  sh_banner :: "BannerSource option"
  sh_input :: inputPump
  sh_winch :: winchPump
  sh_pipe :: nat

record menu_setup =
  mu_width :: int
  mu_height :: int
  mu_idle :: int
  mu_env :: env
  mu_events :: "lobby_event list"
  mu_failed :: bool

definition subscribe_all :: "shared \<Rightarrow> nat \<times> nat option \<times> shared" where
  "subscribe_all s =
     (let (poke, reg) = Subscribe (sh_registry s) in
      case sh_banner s of
        None \<Rightarrow> (poke, None, s\<lparr>sh_registry := reg\<rparr>)
      | Some ban \<Rightarrow>
          (let (bannerPoke, ban') = Subscribe_banner ban
           in (poke, Some bannerPoke, s\<lparr>sh_registry := reg, sh_banner := Some ban'\<rparr>)))"

text \<open>The deferred calls, last in first out; \<open>None\<close> is a panic.\<close>

definition unsubscribe_all :: "nat \<Rightarrow> nat option \<Rightarrow> shared \<Rightarrow> shared option" where
  "unsubscribe_all poke bannerPoke s = do {
     ban \<leftarrow> (case (bannerPoke, sh_banner s) of
               (Some c, Some ban) \<Rightarrow> map_option Some (Unsubscribe_banner ban c)
             | _ \<Rightarrow> Some (sh_banner s));
     reg \<leftarrow> Unsubscribe (sh_registry s) poke;
     Some (s\<lparr>sh_banner := ban, sh_registry := reg\<rparr>) }"

definition runLobby ::
    "('p \<Rightarrow> string \<Rightarrow> bool) \<Rightarrow> ('p \<Rightarrow> string \<Rightarrow> 'p) \<Rightarrow> lipgloss \<Rightarrow> string \<Rightarrow> (shared \<Rightarrow> shared) \<Rightarrow> menu_setup
     \<Rightarrow> Identity \<Rightarrow> 'p \<Rightarrow> string \<Rightarrow> shared \<Rightarrow> (Result \<times> shared) option" where
  "runLobby has ack lg version meanwhile u i prefs flash s0 =
     (let pipe = sh_pipe s0;
          s1 = s0\<lparr>sh_pipe := Suc pipe, sh_input := SetDest (sh_input s0) (Some pipe)\<rparr>;
          (poke, bannerPoke, s2) = subscribe_all s1;
          model = NewLobby (mu_env u) (sh_banner s2 \<noteq> None) True (bannerPoke \<noteq> None) (id_Fingerprint i) (Some prefs)
                    (mu_width u) (mu_height u) (mu_idle u) flash (id_Kind i = Guest);
          (_, wp) = Attach (sh_winch s2);
          final = program has ack lg version model (mu_events u);
          s3 = meanwhile (s2\<lparr>sh_winch := wp\<rparr>);
          s4 = s3\<lparr>sh_winch := Detach (sh_winch s3)\<rparr>;
          result = (if mu_failed u then KindNone else Result_of final)
      in do {
           s5 \<leftarrow> unsubscribe_all poke bannerPoke s4;
           Some (result, s5\<lparr>sh_input := close_pipe (SetDest (sh_input s5) None) pipe\<rparr>) })"

section \<open>The result\<close>

lemma Result_of_simp [simp]: "Result_of m = m_result m"
  by (simp add: Result_of_def)

lemma NewLobby_result [simp]:
  "m_result (NewLobby e hb p bp fp pr w h idle flash guest) = KindNone" "m_guest (NewLobby e hb p bp fp pr w h idle flash guest) = guest"
  by (simp_all add: NewLobby_eq refreshGames_def refreshBanner_def Let_def)

lemma redraw_simps [simp]: "m_result (redraw lg v m) = m_result m" "m_guest (redraw lg v m) = m_guest m"
  by (simp_all add: redraw_def split: option.split prod.split)

lemma launchGame_guest [simp]: "m_guest (fst (launchGame e gs g m)) = m_guest m"
  by (simp add: launchGame_def split: sum.split)

lemma activate_guest [simp]: "m_guest (fst (activate has e m)) = m_guest m"
  by (simp add: activate_def split: sum.split)

lemma confirmAlpha_guest [simp]: "m_guest (fst (confirmAlpha ack e m)) = m_guest m"
  by (simp add: confirmAlpha_def Let_def split: sum.split)

lemma guest_simps [simp]:
  "m_guest (moveCursor d m) = m_guest m" "m_guest (refreshGames gs m) = m_guest m" "m_guest (refreshBanner n m) = m_guest m"
  by (simp_all add: moveCursor_def refreshGames_def refreshBanner_def Let_def)

lemma handleKey_guest [simp]: "m_guest (fst (handleKey has ack e key m)) = m_guest m"
  by (simp add: handleKey_def Let_def split_def)

lemma handleClick_guest [simp]: "m_guest (fst (handleClick has ack e b x y m)) = m_guest m"
  by (simp add: handleClick_def Let_def split: option.split)

lemma Update_guest [simp]: "m_guest (fst (Update has ack e msg m)) = m_guest m"
  by (cases msg) (simp_all add: Update_def handleTick_def handleWheel_def split_def Let_def split: mouse_button.split)

text \<open>A result that an update leaves was there before it, or is a game that may be started now, or no game.\<close>

definition admits :: "env \<Rightarrow> bool \<Rightarrow> Result \<Rightarrow> Result \<Rightarrow> bool" where
  "admits e guest r r' \<longleftrightarrow>
     r' = r \<or> (\<forall>g. r' = KindPlay g \<longrightarrow> (\<exists>st. Playable (e_games2 e) (g_ID g) guest = Inr st \<and> gs_Game st = g))"

lemma launchGame_admits: "admits e (m_guest m) (m_result m) (m_result (fst (launchGame e (e_games2 e) g m)))"
proof (cases "Playable (e_games2 e) (g_ID g) (m_guest m)")
  case (Inr st)
  then have "g_ID (gs_Game st) = g_ID g" using Playable_Inr by fastforce
  with Inr show ?thesis by (auto simp: launchGame_def admits_def)
qed (simp add: launchGame_def admits_def)

lemma activate_admits: "admits e (m_guest m) (m_result m) (m_result (fst (activate has e m)))"
  using launchGame_admits [of e m] by (auto simp: activate_def admits_def split: sum.split)

lemma confirmAlpha_admits: "admits e (m_guest m) (m_result m) (m_result (fst (confirmAlpha ack e m)))"
  using launchGame_admits [of e "m\<lparr>m_alphaOpen := False\<rparr>"] launchGame_admits [of e "m\<lparr>m_alphaOpen := False, m_prefs := pr\<rparr>" for pr]
  by (auto simp: confirmAlpha_def admits_def Let_def split: sum.split)

lemma input_outcome_admits:
  assumes "input_outcome has ack e m r"
  shows "admits e (m_guest m) (m_result m) (m_result (fst r))"
  using assms unfolding input_outcome_def
proof (elim disjE exE conjE)
  fix m' assume "r = activate has e m'" "m_result m' = m_result m" "m_guest m' = m_guest m"
  then show ?thesis using activate_admits [of e m' has] by simp
qed (use confirmAlpha_admits [of e m ack] in \<open>auto simp: admits_def\<close>)

lemma Update_admits: "admits e (m_guest m) (m_result m) (m_result (fst (Update has ack e msg m)))"
proof -
  obtain m' c p where u: "Update has ack e msg m = (m', c, p)" by (metis prod_cases3)
  show ?thesis
    using Update_input [OF u] input_outcome_admits [of has ack e "m\<lparr>m_lastInput := e_now e\<rparr>" "(m', c)"] u
    by (auto simp: admits_def)
qed

lemma program_result:
  "m_result (program has ack lg v m evs) = KindPlay g \<Longrightarrow> m_result m \<noteq> KindPlay g \<Longrightarrow>
    \<exists>ev \<in> set evs. \<exists>st. Playable (e_games2 (le_env ev)) (g_ID g) (m_guest m) = Inr st \<and> gs_Game st = g"
proof (induction evs arbitrary: m)
  case (Cons ev evs)
  let ?m1 = "if le_drawn ev then redraw lg v m else m"
  let ?m2 = "fst (Update has ack (le_env ev) (le_msg ev) ?m1)"
  have a: "admits (le_env ev) (m_guest m) (m_result m) (m_result ?m2)" "m_guest ?m2 = m_guest m"
    using Update_admits [of "le_env ev" ?m1 has ack "le_msg ev"] by (simp_all split: if_splits)
  show ?case
  proof (cases "m_result ?m2 = KindPlay g")
    case True
    then show ?thesis using a Cons.prems(2) by (auto simp: admits_def)
  next
    case False
    then show ?thesis using Cons.IH [of ?m2] Cons.prems(1) a by (simp add: split_def Let_def)
  qed
qed simp

section \<open>Giving everything back\<close>

definition sound :: "shared \<Rightarrow> bool" where
  "sound s \<longleftrightarrow> hub_inv (r_hub (sh_registry s)) \<and> (\<forall>ban. sh_banner s = Some ban \<longrightarrow> hub_inv (bs_hub ban))"

lemma subscribe_all_sound:
  assumes "sound s" "subscribe_all s = (poke, bannerPoke, s')"
  shows "sound s' \<and> poke = next_chan (r_hub (sh_registry s)) \<and> bannerPoke = map_option (next_chan \<circ> bs_hub) (sh_banner s)
    \<and> (sh_banner s' = None \<longleftrightarrow> sh_banner s = None) \<and> sh_input s' = sh_input s \<and> sh_winch s' = sh_winch s"
proof -
  have h: "fst (hub_Subscribe h) = next_chan h" for h by (simp add: hub_Subscribe_def Let_def)
  show ?thesis
    using assms hub_inv_Subscribe
    by (auto simp: subscribe_all_def sound_def Subscribe_def Subscribe_banner_def split_def Let_def h split: option.splits)
qed

lemma Unsubscribe_sound:
  assumes "hub_inv (r_hub r)"
  shows "\<exists>r'. Unsubscribe r c = Some r' \<and> hub_inv (r_hub r') \<and> c \<notin> subs (r_hub r')"
proof -
  obtain h where "hub_Unsubscribe (r_hub r) c = Some h" "hub_inv h" "subs h = subs (r_hub r) - {c}"
    using hub_Unsubscribe_ok [OF assms] by blast
  then show ?thesis by (intro exI [of _ "r\<lparr>r_hub := h\<rparr>"]) (simp add: Unsubscribe_def)
qed

lemma Unsubscribe_banner_sound:
  assumes "hub_inv (bs_hub b)"
  shows "\<exists>b'. Unsubscribe_banner b c = Some b' \<and> hub_inv (bs_hub b') \<and> c \<notin> subs (bs_hub b')"
proof -
  obtain h where "hub_Unsubscribe (bs_hub b) c = Some h" "hub_inv h" "subs h = subs (bs_hub b) - {c}"
    using hub_Unsubscribe_ok [OF assms] by blast
  then show ?thesis by (intro exI [of _ "b\<lparr>bs_hub := h\<rparr>"]) (simp add: Unsubscribe_banner_def)
qed

lemma unsubscribe_all_sound:
  assumes "sound s"
  shows "\<exists>s'. unsubscribe_all poke bannerPoke s = Some s' \<and> sound s' \<and> poke \<notin> subs (r_hub (sh_registry s'))
    \<and> (\<forall>c ban. bannerPoke = Some c \<and> sh_banner s' = Some ban \<longrightarrow> c \<notin> subs (bs_hub ban))
    \<and> sh_input s' = sh_input s \<and> sh_winch s' = sh_winch s"
proof -
  obtain r where r: "Unsubscribe (sh_registry s) poke = Some r" "hub_inv (r_hub r)" "poke \<notin> subs (r_hub r)"
    using Unsubscribe_sound [of "sh_registry s" poke] assms by (auto simp: sound_def)
  show ?thesis
  proof (cases "bannerPoke = None \<or> sh_banner s = None")
    case True
    then show ?thesis using r assms by (auto simp: unsubscribe_all_def sound_def split: option.split)
  next
    case False
    then obtain c ban where c: "bannerPoke = Some c" "sh_banner s = Some ban" by auto
    obtain b where "Unsubscribe_banner ban c = Some b" "hub_inv (bs_hub b)" "c \<notin> subs (bs_hub b)"
      using Unsubscribe_banner_sound [of ban c] assms c(2) by (auto simp: sound_def)
    with c r show ?thesis by (simp add: unsubscribe_all_def sound_def)
  qed
qed

text \<open>
  (C25) A menu leaves nothing behind. Whatever the messages were and whatever other sessions did to
  the registry and the banner meanwhile, running the menu does not panic; afterwards neither hub
  has the subscription it made, the input pump has no destination and its pipe is closed, and no
  window channel is attached. If it ended with a game, then that game was playable for this player
  in the registry as one of the messages found it, for guests only if it is open to guests.
\<close>

theorem runLobby_gives_back:
  assumes "sound s0" and meanwhile: "\<And>s. sound s \<Longrightarrow> sound (meanwhile s)"
  shows "\<exists>result s'. runLobby has ack lg version meanwhile u i prefs flash s0 = Some (result, s') \<and> sound s'
    \<and> next_chan (r_hub (sh_registry s0)) \<notin> subs (r_hub (sh_registry s'))
    \<and> (\<forall>ban ban'. sh_banner s0 = Some ban \<and> sh_banner s' = Some ban' \<longrightarrow> next_chan (bs_hub ban) \<notin> subs (bs_hub ban'))
    \<and> ip_dst (sh_input s') = None \<and> sh_pipe s0 \<in> ip_closed (sh_input s') \<and> wp_dst (sh_winch s') = None
    \<and> (\<forall>g. result = KindPlay g \<longrightarrow>
         (\<exists>ev \<in> set (mu_events u). \<exists>st. Playable (e_games2 (le_env ev)) (g_ID g) (id_Kind i = Guest) = Inr st \<and> gs_Game st = g))"
proof -
  let ?s1 = "s0\<lparr>sh_pipe := Suc (sh_pipe s0), sh_input := SetDest (sh_input s0) (Some (sh_pipe s0))\<rparr>"
  obtain poke bp s2 where s2: "subscribe_all ?s1 = (poke, bp, s2)" by (metis prod_cases3)
  have s1: "sound ?s1" using assms(1) by (simp add: sound_def)
  note sub = subscribe_all_sound [OF s1 s2]
  obtain c wp where wp: "Attach (sh_winch s2) = (c, wp)" by force
  let ?s3 = "meanwhile (s2\<lparr>sh_winch := wp\<rparr>)"
  let ?s4 = "?s3\<lparr>sh_winch := Detach (sh_winch ?s3)\<rparr>"
  have "sound (s2\<lparr>sh_winch := wp\<rparr>)" using sub by (simp add: sound_def)
  then have "sound ?s3" by (rule meanwhile)
  then have "sound ?s4" by (simp add: sound_def)
  then obtain s5 where s5: "unsubscribe_all poke bp ?s4 = Some s5" "sound s5" "poke \<notin> subs (r_hub (sh_registry s5))"
    "\<forall>c ban. bp = Some c \<and> sh_banner s5 = Some ban \<longrightarrow> c \<notin> subs (bs_hub ban)" "sh_winch s5 = Detach (sh_winch ?s3)"
    using unsubscribe_all_sound [of ?s4 poke bp] by auto
  let ?m = "NewLobby (mu_env u) (sh_banner s2 \<noteq> None) True (bp \<noteq> None) (id_Fingerprint i) (Some prefs)
      (mu_width u) (mu_height u) (mu_idle u) flash (id_Kind i = Guest)"
  let ?res = "if mu_failed u then KindNone else m_result (program has ack lg version ?m (mu_events u))"
  have play: "\<exists>ev \<in> set (mu_events u). \<exists>st. Playable (e_games2 (le_env ev)) (g_ID g) (id_Kind i = Guest) = Inr st \<and> gs_Game st = g"
    if "?res = KindPlay g" for g
    using that program_result [of has ack lg version ?m "mu_events u" g] by (auto split: if_splits)
  let ?e = "s5\<lparr>sh_input := close_pipe (SetDest (sh_input s5) None) (sh_pipe s0)\<rparr>"
  have run: "runLobby has ack lg version meanwhile u i prefs flash s0 = Some (?res, ?e)"
    using s2 wp s5(1) by (simp add: runLobby_def Let_def)
  have e: "sound ?e" "ip_dst (sh_input ?e) = None" "sh_pipe s0 \<in> ip_closed (sh_input ?e)" "wp_dst (sh_winch ?e) = None"
    using s5(2,5) by (simp_all add: sound_def close_pipe_def SetDest_def Detach_def)
  have "next_chan (r_hub (sh_registry s0)) \<notin> subs (r_hub (sh_registry ?e))" using s5(3) sub by simp
  moreover have "next_chan (bs_hub ban) \<notin> subs (bs_hub ban')" if "sh_banner s0 = Some ban" "sh_banner ?e = Some ban'" for ban ban'
    using s5(4) sub that by simp
  ultimately show ?thesis using run e play by (intro exI [of _ ?res] exI [of _ ?e] conjI) blast+
qed

definition example_shared :: shared where
  "example_shared =
     \<lparr>sh_registry = \<lparr>r_opts = \<lparr>o_ProbeInterval = 1, o_DialTimeout = 1, o_FailThreshold = 2\<rparr>, r_games = [], r_health = Map.empty,
        r_hub = new_hub, r_mtime = 0, r_kick = False, r_started = True, r_closed = False\<rparr>,
      sh_banner = None, sh_input = newInputPump, sh_winch = newWinchPump, sh_pipe = 0\<rparr>"

definition example_run :: menu_setup where
  "example_run =
     \<lparr>mu_width = 80, mu_height = 24, mu_idle = 0, mu_env = example_env [example_status ''farm'' True True] 0,
      mu_events = [\<lparr>le_drawn = True, le_env = example_env [example_status ''farm'' True True] 5, le_msg = KeyPressMsg ''enter''\<rparr>],
      mu_failed = False\<rparr>"

theorem runLobby_gives_back_witness:
  "\<exists>result s'. runLobby (\<lambda>p. p) (\<lambda>p j. p(j := True)) plain_lipgloss ''dev'' (\<lambda>s. s) example_run (NewGuest (replicate 16 (CHR ''x'')))
      (\<lambda>_. False) [] example_shared = Some (result, s') \<and> ip_dst (sh_input s') = None"
proof -
  have s: "sound example_shared" by (simp add: sound_def example_shared_def hub_inv_new)
  show ?thesis
    using runLobby_gives_back [OF s, of "\<lambda>s. s" "\<lambda>p. p" "\<lambda>p j. p(j := True)" plain_lipgloss "''dev''" example_run
        "NewGuest (replicate 16 (CHR ''x''))" "\<lambda>_. False" "[]"]
    by blast
qed

end
