(* ===== verification/Session_Limits.thy ===== *)
theory Session_Limits
  imports Identity Go_Net
begin

text \<open>
  \<^verbatim>\<open>internal/server/limits.go\<close>: the session budgets. \<open>acquire\<close> and \<open>release\<close> run under one mutex,
  so each is one atomic step; the middleware acquires a seat before it runs a session and
  releases it when the session handler returns.

  The abstract specification is the multiset of live sessions, a keyed one named by its
  fingerprint and a guest by its client IP. Shown: the counters of the code are exactly the
  tallies of that multiset (a refinement), so every budget holds in every reachable state, a
  refusal has a reason, and guests never use up the seats that remain for keyed players.
\<close>

section \<open>Model\<close>

record SessionLimits =
  global :: int
  guests :: int
  perKey :: "string \<rightharpoonup> int"
  perIP :: "string \<rightharpoonup> int"
  maxGlobal :: int
  maxPerKey :: int
  maxGuests :: int
  maxPerIP :: int

definition NewSessionLimits :: "int \<Rightarrow> int \<Rightarrow> int \<Rightarrow> int \<Rightarrow> SessionLimits" where
  "NewSessionLimits gl pk gs pip =
     \<lparr>global = 0, guests = 0, perKey = Map.empty, perIP = Map.empty,
      maxGlobal = gl, maxPerKey = pk, maxGuests = gs, maxPerIP = pip\<rparr>"

text \<open>
  \<^verbatim>\<open>clientIP\<close>: the host part of the remote address in canonical IP form; the argument is the
  printed form of the \<^verbatim>\<open>net.Addr\<close>.
\<close>

definition clientIP :: "string \<Rightarrow> string" where
  "clientIP addr =
     (case SplitHostPort addr of
        Inl _ \<Rightarrow> addr
      | Inr (host, _) \<Rightarrow> (case ParseIP host of Some ip \<Rightarrow> IP_String ip | None \<Rightarrow> host))"

definition acquire :: "SessionLimits \<Rightarrow> Identity \<Rightarrow> string \<Rightarrow> bool \<times> SessionLimits" where
  "acquire l i ip =
     (if Validate i \<noteq> None then (False, l)
      else if maxGlobal l \<le> global l then (False, l)
      else if id_Kind i = Guest then
        (if maxGuests l \<le> guests l \<or> maxPerIP l \<le> getd (perIP l) ip then (False, l)
         else (True, l\<lparr>guests := guests l + 1, perIP := incr (perIP l) ip, global := global l + 1\<rparr>))
      else
        (if maxPerKey l \<le> getd (perKey l) (id_Fingerprint i) then (False, l)
         else (True, l\<lparr>perKey := incr (perKey l) (id_Fingerprint i), global := global l + 1\<rparr>)))"

definition release :: "SessionLimits \<Rightarrow> Identity \<Rightarrow> string \<Rightarrow> SessionLimits" where
  "release l i ip =
     (if id_Kind i = Guest then
        (if getd (perIP l) ip \<le> 0 then l
         else l\<lparr>guests := guests l - 1, perIP := decr (perIP l) ip, global := global l - 1\<rparr>)
      else
        (if getd (perKey l) (id_Fingerprint i) \<le> 0 then l
         else l\<lparr>perKey := decr (perKey l) (id_Fingerprint i), global := global l - 1\<rparr>))"

text \<open>
  The middleware around a session: a refused session gets a message and exit status 1 and never
  reaches the next handler; an admitted one runs the next handler (which may run while other
  sessions change the limits) and then, deferred, releases with the identity and IP it acquired
  with. The result is what the session is told, the state of the next handler and the limits.
\<close>

datatype middleware_outcome = TooManySessions int int int int | Ran

definition Middleware ::
    "(SessionLimits \<times> 's \<Rightarrow> SessionLimits \<times> 's) \<Rightarrow> Identity \<Rightarrow> string \<Rightarrow> SessionLimits \<times> 's
     \<Rightarrow> middleware_outcome \<times> SessionLimits \<times> 's" where
  "Middleware next i remote st =
     (let ip = clientIP remote; (ok, l) = acquire (fst st) i ip in
      if \<not> ok then (TooManySessions (maxGlobal l) (maxPerKey l) (maxGuests l) (maxPerIP l), l, snd st)
      else (let (l', s') = next (l, snd st) in (Ran, release l' i ip, s')))"

section \<open>Specification: the live sessions\<close>

datatype sess = SKey string | SGuest string

definition sess_of :: "Identity \<Rightarrow> string \<Rightarrow> sess" where
  "sess_of i ip = (if id_Kind i = Guest then SGuest ip else SKey (id_Fingerprint i))"

fun is_guest :: "sess \<Rightarrow> bool" where
  "is_guest (SGuest _) = True"
| "is_guest (SKey _) = False"

definition guest_count :: "sess multiset \<Rightarrow> nat" where
  "guest_count S = size (filter_mset is_guest S)"

text \<open>A new session is admitted when every budget that applies to it has room.\<close>

definition room :: "SessionLimits \<Rightarrow> sess multiset \<Rightarrow> sess \<Rightarrow> bool" where
  "room l S x \<longleftrightarrow>
     int (size S) < maxGlobal l \<and>
     (case x of SGuest ip \<Rightarrow> int (guest_count S) < maxGuests l \<and> int (count S x) < maxPerIP l
      | SKey fp \<Rightarrow> int (count S x) < maxPerKey l)"

text \<open>The counters describe the live sessions.\<close>

definition limits_rel :: "SessionLimits \<Rightarrow> sess multiset \<Rightarrow> bool" where
  "limits_rel l S \<longleftrightarrow>
     global l = int (size S) \<and> guests l = int (guest_count S)
     \<and> tallies (perKey l) (\<lambda>fp. count S (SKey fp)) \<and> tallies (perIP l) (\<lambda>ip. count S (SGuest ip))"

section \<open>Refinement\<close>

lemma guest_count_add [simp]:
  "guest_count (add_mset x S) = (if is_guest x then guest_count S + 1 else guest_count S)"
  by (simp add: guest_count_def)

lemma guest_count_remove:
  "x \<in># S \<Longrightarrow> guest_count (S - {#x#}) = (if is_guest x then guest_count S - 1 else guest_count S)"
  by (auto simp: guest_count_def size_Diff_singleton)

lemma guest_count_pos: "SGuest ip \<in># S \<Longrightarrow> 0 < guest_count S"
  by (auto simp: guest_count_def dest!: multi_member_split)

lemma acquire_refines:
  assumes rel: "limits_rel l S" and valid: "Validate i = None"
  shows "if room l S (sess_of i ip)
         then fst (acquire l i ip) \<and> limits_rel (snd (acquire l i ip)) (add_mset (sess_of i ip) S)
         else acquire l i ip = (False, l)"
proof -
  have tk: "tallies (perKey l) (\<lambda>fp. count S (SKey fp))"
    and ti: "tallies (perIP l) (\<lambda>p. count S (SGuest p))" using rel by (auto simp: limits_rel_def)
  show ?thesis
  proof (cases "id_Kind i = Guest")
    case True
    have inc: "tallies (incr (perIP l) ip) (\<lambda>p. count (add_mset (SGuest ip) S) (SGuest p))"
      using ti by (rule tallies_incr) auto
    have same: "tallies (perKey l) (\<lambda>fp. count (add_mset (SGuest ip) S) (SKey fp))"
      using tk by (rule tallies_cong) simp
    show ?thesis
      using rel valid True inc same tallies_getd [OF ti, of ip]
      by (auto simp: acquire_def room_def sess_of_def limits_rel_def)
  next
    case False
    let ?fp = "id_Fingerprint i"
    have inc: "tallies (incr (perKey l) ?fp) (\<lambda>p. count (add_mset (SKey ?fp) S) (SKey p))"
      using tk by (rule tallies_incr) auto
    have same: "tallies (perIP l) (\<lambda>p. count (add_mset (SKey ?fp) S) (SGuest p))"
      using ti by (rule tallies_cong) simp
    show ?thesis
      using rel valid False inc same tallies_getd [OF tk, of ?fp]
      by (auto simp: acquire_def room_def sess_of_def limits_rel_def)
  qed
qed

lemma acquire_frame:
  "maxGlobal (snd (acquire l i ip)) = maxGlobal l" "maxPerKey (snd (acquire l i ip)) = maxPerKey l"
  "maxGuests (snd (acquire l i ip)) = maxGuests l" "maxPerIP (snd (acquire l i ip)) = maxPerIP l"
  by (simp_all add: acquire_def)

lemma release_frame:
  "maxGlobal (release l i ip) = maxGlobal l" "maxPerKey (release l i ip) = maxPerKey l"
  "maxGuests (release l i ip) = maxGuests l" "maxPerIP (release l i ip) = maxPerIP l"
  by (simp_all add: release_def)

lemma release_refines:
  assumes rel: "limits_rel l S"
  shows "if sess_of i ip \<in># S then limits_rel (release l i ip) (S - {#sess_of i ip#})
         else release l i ip = l"
proof -
  have tk: "tallies (perKey l) (\<lambda>fp. count S (SKey fp))"
    and ti: "tallies (perIP l) (\<lambda>p. count S (SGuest p))" using rel by (auto simp: limits_rel_def)
  show ?thesis
  proof (cases "id_Kind i = Guest")
    case True
    show ?thesis
    proof (cases "SGuest ip \<in># S")
      case mem: True
      have pos: "0 < getd (perIP l) ip" using mem tallies_getd [OF ti, of ip] by simp
      have dec: "tallies (decr (perIP l) ip) (\<lambda>p. count (S - {#SGuest ip#}) (SGuest p))"
        using ti mem by (intro tallies_decr [OF ti]) auto
      have same: "tallies (perKey l) (\<lambda>fp. count (S - {#SGuest ip#}) (SKey fp))"
        using tk by (rule tallies_cong) simp
      show ?thesis
        using rel True mem dec same guest_count_pos [OF mem] size_Diff_singleton [OF mem]
          nonempty_has_size [of S] pos
        by (auto simp: release_def sess_of_def limits_rel_def guest_count_remove of_nat_diff)
    qed (use True tallies_getd [OF ti, of ip] in \<open>auto simp: release_def sess_of_def count_eq_zero_iff [THEN iffD2]\<close>)
  next
    case False
    let ?fp = "id_Fingerprint i"
    show ?thesis
    proof (cases "SKey ?fp \<in># S")
      case mem: True
      have pos: "0 < getd (perKey l) ?fp" using mem tallies_getd [OF tk, of ?fp] by simp
      have dec: "tallies (decr (perKey l) ?fp) (\<lambda>p. count (S - {#SKey ?fp#}) (SKey p))"
        using tk mem by (intro tallies_decr [OF tk]) auto
      have same: "tallies (perIP l) (\<lambda>p. count (S - {#SKey ?fp#}) (SGuest p))"
        using ti by (rule tallies_cong) simp
      show ?thesis
        using rel False mem dec same size_Diff_singleton [OF mem] nonempty_has_size [of S] pos
        by (auto simp: release_def sess_of_def limits_rel_def guest_count_remove of_nat_diff)
    qed (use False tallies_getd [OF tk, of ?fp] in \<open>auto simp: release_def sess_of_def count_eq_zero_iff [THEN iffD2]\<close>)
  qed
qed

section \<open>The running router\<close>

text \<open>
  The state of the middleware: the limits and the sessions that have been admitted and not yet
  released, each with the identity and client IP it will release with. Any number of sessions
  start and end in any order.
\<close>

type_synonym limits_state = "SessionLimits \<times> (Identity \<times> string) multiset"

definition limits_init :: "limits_state \<Rightarrow> bool" where
  "limits_init s \<longleftrightarrow> (\<exists>gl pk gs pip. s = (NewSessionLimits gl pk gs pip, {#}))"

inductive limits_step :: "limits_state \<Rightarrow> limits_state \<Rightarrow> bool" where
  admit: "acquire l i ip = (True, l') \<Longrightarrow> limits_step (l, A) (l', add_mset (i, ip) A)"
| refuse: "acquire l i ip = (False, l') \<Longrightarrow> limits_step (l, A) (l', A)"
| finish: "(i, ip) \<in># A \<Longrightarrow> limits_step (l, A) (release l i ip, A - {#(i, ip)#})"

inductive_cases limits_stepE: "limits_step s t"

definition live :: "(Identity \<times> string) multiset \<Rightarrow> sess multiset" where
  "live A = image_mset (\<lambda>(i, ip). sess_of i ip) A"

definition within_caps :: "SessionLimits \<Rightarrow> sess multiset \<Rightarrow> bool" where
  "within_caps l S \<longleftrightarrow>
     int (size S) \<le> max 0 (maxGlobal l) \<and> int (guest_count S) \<le> max 0 (maxGuests l)
     \<and> (\<forall>fp. int (count S (SKey fp)) \<le> max 0 (maxPerKey l))
     \<and> (\<forall>ip. int (count S (SGuest ip)) \<le> max 0 (maxPerIP l))"

definition limits_inv :: "limits_state \<Rightarrow> bool" where
  "limits_inv s \<longleftrightarrow>
     limits_rel (fst s) (live (snd s)) \<and> within_caps (fst s) (live (snd s))
     \<and> (\<forall>(i, ip) \<in># snd s. Validate i = None)"

lemma live_add [simp]: "live (add_mset (i, ip) A) = add_mset (sess_of i ip) (live A)"
  by (simp add: live_def)

lemma live_remove: "(i, ip) \<in># A \<Longrightarrow> live (A - {#(i, ip)#}) = live A - {#sess_of i ip#}"
  by (simp add: live_def image_mset_Diff)

lemma live_mem: "(i, ip) \<in># A \<Longrightarrow> sess_of i ip \<in># live A"
  by (auto simp: live_def)

lemma within_caps_add: "within_caps l S \<Longrightarrow> room l S x \<Longrightarrow> within_caps l (add_mset x S)"
  by (cases x) (auto simp: within_caps_def room_def)

lemma within_caps_remove:
  assumes "within_caps l S"
  shows "within_caps l (S - {#x#})"
proof -
  have "size (S - {#x#}) \<le> size S" "guest_count (S - {#x#}) \<le> guest_count S"
    by (auto simp: guest_count_def intro!: size_mset_mono multiset_filter_mono)
  moreover have "count (S - {#x#}) y \<le> count S y" for y by simp
  ultimately show ?thesis using assms
    unfolding within_caps_def by (meson order_trans of_nat_mono)
qed

lemma within_caps_frame:
  "maxGlobal l' = maxGlobal l \<Longrightarrow> maxPerKey l' = maxPerKey l \<Longrightarrow> maxGuests l' = maxGuests l \<Longrightarrow>
   maxPerIP l' = maxPerIP l \<Longrightarrow> within_caps l' S = within_caps l S"
  by (simp add: within_caps_def)

lemma acquire_valid: "fst (acquire l i ip) \<Longrightarrow> Validate i = None"
  by (auto simp: acquire_def split: if_splits)

lemma acquire_refused: "\<not> fst (acquire l i ip) \<Longrightarrow> snd (acquire l i ip) = l"
  by (auto simp: acquire_def split: if_splits)

lemma limits_inv_admit:
  assumes inv: "limits_inv (l, A)" and acq: "acquire l i ip = (True, l')"
  shows "limits_inv (l', add_mset (i, ip) A)"
proof -
  have valid: "Validate i = None" using acquire_valid [of l i ip] acq by simp
  have "limits_rel l (live A)" using inv by (simp add: limits_inv_def)
  from acquire_refines [OF this valid, of ip] acq
  have room: "room l (live A) (sess_of i ip)" and "limits_rel l' (add_mset (sess_of i ip) (live A))"
    by (auto split: if_splits)
  moreover have "within_caps l' (add_mset (sess_of i ip) (live A))"
    using within_caps_add [OF _ room] within_caps_frame [of l' l] acquire_frame [of l i ip] acq inv
    by (simp add: limits_inv_def)
  ultimately show ?thesis using inv valid by (auto simp: limits_inv_def)
qed

lemma limits_inv_finish:
  assumes inv: "limits_inv (l, A)" and mem: "(i, ip) \<in># A"
  shows "limits_inv (release l i ip, A - {#(i, ip)#})"
proof -
  have "limits_rel (release l i ip) (live A - {#sess_of i ip#})"
    using release_refines [of l "live A" i ip] live_mem [OF mem] inv by (simp add: limits_inv_def)
  moreover have "within_caps (release l i ip) (live A - {#sess_of i ip#})"
    using inv within_caps_remove [of l "live A"] within_caps_frame [of "release l i ip" l]
    by (simp add: limits_inv_def release_frame)
  ultimately show ?thesis using inv
    by (auto simp: limits_inv_def live_remove [OF mem] dest: in_diffD)
qed

interpretation lim: machine limits_init limits_step limits_inv
proof unfold_locales
  show "limits_inv s" if "limits_init s" for s
    using that
    by (auto simp: limits_init_def limits_inv_def limits_rel_def live_def within_caps_def guest_count_def
        NewSessionLimits_def)
  show "limits_inv t" if "limits_inv s" "limits_step s t" for s t
    using that(2,1)
  proof (cases rule: limits_step.cases)
    case (admit l i ip l' A)
    with that show ?thesis by (simp add: limits_inv_admit)
  next
    case (refuse l i ip l' A)
    with that show ?thesis using acquire_refused [of l i ip] by simp
  next
    case (finish i ip A l)
    with that show ?thesis by (simp add: limits_inv_finish)
  qed
qed

section \<open>Properties\<close>

text \<open>
  (C4) Refinement: as long as the counters describe a multiset of live sessions, a seat for a valid
  identity is granted exactly when every budget that applies to it has room; granting adds that
  session, refusing changes nothing, releasing removes a session that is live and is ignored for
  one that is not, so a seat can neither leak nor be returned twice.
\<close>

theorem SessionLimits_refines:
  assumes "limits_rel l S" and "Validate i = None"
  shows "(fst (acquire l i ip) \<longleftrightarrow> room l S (sess_of i ip))
    \<and> limits_rel (snd (acquire l i ip)) (if room l S (sess_of i ip) then add_mset (sess_of i ip) S else S)
    \<and> limits_rel (release l i ip) (S - {#sess_of i ip#})"
  using acquire_refines [OF assms, of ip] release_refines [OF assms(1), of i ip] assms(1)
  by (auto split: if_splits)

theorem SessionLimits_refines_witness:
  "limits_rel (NewSessionLimits 2 1 1 1) {#} \<and> Validate (NewGuest (replicate 16 (CHR ''r''))) = None
   \<and> fst (acquire (NewSessionLimits 2 1 1 1) (NewGuest (replicate 16 (CHR ''r''))) ''192.0.2.7'')"
proof -
  have r: "limits_rel (NewSessionLimits 2 1 1 1) {#}"
    by (simp add: limits_rel_def NewSessionLimits_def guest_count_def)
  have v: "Validate (NewGuest (replicate 16 (CHR ''r''))) = None" by (rule Validate_NewGuest) simp
  show ?thesis
    using r v SessionLimits_refines [OF r v, of "''192.0.2.7''"]
    by (simp add: room_def sess_of_def NewGuest_def zero_Identity_def NewSessionLimits_def guest_count_def)
qed

text \<open>
  Budgets under any interleaving of admissions, refusals and session ends: the global, guest,
  per-key and per-IP counts never exceed their caps, the counters always equal the sessions that
  are live, and once the last session has ended every counter is zero and both maps are empty.
\<close>

theorem SessionLimits_budgets:
  assumes "limits_step\<^sup>*\<^sup>* (NewSessionLimits gl pk gs pip, {#}) (l, A)"
  shows "limits_rel l (live A) \<and> within_caps l (live A)
    \<and> (A = {#} \<longrightarrow> global l = 0 \<and> guests l = 0 \<and> perKey l = Map.empty \<and> perIP l = Map.empty)"
proof -
  have "limits_inv (l, A)"
    by (rule lim.reach_inv [OF _ assms]) (auto simp: limits_init_def)
  then show ?thesis
    by (auto simp: limits_inv_def limits_rel_def live_def guest_count_def tallies_def)
qed

theorem SessionLimits_budgets_witness:
  "let i = NewGuest (replicate 16 (CHR ''r'')); l = snd (acquire (NewSessionLimits 2 1 1 1) i ''ip'') in
   limits_step\<^sup>*\<^sup>* (NewSessionLimits 2 1 1 1, {#}) (l, {#(i, ''ip'')#}) \<and> limits_rel l (live {#(i, ''ip'')#})"
proof -
  define i where "i = NewGuest (replicate 16 (CHR ''r''))"
  define l where "l = snd (acquire (NewSessionLimits 2 1 1 1) i ''ip'')"
  have v: "Validate i = None" unfolding i_def by (rule Validate_NewGuest) simp
  have "acquire (NewSessionLimits 2 1 1 1) i ''ip'' = (True, l)"
    using v by (simp add: l_def acquire_def NewSessionLimits_def i_def NewGuest_def zero_Identity_def getd_def)
  then have st: "limits_step\<^sup>*\<^sup>* (NewSessionLimits 2 1 1 1, {#}) (l, {#(i, ''ip'')#})"
    using limits_step.admit [of "NewSessionLimits 2 1 1 1" i "''ip''" l "{#}"] by auto
  show ?thesis
    using st SessionLimits_budgets [OF st] by (simp add: i_def [symmetric] l_def [symmetric])
qed

text \<open>
  When a player with a valid key is refused a seat, that key already holds its full allowance, or all
  but at most \<open>gs\<close> of the \<open>gl\<close> seats are held by keyed players.
\<close>

lemma keyed_refused:
  assumes reach: "limits_step\<^sup>*\<^sup>* (NewSessionLimits gl pk gs pip, {#}) (l, A)"
    and valid: "Validate i = None" and kind: "id_Kind i = Keyed" and caps: "0 < gs" "gs < gl"
    and refused: "\<not> fst (acquire l i ip)"
  shows "pk \<le> int (count (live A) (SKey (id_Fingerprint i)))
    \<or> gl - gs \<le> int (size (filter_mset (\<lambda>x. \<not> is_guest x) (live A)))"
proof -
  have frame: "maxGlobal l' = gl \<and> maxPerKey l' = pk \<and> maxGuests l' = gs"
    if "limits_step\<^sup>*\<^sup>* (NewSessionLimits gl pk gs pip, {#}) (l', A')" for l' A'
    using that
  proof (induction rule: rtranclp_induct2)
    case refl
    then show ?case by (simp add: NewSessionLimits_def)
  next
    case (step l1 A1 l2 A2)
    from step(2) show ?case
      using step(3) acquire_frame release_frame by cases (metis snd_conv)+
  qed
  have inv: "limits_inv (l, A)"
    by (rule lim.reach_inv [OF _ reach]) (auto simp: limits_init_def)
  then have rel: "limits_rel l (live A)" by (simp add: limits_inv_def)
  have g: "int (guest_count (live A)) \<le> gs"
    using inv frame [OF reach] caps by (auto simp: limits_inv_def within_caps_def)
  have "\<not> room l (live A) (SKey (id_Fingerprint i))"
    using acquire_refines [OF rel valid, of ip] refused kind by (auto simp: sess_of_def)
  then have "gl \<le> int (size (live A)) \<or> pk \<le> int (count (live A) (SKey (id_Fingerprint i)))"
    using frame [OF reach] by (auto simp: room_def)
  moreover have "size (live A) = guest_count (live A) + size (filter_mset (\<lambda>x. \<not> is_guest x) (live A))"
    by (metis guest_count_def multiset_partition size_union)
  ultimately show ?thesis using g by linarith
qed

text \<open>
  One bucket per client host: the IP that guest budgets are charged to does not depend on the
  source port, neither for a plain host or IPv4 address nor for a bracketed IPv6 address, and an
  IPv4-mapped IPv6 address is charged to the IPv4 address itself.
\<close>

theorem clientIP_ignores_port:
  assumes "plain p" and "plain q"
  shows "(plain h \<and> h \<noteq> [] \<longrightarrow> clientIP (h @ '':'' @ p) = clientIP (h @ '':'' @ q))
    \<and> (CHR ''['' \<notin> set h6 \<and> CHR '']'' \<notin> set h6 \<longrightarrow>
         clientIP (''['' @ h6 @ '']:'' @ p) = clientIP (''['' @ h6 @ '']:'' @ q))
    \<and> clientIP (''[::ffff:192.0.2.7]:'' @ p) = clientIP (''192.0.2.7:'' @ q)"
proof (intro conjI impI)
  show "clientIP (h @ '':'' @ p) = clientIP (h @ '':'' @ q)" if "plain h \<and> h \<noteq> []"
    using that assms SplitHostPort_plain [of h p] SplitHostPort_plain [of h q]
    by (simp add: clientIP_def)
  show "clientIP (''['' @ h6 @ '']:'' @ p) = clientIP (''['' @ h6 @ '']:'' @ q)"
    if "CHR ''['' \<notin> set h6 \<and> CHR '']'' \<notin> set h6"
    using that assms SplitHostPort_bracket [of h6 p] SplitHostPort_bracket [of h6 q]
    by (simp add: clientIP_def)
  have "\<exists>ip. ParseIP ''192.0.2.7'' = Some ip"
    by (simp add: ParseIP_def parseIPv4Fields_def octet_def is_digit_def dec_val_def)
  then show "clientIP (''[::ffff:192.0.2.7]:'' @ p) = clientIP (''192.0.2.7:'' @ q)"
    using assms ParseIP_mapped_example SplitHostPort_bracket [of "''::ffff:192.0.2.7''" p]
      SplitHostPort_plain [of "''192.0.2.7''" q]
    by (auto simp: clientIP_def plain_def)
qed

theorem clientIP_ignores_port_witness:
  "plain ''51022'' \<and> plain ''51023'' \<and>
   clientIP ''[::ffff:192.0.2.7]:51022'' = clientIP ''192.0.2.7:51023''"
proof -
  have h: "plain ''51022''" "plain ''51023''" by (simp_all add: plain_def)
  show ?thesis using h clientIP_ignores_port [OF h, of "''a''" "''b''"] by simp
qed

end
