(* ===== verification/Authguard.thy ===== *)
theory Authguard
  imports Session_Limits
begin

text \<open>
  \<^verbatim>\<open>internal/server/authguard.go\<close>: the budgets on transport connections before and after
  authentication, and the deadline clamp on connections that have not authenticated. Connections
  are addresses into a heap of \<^verbatim>\<open>guardedConn\<close> objects; times are nanoseconds and the zero time, which
  means no deadline, is \<open>None\<close>.

  Shown: under every interleaving of the operations the pending, total, guest and per-IP budgets
  hold, the guest counters are exactly the tallies of the admitted guest connections, a connection
  that has not authenticated always carries a deadline no later than its authentication deadline,
  closing releases a connection's seats exactly once, and shutdown leaves no pending connection.
\<close>

section \<open>Model\<close>

record guardedConn =
  gc_remote :: string
  gc_once :: bool
  gc_ready :: bool
  gc_authDeadline :: int
  gc_deadline :: "int option"
  gc_open :: bool

record authGuard =
  ag_closed :: bool
  ag_guestConnections :: "nat \<rightharpoonup> string"
  ag_guestIPs :: "string \<rightharpoonup> int"
  ag_maxGuests :: int
  ag_maxGuestsPerIP :: int
  ag_pending :: "nat set"
  ag_connections :: "nat set"
  ag_maxPending :: int
  ag_maxConnections :: int
  ag_timeout :: int
  ag_heap :: "nat \<rightharpoonup> guardedConn"
  ag_next :: nat

definition newAuthGuard :: "int \<Rightarrow> int \<Rightarrow> int \<Rightarrow> authGuard" where
  "newAuthGuard pending connections timeout =
     \<lparr>ag_closed = False, ag_guestConnections = Map.empty, ag_guestIPs = Map.empty,
      ag_maxGuests = connections, ag_maxGuestsPerIP = connections, ag_pending = {}, ag_connections = {},
      ag_maxPending = pending, ag_maxConnections = connections, ag_timeout = timeout,
      ag_heap = Map.empty, ag_next = 0\<rparr>"

text \<open>What \<^verbatim>\<open>server.New\<close> builds from the configuration.\<close>

definition server_guard :: "int \<Rightarrow> int \<Rightarrow> int \<Rightarrow> int \<Rightarrow> int \<Rightarrow> authGuard" where
  "server_guard maxPendingAuth maxConnections authTimeout maxGuestSessions maxGuestSessionsPerIP =
     (newAuthGuard maxPendingAuth (maxConnections + maxPendingAuth) authTimeout)
       \<lparr>ag_maxGuests := maxGuestSessions, ag_maxGuestsPerIP := maxGuestSessionsPerIP\<rparr>"

text \<open>\<^verbatim>\<open>guardedConn.SetDeadline\<close> on one connection: the deadline the transport really gets.\<close>

definition clamp :: "guardedConn \<Rightarrow> int option \<Rightarrow> int option" where
  "clamp c t =
     (if \<not> gc_ready c \<and> (case t of None \<Rightarrow> True | Some d \<Rightarrow> gc_authDeadline c < d)
      then Some (gc_authDeadline c) else t)"

definition upd_conn :: "authGuard \<Rightarrow> nat \<Rightarrow> (guardedConn \<Rightarrow> guardedConn) \<Rightarrow> authGuard" where
  "upd_conn g c f = g\<lparr>ag_heap := (ag_heap g)(c := map_option f (ag_heap g c))\<rparr>"

definition SetDeadline :: "authGuard \<Rightarrow> nat \<Rightarrow> int option \<Rightarrow> authGuard" where
  "SetDeadline g c t = upd_conn g c (\<lambda>gc. gc\<lparr>gc_deadline := clamp gc t\<rparr>)"

text \<open>\<^verbatim>\<open>wrap\<close>: refused (\<open>None\<close>) or the address of the new connection.\<close>

definition wrap :: "authGuard \<Rightarrow> string \<Rightarrow> int \<Rightarrow> nat option \<times> authGuard" where
  "wrap g remote now =
     (if ag_closed g \<or> ag_maxPending g \<le> int (card (ag_pending g))
         \<or> ag_maxConnections g \<le> int (card (ag_connections g))
      then (None, g)
      else
        (let c = ag_next g;
             conn = \<lparr>gc_remote = remote, gc_once = False, gc_ready = False,
                     gc_authDeadline = now + ag_timeout g, gc_deadline = None, gc_open = True\<rparr>;
             g' = g\<lparr>ag_heap := (ag_heap g)(c \<mapsto> conn), ag_next := Suc c,
                    ag_pending := insert c (ag_pending g), ag_connections := insert c (ag_connections g)\<rparr>
         in (Some c, SetDeadline g' c (Some (now + ag_timeout g)))))"

text \<open>The two critical sections of \<^verbatim>\<open>authenticated\<close>.\<close>

definition authenticated_ready :: "authGuard \<Rightarrow> nat \<Rightarrow> authGuard" where
  "authenticated_ready g c = upd_conn g c (\<lambda>gc. gc\<lparr>gc_ready := True, gc_deadline := None\<rparr>)"

definition authenticated_unpend :: "authGuard \<Rightarrow> nat \<Rightarrow> authGuard" where
  "authenticated_unpend g c = g\<lparr>ag_pending := ag_pending g - {c}\<rparr>"

definition authenticated :: "authGuard \<Rightarrow> nat \<Rightarrow> authGuard" where
  "authenticated g c = authenticated_unpend (authenticated_ready g c) c"

text \<open>\<^verbatim>\<open>guardedConn.Close\<close>: the transport is closed every time, the seats are released once.\<close>

definition conn_once :: "authGuard \<Rightarrow> nat \<Rightarrow> bool" where
  "conn_once g c = (case ag_heap g c of None \<Rightarrow> False | Some gc \<Rightarrow> gc_once gc)"

definition release_conn :: "authGuard \<Rightarrow> nat \<Rightarrow> authGuard" where
  "release_conn g c =
     (let g' = g\<lparr>ag_pending := ag_pending g - {c}, ag_connections := ag_connections g - {c}\<rparr>
      in case ag_guestConnections g c of
           None \<Rightarrow> g'
         | Some ip \<Rightarrow> g'\<lparr>ag_guestConnections := (ag_guestConnections g)(c := None),
                          ag_guestIPs := decr (ag_guestIPs g) ip\<rparr>)"

definition conn_Close :: "authGuard \<Rightarrow> nat \<Rightarrow> authGuard" where
  "conn_Close g c =
     (let g1 = upd_conn g c (\<lambda>gc. gc\<lparr>gc_open := False\<rparr>)
      in if conn_once g1 c then g1
         else release_conn (upd_conn g1 c (\<lambda>gc. gc\<lparr>gc_once := True\<rparr>)) c)"

text \<open>
  \<^verbatim>\<open>closePending\<close> marks the guard closed under the lock, takes the pending connections and closes
  them one by one, in the order \<open>cs\<close> the map iteration gives them.
\<close>

definition closePending_mark :: "authGuard \<Rightarrow> authGuard" where
  "closePending_mark g = g\<lparr>ag_closed := True\<rparr>"

definition closePending :: "authGuard \<Rightarrow> nat list \<Rightarrow> authGuard" where
  "closePending g cs = foldl conn_Close (closePending_mark g) cs"

definition admitGuest :: "authGuard \<Rightarrow> nat \<Rightarrow> bool \<times> authGuard" where
  "admitGuest g c =
     (if ag_closed g then (False, g)
      else if c \<notin> ag_connections g then (False, g)
      else if ag_guestConnections g c \<noteq> None then (True, g)
      else
        (let ip = clientIP (case ag_heap g c of None \<Rightarrow> [] | Some gc \<Rightarrow> gc_remote gc)
         in if ag_maxGuests g \<le> int (card (dom (ag_guestConnections g)))
               \<or> ag_maxGuestsPerIP g \<le> getd (ag_guestIPs g) ip
            then (False, g)
            else (True, g\<lparr>ag_guestConnections := (ag_guestConnections g)(c \<mapsto> ip),
                          ag_guestIPs := incr (ag_guestIPs g) ip\<rparr>)))"

section \<open>Invariant\<close>

definition guests_from :: "(nat \<rightharpoonup> string) \<Rightarrow> string \<Rightarrow> nat" where
  "guests_from m ip = card {c. m c = Some ip}"

definition budgets_ok :: "authGuard \<Rightarrow> bool" where
  "budgets_ok g \<longleftrightarrow>
     int (card (ag_pending g)) \<le> max 0 (ag_maxPending g)
     \<and> int (card (ag_connections g)) \<le> max 0 (ag_maxConnections g)
     \<and> int (card (dom (ag_guestConnections g))) \<le> max 0 (ag_maxGuests g)
     \<and> (\<forall>ip. int (guests_from (ag_guestConnections g) ip) \<le> max 0 (ag_maxGuestsPerIP g))"

text \<open>A connection that has not authenticated carries a deadline, and not a late one.\<close>

definition deadline_ok :: "guardedConn \<Rightarrow> bool" where
  "deadline_ok gc \<longleftrightarrow>
     gc_ready gc \<or> (case gc_deadline gc of None \<Rightarrow> False | Some d \<Rightarrow> d \<le> gc_authDeadline gc)"

lemma deadline_ok_upd [simp]:
  "deadline_ok (gc\<lparr>gc_open := b\<rparr>) = deadline_ok gc" "deadline_ok (gc\<lparr>gc_once := b\<rparr>) = deadline_ok gc"
  by (simp_all add: deadline_ok_def split: option.split)

definition heap_ok :: "authGuard \<Rightarrow> bool" where
  "heap_ok g \<longleftrightarrow>
     (\<forall>c gc. ag_heap g c = Some gc \<longrightarrow>
        c < ag_next g \<and> deadline_ok gc \<and> (c \<in> ag_connections g \<longleftrightarrow> \<not> gc_once gc))"

definition guard_inv :: "authGuard \<Rightarrow> bool" where
  "guard_inv g \<longleftrightarrow>
     finite (ag_connections g) \<and> ag_pending g \<subseteq> ag_connections g
     \<and> dom (ag_guestConnections g) \<subseteq> ag_connections g \<and> ag_connections g \<subseteq> dom (ag_heap g)
     \<and> heap_ok g \<and> tallies (ag_guestIPs g) (guests_from (ag_guestConnections g)) \<and> budgets_ok g"

lemmas guard_defs = guard_inv_def budgets_ok_def heap_ok_def

lemma guests_from_add:
  assumes "finite (dom m)" "m c = None"
  shows "guests_from (m(c \<mapsto> ip)) j = (if j = ip then guests_from m ip + 1 else guests_from m j)"
proof -
  have fin: "finite {d. m d = Some j}" by (rule finite_subset [OF _ assms(1)]) auto
  have "{d. (m(c \<mapsto> ip)) d = Some j} = (if j = ip then insert c {d. m d = Some j} else {d. m d = Some j})"
    using assms(2) by auto
  then show ?thesis using fin assms(2) by (auto simp: guests_from_def)
qed

lemma guests_from_remove:
  assumes "finite (dom m)" "m c = Some ip"
  shows "guests_from (m(c := None)) j = (if j = ip then guests_from m ip - 1 else guests_from m j)"
    and "0 < guests_from m ip"
proof -
  have fin: "finite {d. m d = Some k}" for k by (rule finite_subset [OF _ assms(1)]) auto
  have "{d. (m(c := None)) d = Some j} = (if j = ip then {d. m d = Some j} - {c} else {d. m d = Some j})"
    using assms(2) by auto
  then show "guests_from (m(c := None)) j = (if j = ip then guests_from m ip - 1 else guests_from m j)"
    using fin assms(2) by (auto simp: guests_from_def)
  show "0 < guests_from m ip" using fin assms(2) by (auto simp: guests_from_def card_gt_0_iff)
qed

lemma guard_inv_finite:
  assumes "guard_inv g"
  shows "finite (ag_pending g)" "finite (dom (ag_guestConnections g))"
  using assms by (auto simp: guard_inv_def dest: finite_subset)

lemma heap_ok_upd:
  assumes "heap_ok g" "\<And>gc. ag_heap g c = Some gc \<Longrightarrow> deadline_ok (f gc) \<and> gc_once (f gc) = gc_once gc"
  shows "heap_ok (upd_conn g c f)"
  using assms by (auto simp: heap_ok_def upd_conn_def)

lemma guard_inv_upd:
  assumes "guard_inv g" "\<And>gc. ag_heap g c = Some gc \<Longrightarrow> deadline_ok (f gc) \<and> gc_once (f gc) = gc_once gc"
  shows "guard_inv (upd_conn g c f)"
proof -
  have "heap_ok (upd_conn g c f)" using assms by (intro heap_ok_upd) (auto simp: guard_inv_def)
  moreover have "dom (ag_heap (upd_conn g c f)) = dom (ag_heap g)"
    by (auto simp: upd_conn_def dom_def)
  moreover have "budgets_ok (upd_conn g c f) = budgets_ok g"
    by (simp add: budgets_ok_def upd_conn_def)
  ultimately show ?thesis using assms(1) by (simp add: guard_inv_def) (simp add: upd_conn_def)
qed

lemma heap_deadline: "guard_inv g \<Longrightarrow> ag_heap g c = Some gc \<Longrightarrow> deadline_ok gc"
  by (auto simp: guard_inv_def heap_ok_def)

lemma clamp_ok: "deadline_ok (gc\<lparr>gc_deadline := clamp gc t\<rparr>)"
  by (auto simp: deadline_ok_def clamp_def split: option.splits)

lemma SetDeadline_inv: "guard_inv g \<Longrightarrow> guard_inv (SetDeadline g c t)"
  unfolding SetDeadline_def by (rule guard_inv_upd) (simp_all add: clamp_ok)

lemma authenticated_ready_inv: "guard_inv g \<Longrightarrow> guard_inv (authenticated_ready g c)"
  unfolding authenticated_ready_def by (rule guard_inv_upd) (simp_all add: deadline_ok_def)

lemma authenticated_unpend_inv: "guard_inv g \<Longrightarrow> guard_inv (authenticated_unpend g c)"
  using card_Diff1_le [of "ag_pending g" c] by (auto simp: guard_defs authenticated_unpend_def)

lemma closePending_mark_inv: "guard_inv g \<Longrightarrow> guard_inv (closePending_mark g)"
  by (simp add: guard_defs closePending_mark_def)

lemma admitGuest_inv:
  assumes "guard_inv g"
  shows "guard_inv (snd (admitGuest g c))"
proof (cases "snd (admitGuest g c) = g")
  case False
  define ip where "ip = clientIP (case ag_heap g c of None \<Rightarrow> [] | Some gc \<Rightarrow> gc_remote gc)"
  from False have c: "c \<in> ag_connections g" "ag_guestConnections g c = None"
    and room: "int (card (dom (ag_guestConnections g))) < ag_maxGuests g" "getd (ag_guestIPs g) ip < ag_maxGuestsPerIP g"
    and eq: "snd (admitGuest g c) = g\<lparr>ag_guestConnections := (ag_guestConnections g)(c \<mapsto> ip),
        ag_guestIPs := incr (ag_guestIPs g) ip\<rparr>"
    by (auto simp: admitGuest_def ip_def Let_def split: if_splits)
  note fin = guard_inv_finite(2) [OF assms]
  note cnt = guests_from_add [OF fin c(2), of ip]
  have tal: "tallies (ag_guestIPs g) (guests_from (ag_guestConnections g))"
    using assms by (simp add: guard_inv_def)
  have "tallies (incr (ag_guestIPs g) ip) (guests_from ((ag_guestConnections g)(c \<mapsto> ip)))"
    by (rule tallies_incr [OF tal cnt])
  moreover have "budgets_ok (snd (admitGuest g c))"
    using assms room tallies_getd [OF tal, of ip] fin c(2)
    by (auto simp: guard_inv_def budgets_ok_def eq cnt card_insert_if)
  ultimately show ?thesis using assms c by (auto simp: guard_inv_def eq heap_ok_def)
qed (use assms in simp)

lemma release_conn_inv:
  assumes "guard_inv g" "ag_heap g c = Some gc"
  shows "guard_inv (release_conn (upd_conn g c (\<lambda>gc. gc\<lparr>gc_once := True\<rparr>)) c)"
proof -
  let ?g = "upd_conn g c (\<lambda>gc. gc\<lparr>gc_once := True\<rparr>)" and ?m = "ag_guestConnections g"
  note fin = guard_inv_finite [OF assms(1)]
  have tal: "tallies (ag_guestIPs g) (guests_from ?m)" and bud: "budgets_ok g" and hp: "heap_ok g"
    and conns: "finite (ag_connections g)" "ag_pending g \<subseteq> ag_connections g"
      "dom ?m \<subseteq> ag_connections g" "ag_connections g \<subseteq> dom (ag_heap g)"
    using assms(1) by (simp_all add: guard_inv_def)
  have heap: "heap_ok (release_conn ?g c)"
    using hp by (auto simp: heap_ok_def release_conn_def upd_conn_def Let_def split: option.splits)
  have cards: "card (ag_pending g - {c}) \<le> card (ag_pending g)"
    "card (ag_connections g - {c}) \<le> card (ag_connections g)" "card (dom ?m - {c}) \<le> card (dom ?m)"
    by (rule card_Diff1_le)+
  show ?thesis
  proof (cases "?m c")
    case None
    with conns have "dom ?m \<subseteq> ag_connections g - {c}" by auto
    then show ?thesis using None heap tal bud conns cards
      by (auto simp: guard_inv_def budgets_ok_def release_conn_def upd_conn_def Let_def)
  next
    case (Some ip)
    note cnt = guests_from_remove(1) [OF fin(2) Some] and pos = guests_from_remove(2) [OF fin(2) Some]
    have t: "tallies (decr (ag_guestIPs g) ip) (guests_from (?m(c := None)))"
      by (rule tallies_decr [OF tal pos cnt])
    have le: "guests_from (?m(c := None)) j \<le> guests_from ?m j" for j by (auto simp: cnt)
    then have "budgets_ok (release_conn ?g c)"
      using bud cards Some order_trans [of "int (guests_from (?m(c := None)) _)"]
      by (simp add: budgets_ok_def release_conn_def upd_conn_def Let_def)
        (meson le of_nat_mono order_trans)
    then show ?thesis using Some heap t conns
      by (auto simp: guard_inv_def release_conn_def upd_conn_def Let_def)
  qed
qed

lemma conn_Close_inv:
  assumes "guard_inv g" "ag_heap g c \<noteq> None"
  shows "guard_inv (conn_Close g c)"
proof -
  let ?g = "upd_conn g c (\<lambda>gc. gc\<lparr>gc_open := False\<rparr>)"
  have inv: "guard_inv ?g"
    using assms(1) by (rule guard_inv_upd) (use heap_deadline [OF assms(1)] in simp)
  obtain gc where "ag_heap ?g c = Some gc" using assms(2) by (auto simp: upd_conn_def)
  from release_conn_inv [OF inv this] inv show ?thesis by (simp add: conn_Close_def Let_def)
qed

lemma wrap_inv:
  assumes "guard_inv g"
  shows "guard_inv (snd (wrap g remote now))"
proof (cases "fst (wrap g remote now)")
  case None
  then have "snd (wrap g remote now) = g" by (auto simp: wrap_def Let_def split: if_splits)
  then show ?thesis using assms by simp
next
  case (Some c)
  have fresh: "ag_next g \<notin> ag_connections g" "ag_next g \<notin> ag_pending g" "ag_heap g (ag_next g) = None"
    using assms by (force simp: guard_inv_def heap_ok_def)+
  note fin = guard_inv_finite [OF assms]
  define conn where "conn = \<lparr>gc_remote = remote, gc_once = False, gc_ready = False,
      gc_authDeadline = now + ag_timeout g, gc_deadline = Some (now + ag_timeout g), gc_open = True\<rparr>"
  define g' where "g' = g\<lparr>ag_heap := (ag_heap g)(ag_next g \<mapsto> conn), ag_next := Suc (ag_next g),
      ag_pending := insert (ag_next g) (ag_pending g), ag_connections := insert (ag_next g) (ag_connections g)\<rparr>"
  have eq: "snd (wrap g remote now) = g'"
    and room: "int (card (ag_pending g)) < ag_maxPending g" "int (card (ag_connections g)) < ag_maxConnections g"
    using Some by (simp_all add: wrap_def Let_def SetDeadline_def upd_conn_def clamp_def g'_def conn_def split: if_splits)
  have "heap_ok g'"
    using assms fresh by (auto simp: guard_inv_def heap_ok_def g'_def conn_def deadline_ok_def less_Suc_eq)
  moreover have "budgets_ok g'"
    using assms room fresh fin(1) by (auto simp: guard_inv_def budgets_ok_def g'_def)
  ultimately show ?thesis using assms unfolding eq by (auto simp: guard_inv_def g'_def)
qed

section \<open>The guard as a machine\<close>

text \<open>Every atomic step any connection's goroutine can take, in any order.\<close>

inductive guard_step :: "authGuard \<Rightarrow> authGuard \<Rightarrow> bool" where
  step_wrap: "guard_step g (snd (wrap g remote now))"
| step_deadline: "guard_step g (SetDeadline g c t)"
| step_ready: "guard_step g (authenticated_ready g c)"
| step_unpend: "guard_step g (authenticated_unpend g c)"
| step_admit: "guard_step g (snd (admitGuest g c))"
| step_close: "ag_heap g c \<noteq> None \<Longrightarrow> guard_step g (conn_Close g c)"
| step_mark: "guard_step g (closePending_mark g)"

inductive guard_init :: "authGuard \<Rightarrow> bool" where
  "guard_init (server_guard maxPendingAuth maxConnections authTimeout maxGuestSessions maxGuestSessionsPerIP)"

inductive_cases guard_stepE: "guard_step g g'"
inductive_cases guard_initE: "guard_init g"

lemma guard_init_inv: "guard_init g \<Longrightarrow> guard_inv g"
  by (erule guard_initE)
    (simp add: server_guard_def newAuthGuard_def guard_defs guests_from_def tallies_def)

lemma guard_step_inv: "guard_inv g \<Longrightarrow> guard_step g g' \<Longrightarrow> guard_inv g'"
  by (erule guard_stepE)
    (simp_all add: wrap_inv SetDeadline_inv authenticated_ready_inv authenticated_unpend_inv admitGuest_inv
      conn_Close_inv closePending_mark_inv)

interpretation guard: machine guard_init guard_step guard_inv
  by unfold_locales (fact guard_init_inv, fact guard_step_inv)

section \<open>Effects\<close>

lemma guard_step_maxima:
  "guard_step g g' \<Longrightarrow>
   ag_maxPending g' = ag_maxPending g \<and> ag_maxConnections g' = ag_maxConnections g
   \<and> ag_maxGuests g' = ag_maxGuests g \<and> ag_maxGuestsPerIP g' = ag_maxGuestsPerIP g"
  by (erule guard_stepE)
    (auto simp: wrap_def SetDeadline_def upd_conn_def authenticated_ready_def authenticated_unpend_def
      admitGuest_def conn_Close_def release_conn_def closePending_mark_def Let_def split: option.split)

lemma guard_steps_maxima:
  "guard_step\<^sup>*\<^sup>* g g' \<Longrightarrow>
   ag_maxPending g' = ag_maxPending g \<and> ag_maxConnections g' = ag_maxConnections g
   \<and> ag_maxGuests g' = ag_maxGuests g \<and> ag_maxGuestsPerIP g' = ag_maxGuestsPerIP g"
  by (induction rule: rtranclp_induct) (auto dest: guard_step_maxima)

lemma upd_conn_idem: "ag_heap g c = Some gc \<Longrightarrow> f gc = gc \<Longrightarrow> upd_conn g c f = g"
  by (simp add: upd_conn_def fun_upd_idem)

lemma conn_Close_effect:
  assumes "guard_inv g" "ag_heap g c = Some gc"
  shows "ag_pending (conn_Close g c) = ag_pending g - {c}"
    and "ag_connections (conn_Close g c) = ag_connections g - {c}"
    and "ag_guestConnections (conn_Close g c) = (ag_guestConnections g)(c := None)"
    and "ag_heap (conn_Close g c) = (ag_heap g)(c \<mapsto> gc\<lparr>gc_open := False, gc_once := True\<rparr>)"
    and "ag_closed (conn_Close g c) = ag_closed g"
proof -
  have gone: "c \<notin> ag_connections g \<and> c \<notin> ag_pending g \<and> ag_guestConnections g c = None" if "gc_once gc"
    using assms that by (auto simp: guard_inv_def heap_ok_def)
  have same: "gc\<lparr>gc_open := False, gc_once := True\<rparr> = gc\<lparr>gc_open := False\<rparr>" if "gc_once gc"
    using that by (cases gc) simp
  show "ag_pending (conn_Close g c) = ag_pending g - {c}"
    "ag_connections (conn_Close g c) = ag_connections g - {c}"
    "ag_guestConnections (conn_Close g c) = (ag_guestConnections g)(c := None)"
    "ag_heap (conn_Close g c) = (ag_heap g)(c \<mapsto> gc\<lparr>gc_open := False, gc_once := True\<rparr>)"
    "ag_closed (conn_Close g c) = ag_closed g"
    using gone same assms(2)
    by (auto simp: conn_Close_def conn_once_def release_conn_def upd_conn_def Let_def fun_upd_idem
        split: option.split if_splits)
qed

lemma close_all:
  assumes "guard_inv g" "set cs \<subseteq> dom (ag_heap g)"
  shows "guard_inv (foldl conn_Close g cs)
    \<and> ag_pending (foldl conn_Close g cs) = ag_pending g - set cs
    \<and> ag_connections (foldl conn_Close g cs) = ag_connections g - set cs
    \<and> ag_closed (foldl conn_Close g cs) = ag_closed g
    \<and> (\<forall>c. ag_heap (foldl conn_Close g cs) c =
          (if c \<in> set cs then map_option (\<lambda>gc. gc\<lparr>gc_open := False, gc_once := True\<rparr>) (ag_heap g c)
           else ag_heap g c))"
  using assms
proof (induction cs arbitrary: g)
  case (Cons c cs)
  then obtain gc where gc: "ag_heap g c = Some gc" by auto
  note eff = conn_Close_effect [OF Cons.prems(1) gc]
  have "guard_inv (conn_Close g c)" using Cons.prems gc by (simp add: conn_Close_inv)
  moreover have "set cs \<subseteq> dom (ag_heap (conn_Close g c))" using Cons.prems(2) by (auto simp: eff)
  ultimately have "guard_inv (foldl conn_Close g (c # cs))"
    "ag_pending (foldl conn_Close g (c # cs)) = ag_pending g - {c} - set cs"
    "ag_connections (foldl conn_Close g (c # cs)) = ag_connections g - {c} - set cs"
    "ag_closed (foldl conn_Close g (c # cs)) = ag_closed g"
    "\<And>d. ag_heap (foldl conn_Close g (c # cs)) d =
      (if d \<in> set cs then map_option (\<lambda>gc. gc\<lparr>gc_open := False, gc_once := True\<rparr>) (ag_heap (conn_Close g c) d)
       else ag_heap (conn_Close g c) d)"
    using Cons.IH [of "conn_Close g c"] by (simp_all add: eff(1,2,5))
  moreover have "A - {c} - set cs = A - set (c # cs)" for A by auto
  ultimately show ?case using gc by (simp add: eff(4))
qed simp

section \<open>Properties\<close>

text \<open>
  (C11) The connection budgets in every state any interleaving of connections, authentications,
  guest admissions, closes and shutdown can reach from the guard \<open>New\<close> builds: at most
  \<open>MaxPendingAuth\<close> connections are unauthenticated, at most \<open>MaxConnections + MaxPendingAuth\<close> exist,
  at most \<open>MaxGuestSessions\<close> of them are guests, at most \<open>MaxGuestSessionsPerIP\<close> of those share a
  client IP, and the counter of every IP is exactly its number of guest connections. So guests can
  never take the transports left for keyed players.
\<close>

theorem authGuard_budgets:
  assumes "guard_step\<^sup>*\<^sup>* (server_guard P C T G I) g"
  shows "int (card (ag_pending g)) \<le> max 0 P \<and> int (card (ag_connections g)) \<le> max 0 (C + P)
    \<and> int (card (dom (ag_guestConnections g))) \<le> max 0 G
    \<and> (\<forall>ip. int (card {c. ag_guestConnections g c = Some ip}) \<le> max 0 I
          \<and> getd (ag_guestIPs g) ip = int (card {c. ag_guestConnections g c = Some ip}))
    \<and> dom (ag_guestConnections g) \<subseteq> ag_connections g \<and> ag_pending g \<subseteq> ag_connections g"
proof -
  have inv: "guard_inv g" by (rule guard.reach_inv [OF _ assms]) (rule guard_init.intros)
  have "ag_maxPending g = P" "ag_maxConnections g = C + P" "ag_maxGuests g = G" "ag_maxGuestsPerIP g = I"
    using guard_steps_maxima [OF assms] by (simp_all add: server_guard_def newAuthGuard_def)
  then show ?thesis using inv by (auto simp: guard_inv_def budgets_ok_def tallies_getd guests_from_def)
qed

theorem authGuard_budgets_witness:
  "let g0 = server_guard 1 1 60 1 1; g1 = snd (wrap g0 ''10.0.0.1:5000'' 0); g2 = snd (wrap g1 ''10.0.0.2:5000'' 0)
   in guard_step\<^sup>*\<^sup>* g0 g2 \<and> int (card (ag_pending g2)) \<le> 1"
proof -
  let ?init = "server_guard 1 1 60 1 1"
  let ?one = "snd (wrap ?init ''10.0.0.1:5000'' 0)"
  have "guard_step ?init ?one" "guard_step ?one (snd (wrap ?one ''10.0.0.2:5000'' 0))"
    by (rule step_wrap)+
  then have st: "guard_step\<^sup>*\<^sup>* ?init (snd (wrap ?one ''10.0.0.2:5000'' 0))" by simp
  show ?thesis using st authGuard_budgets [OF st] by (simp add: Let_def)
qed

text \<open>
  The authentication deadline cannot be pushed out: whatever deadlines the SSH library sets,
  the zero deadline included, in every reachable state a connection that has not authenticated
  carries a deadline no later than the one it got when it was accepted; once it has authenticated
  the deadline asked for is the one that is set.
\<close>

theorem auth_deadline_enforced:
  assumes "guard_step\<^sup>*\<^sup>* (server_guard P C T G I) g" and "ag_heap g c = Some gc"
  shows "(\<not> gc_ready gc \<longrightarrow> (\<exists>d. gc_deadline gc = Some d \<and> d \<le> gc_authDeadline gc))
    \<and> (\<exists>gc'. ag_heap (SetDeadline g c t) c = Some gc' \<and> gc_authDeadline gc' = gc_authDeadline gc
          \<and> (if gc_ready gc then gc_deadline gc' = t
             else gc_deadline gc' = Some (case t of None \<Rightarrow> gc_authDeadline gc | Some d \<Rightarrow> min d (gc_authDeadline gc))))"
proof -
  have "guard_inv g" by (rule guard.reach_inv [OF _ assms(1)]) (rule guard_init.intros)
  then have "deadline_ok gc" using assms(2) heap_deadline by blast
  moreover have "ag_heap (SetDeadline g c t) c = Some (gc\<lparr>gc_deadline := clamp gc t\<rparr>)"
    using assms(2) by (simp add: SetDeadline_def upd_conn_def)
  ultimately show ?thesis by (auto simp: deadline_ok_def clamp_def split: option.splits)
qed

theorem auth_deadline_enforced_witness:
  "let g = snd (wrap (server_guard 1 1 60 1 1) ''10.0.0.1:5000'' 100)
   in \<exists>gc gc'. ag_heap g 0 = Some gc \<and> ag_heap (SetDeadline g 0 None) 0 = Some gc' \<and> gc_deadline gc' = Some 160"
proof -
  let ?init = "server_guard 1 1 60 1 1"
  let ?g = "snd (wrap ?init ''10.0.0.1:5000'' 100)"
  have "guard_step ?init ?g" by (rule step_wrap)
  then have st: "guard_step\<^sup>*\<^sup>* ?init ?g" by simp
  have hp: "ag_heap ?g 0 = Some \<lparr>gc_remote = ''10.0.0.1:5000'', gc_once = False, gc_ready = False,
      gc_authDeadline = 160, gc_deadline = Some 160, gc_open = True\<rparr>"
    by (simp add: wrap_def server_guard_def newAuthGuard_def SetDeadline_def upd_conn_def clamp_def Let_def)
  show ?thesis using hp auth_deadline_enforced [OF st hp, of None] by (auto simp: Let_def)
qed

text \<open>
  Closing a connection releases what it holds exactly once: it leaves the pending, total and
  guest accounts, no other connection is touched, the counter of its IP drops by one exactly when
  it was an admitted guest, and closing it again changes nothing.
\<close>

theorem conn_Close_once:
  assumes "guard_inv g" and "ag_heap g c = Some gc"
  shows "let g' = conn_Close g c in
    guard_inv g' \<and> ag_pending g' = ag_pending g - {c} \<and> ag_connections g' = ag_connections g - {c}
    \<and> ag_guestConnections g' = (ag_guestConnections g)(c := None)
    \<and> (\<forall>ip. getd (ag_guestIPs g') ip =
          getd (ag_guestIPs g) ip - (if ag_guestConnections g c = Some ip then 1 else 0))
    \<and> conn_Close g' c = g'"
proof -
  let ?g = "conn_Close g c" and ?m = "ag_guestConnections g"
  note eff = conn_Close_effect [OF assms]
  have inv: "guard_inv ?g" using assms by (simp add: conn_Close_inv)
  have "guests_from (?m(c := None)) ip = guests_from ?m ip - (if ?m c = Some ip then 1 else 0)
      \<and> (?m c = Some ip \<longrightarrow> 0 < guests_from ?m ip)" for ip
  proof (cases "?m c")
    case (Some j)
    then show ?thesis using guests_from_remove [OF guard_inv_finite(2) [OF assms(1)] Some] by auto
  qed (simp add: fun_upd_idem)
  moreover have "getd (ag_guestIPs g) ip = int (guests_from ?m ip)"
    "getd (ag_guestIPs ?g) ip = int (guests_from (?m(c := None)) ip)" for ip
    using assms(1) inv eff(3) by (auto simp: guard_inv_def intro!: tallies_getd)
  ultimately have ips: "getd (ag_guestIPs ?g) ip = getd (ag_guestIPs g) ip - (if ?m c = Some ip then 1 else 0)" for ip
    by (simp add: of_nat_diff Suc_leI)
  have heap: "ag_heap ?g c = Some (gc\<lparr>gc_open := False, gc_once := True\<rparr>)" using eff(4) by simp
  have "conn_Close ?g c = ?g"
    using upd_conn_idem [OF heap] heap by (simp add: conn_Close_def [of ?g] conn_once_def Let_def)
  with inv eff ips show ?thesis by (simp add: Let_def)
qed

theorem conn_Close_once_witness:
  "let g = snd (wrap (server_guard 1 1 60 1 1) ''10.0.0.1:5000'' 100)
   in conn_Close (conn_Close g 0) 0 = conn_Close g 0 \<and> ag_connections (conn_Close g 0) = {}"
proof -
  let ?g = "snd (wrap (server_guard 1 1 60 1 1) ''10.0.0.1:5000'' 100)"
  have inv: "guard_inv ?g" by (intro wrap_inv guard_init_inv guard_init.intros)
  have g: "ag_connections ?g = {0}" "\<exists>gc. ag_heap ?g 0 = Some gc"
    by (simp_all add: wrap_def server_guard_def newAuthGuard_def SetDeadline_def upd_conn_def Let_def)
  then obtain gc where "ag_heap ?g 0 = Some gc" by blast
  from conn_Close_once [OF inv this] g(1) show ?thesis by (simp add: Let_def)
qed

text \<open>
  Shutdown: in whatever order the pending connections are closed, afterwards none is pending,
  each of them is closed, every authenticated connection is still there and untouched, and the
  guard neither accepts a connection nor admits a guest any more.
\<close>

theorem closePending_correct:
  assumes "guard_inv g" and "set cs = ag_pending g"
  shows "let g' = closePending g cs in
    guard_inv g' \<and> ag_pending g' = {} \<and> ag_connections g' = ag_connections g - ag_pending g
    \<and> (\<forall>c. ag_heap g' c = (if c \<in> ag_pending g
          then map_option (\<lambda>gc. gc\<lparr>gc_open := False, gc_once := True\<rparr>) (ag_heap g c) else ag_heap g c))
    \<and> (\<forall>remote now. wrap g' remote now = (None, g')) \<and> (\<forall>c. admitGuest g' c = (False, g'))"
proof -
  have inv: "guard_inv (closePending_mark g)" using assms(1) by (rule closePending_mark_inv)
  have "set cs \<subseteq> dom (ag_heap (closePending_mark g))"
    using assms by (auto simp: guard_inv_def closePending_mark_def)
  note all = close_all [OF inv this]
  then have "ag_closed (closePending g cs)" by (simp add: closePending_def closePending_mark_def)
  then have "wrap (closePending g cs) remote now = (None, closePending g cs)"
    "admitGuest (closePending g cs) c = (False, closePending g cs)" for remote now c
    by (simp_all add: wrap_def admitGuest_def)
  then show ?thesis using all assms(2) by (simp add: Let_def closePending_def closePending_mark_def)
qed

theorem closePending_correct_witness:
  "let g = snd (wrap (server_guard 1 1 60 1 1) ''10.0.0.1:5000'' 100)
   in ag_pending g = {0} \<and> ag_pending (closePending g [0]) = {} \<and> fst (wrap (closePending g [0]) ''10.0.0.1:5001'' 101) = None"
proof -
  let ?g = "snd (wrap (server_guard 1 1 60 1 1) ''10.0.0.1:5000'' 100)"
  have inv: "guard_inv ?g" by (intro wrap_inv guard_init_inv guard_init.intros)
  have g: "ag_pending ?g = {0}"
    by (simp add: wrap_def server_guard_def newAuthGuard_def SetDeadline_def upd_conn_def Let_def)
  then have "set [0] = ag_pending ?g" by simp
  from closePending_correct [OF inv this] g show ?thesis by (simp add: Let_def)
qed

end
