(* ===== verification/Store.thy ===== *)
theory Store
  imports Lobby
begin

text \<open>
  \<^verbatim>\<open>internal/store\<close> (accounts and alpha-warning acknowledgements in SQLite) and \<^verbatim>\<open>internal/server/prefs.go\<close>,
  the two implementations of the menu's \<^verbatim>\<open>AlphaPrefs\<close>. The tables are maps by primary key; an SQL statement
  of the source is the update it denotes, with the foreign key checked because the connection turns
  \<^verbatim>\<open>foreign_keys\<close> on. Every statement may fail, as the fault arguments say, and then changes nothing.

  Shown: writes are all or nothing, referential integrity holds in every reachable state, an
  acknowledgement is found again and no other changes, the first-seen data of an account never
  changes, migrations bring any older schema to the current one and reject a newer one; both kinds
  of preferences satisfy the contract the menu relies on.
\<close>

section \<open>Tables and statements\<close>

record account =
  ac_public_key :: string
  ac_first_seen :: int
  ac_last_seen :: int

record tables =
  db_accounts :: "string \<rightharpoonup> account"
  db_acks :: "string \<times> string \<rightharpoonup> int"
  db_schema :: bool
  db_version :: int

datatype store_error =
    ErrInvalidKey
  | SqlError
  | NewerSchema int int
  | MigrationFailed nat
  | NotWAL string
  | CreateDirError

text \<open>\<^verbatim>\<open>INSERT INTO accounts ... ON CONFLICT (fingerprint) DO UPDATE SET last_seen\<close>.\<close>

definition sql_upsert_account :: "string \<Rightarrow> string \<Rightarrow> int \<Rightarrow> tables \<Rightarrow> tables" where
  "sql_upsert_account fp key now t =
     t\<lparr>db_accounts := (db_accounts t)(fp \<mapsto>
        (case db_accounts t fp of
           None \<Rightarrow> \<lparr>ac_public_key = key, ac_first_seen = now, ac_last_seen = now\<rparr>
         | Some a \<Rightarrow> a\<lparr>ac_last_seen := now\<rparr>))\<rparr>"

text \<open>\<^verbatim>\<open>INSERT INTO alpha_warning_acks ... ON CONFLICT DO UPDATE SET acked_at\<close>; \<open>None\<close> on a foreign key error.\<close>

definition sql_upsert_ack :: "string \<Rightarrow> string \<Rightarrow> int \<Rightarrow> tables \<Rightarrow> tables option" where
  "sql_upsert_ack fp game now t =
     (if db_accounts t fp = None then None else Some (t\<lparr>db_acks := (db_acks t)((fp, game) \<mapsto> now)\<rparr>))"

definition sql_count_acks :: "string \<Rightarrow> string \<Rightarrow> tables \<Rightarrow> int" where
  "sql_count_acks fp game t = (if db_acks t (fp, game) = None then 0 else 1)"

section \<open>Operations\<close>

definition validateKeys :: "string \<Rightarrow> string \<Rightarrow> bool" where
  "validateKeys fp game \<longleftrightarrow> fp \<noteq> [] \<and> idPattern game"

definition TouchAccount :: "bool \<Rightarrow> string \<Rightarrow> string \<Rightarrow> int \<Rightarrow> tables \<Rightarrow> store_error option \<times> tables" where
  "TouchAccount fault fp key now t =
     (if fp = [] then (Some ErrInvalidKey, t)
      else if fault then (Some SqlError, t)
      else (None, sql_upsert_account fp key now t))"

definition HasAlphaAck :: "bool \<Rightarrow> string \<Rightarrow> string \<Rightarrow> tables \<Rightarrow> store_error + bool" where
  "HasAlphaAck fault fp game t =
     (if \<not> validateKeys fp game then Inl ErrInvalidKey
      else if fault then Inl SqlError
      else Inr (0 < sql_count_acks fp game t))"

record ack_faults =
  af_begin :: bool
  af_account :: bool
  af_ack :: bool
  af_commit :: bool

text \<open>
  \<^verbatim>\<open>AckAlphaWarning\<close>: the transaction works on a copy, which a commit installs and anything else (the
  deferred rollback) drops.
\<close>

definition AckAlphaWarning ::
    "ack_faults \<Rightarrow> string \<Rightarrow> string \<Rightarrow> int \<Rightarrow> tables \<Rightarrow> store_error option \<times> tables" where
  "AckAlphaWarning f fp game now t =
     (if \<not> validateKeys fp game then (Some ErrInvalidKey, t)
      else if af_begin f \<or> af_account f then (Some SqlError, t)
      else
        (case sql_upsert_ack fp game now (sql_upsert_account fp [] now t) of
           None \<Rightarrow> (Some SqlError, t)
         | Some t' \<Rightarrow> if af_ack f \<or> af_commit f then (Some SqlError, t) else (None, t')))"

section \<open>Migrations\<close>

text \<open>The one migration: create the two tables, which fails when they exist.\<close>

definition migrations :: "(tables \<Rightarrow> tables option) list" where
  "migrations =
     [\<lambda>t. if db_schema t then None
          else Some (t\<lparr>db_schema := True, db_accounts := Map.empty, db_acks := Map.empty\<rparr>)]"

text \<open>The loop of \<^verbatim>\<open>migrate\<close> from version \<open>v\<close> on; \<open>fault k\<close> says whether migration \<open>k\<close> fails.\<close>

fun migrate_loop :: "(nat \<Rightarrow> bool) \<Rightarrow> nat \<Rightarrow> (tables \<Rightarrow> tables option) list \<Rightarrow> tables \<Rightarrow> store_error option \<times> tables" where
  "migrate_loop fault v [] t = (None, t)"
| "migrate_loop fault v (mig # ms) t =
     (if fault (v + 1) then (Some (MigrationFailed (v + 1)), t)
      else case mig t of
          None \<Rightarrow> (Some (MigrationFailed (v + 1)), t)
        | Some t' \<Rightarrow> migrate_loop fault (v + 1) ms (t'\<lparr>db_version := int (v + 1)\<rparr>))"

text \<open>A negative version indexes the slice of migrations out of range, which panics: \<open>None\<close>.\<close>

definition migrate :: "bool \<Rightarrow> (nat \<Rightarrow> bool) \<Rightarrow> tables \<Rightarrow> (store_error option \<times> tables) option" where
  "migrate readFault fault t =
     (if readFault then Some (Some SqlError, t)
      else if int (length migrations) < db_version t
      then Some (Some (NewerSchema (db_version t) (int (length migrations))), t)
      else if db_version t < 0 then None
      else Some (migrate_loop fault (nat (db_version t)) (drop (nat (db_version t)) migrations) t))"

definition db_SchemaVersion :: "bool \<Rightarrow> tables \<Rightarrow> store_error + int" where
  "db_SchemaVersion readFault t = (if readFault then Inl SqlError else Inr (db_version t))"

text \<open>
  \<^verbatim>\<open>Open\<close>: \<open>mkdir\<close> and \<open>opened\<close> say whether the directory and the database could be made and opened, \<open>mode\<close>
  is the journal mode the database reports. A store is returned only after every step succeeded.
\<close>

definition verifyWAL :: "string option \<Rightarrow> store_error option" where
  "verifyWAL mode =
     (case mode of None \<Rightarrow> Some SqlError | Some m \<Rightarrow> if m \<noteq> ''wal'' then Some (NotWAL m) else None)"

definition Open ::
    "bool \<Rightarrow> bool \<Rightarrow> string option \<Rightarrow> bool \<Rightarrow> (nat \<Rightarrow> bool) \<Rightarrow> tables \<Rightarrow> (store_error + tables) option" where
  "Open mkdir opened mode readFault fault t =
     (if \<not> mkdir then Some (Inl CreateDirError)
      else if \<not> opened then Some (Inl SqlError)
      else
        (case verifyWAL mode of
           Some e \<Rightarrow> Some (Inl e)
         | None \<Rightarrow>
             (case migrate readFault fault t of
                None \<Rightarrow> None
              | Some (Some e, _) \<Rightarrow> Some (Inl e)
              | Some (None, t') \<Rightarrow> Some (Inr t'))))"

section \<open>Preferences\<close>

type_synonym memoryPrefs = "string \<rightharpoonup> bool"

definition memory_HasAlphaAck :: "memoryPrefs \<Rightarrow> string \<Rightarrow> bool" where
  "memory_HasAlphaAck p game = (case p game of None \<Rightarrow> False | Some b \<Rightarrow> b)"

definition memory_AckAlpha :: "memoryPrefs \<Rightarrow> string \<Rightarrow> memoryPrefs" where
  "memory_AckAlpha p game = p(game \<mapsto> True)"

text \<open>
  \<^verbatim>\<open>sessionPrefs\<close>: the store (which may be absent), the player's fingerprint, what its clock says and
  whether the database fails.
\<close>

record sessionPrefs =
  sp_store :: "tables option"
  sp_fingerprint :: string
  sp_now :: int
  sp_fault :: bool

definition ack_fault :: "bool \<Rightarrow> ack_faults" where
  "ack_fault b = \<lparr>af_begin = b, af_account = False, af_ack = False, af_commit = False\<rparr>"

definition session_HasAlphaAck :: "sessionPrefs \<Rightarrow> string \<Rightarrow> bool" where
  "session_HasAlphaAck p game =
     (case sp_store p of
        None \<Rightarrow> False
      | Some t \<Rightarrow> (case HasAlphaAck (sp_fault p) (sp_fingerprint p) game t of Inl _ \<Rightarrow> False | Inr b \<Rightarrow> b))"

definition session_AckAlpha :: "sessionPrefs \<Rightarrow> string \<Rightarrow> sessionPrefs" where
  "session_AckAlpha p game =
     (case sp_store p of
        None \<Rightarrow> p
      | Some t \<Rightarrow>
          p\<lparr>sp_store := Some (snd (AckAlphaWarning (ack_fault (sp_fault p)) (sp_fingerprint p) game (sp_now p) t))\<rparr>)"

section \<open>Lemmas\<close>

definition store_inv :: "tables \<Rightarrow> bool" where
  "store_inv t \<longleftrightarrow>
     (\<forall>fp game. db_acks t (fp, game) \<noteq> None \<longrightarrow> db_accounts t fp \<noteq> None \<and> validateKeys fp game)
     \<and> (\<forall>fp. db_accounts t fp \<noteq> None \<longrightarrow> fp \<noteq> [])"

lemma AckAlphaWarning_cases:
  "AckAlphaWarning f fp game now t =
     (if validateKeys fp game \<and> \<not> af_begin f \<and> \<not> af_account f \<and> \<not> af_ack f \<and> \<not> af_commit f
      then (None, (sql_upsert_account fp [] now t)\<lparr>db_acks := (db_acks t)((fp, game) \<mapsto> now)\<rparr>)
      else (Some (if validateKeys fp game then SqlError else ErrInvalidKey), t))"
  by (simp add: AckAlphaWarning_def sql_upsert_ack_def sql_upsert_account_def)

lemma TouchAccount_inv: "store_inv t \<Longrightarrow> store_inv (snd (TouchAccount fault fp key now t))"
  by (auto simp: store_inv_def TouchAccount_def sql_upsert_account_def)

lemma AckAlphaWarning_inv: "store_inv t \<Longrightarrow> store_inv (snd (AckAlphaWarning f fp game now t))"
  by (auto simp: store_inv_def AckAlphaWarning_cases sql_upsert_account_def validateKeys_def)

inductive store_step :: "tables \<Rightarrow> tables \<Rightarrow> bool" where
  step_touch: "store_step t (snd (TouchAccount fault fp key now t))"
| step_ack: "store_step t (snd (AckAlphaWarning f fp game now t))"

inductive_cases store_stepE: "store_step t t'"

definition store_init :: "tables \<Rightarrow> bool" where
  "store_init t \<longleftrightarrow> db_accounts t = Map.empty \<and> db_acks t = Map.empty"

interpretation store: machine store_init store_step store_inv
proof unfold_locales
  show "store_init t \<Longrightarrow> store_inv t" for t by (simp add: store_init_def store_inv_def)
  show "store_inv t \<Longrightarrow> store_step t t' \<Longrightarrow> store_inv t'" for t t'
    by (erule store_stepE) (simp_all add: TouchAccount_inv AckAlphaWarning_inv)
qed

text \<open>Both implementations satisfy the interface of the menu.\<close>

interpretation memory: alpha_prefs "\<lambda>_. True" "\<lambda>_. True" memory_HasAlphaAck memory_AckAlpha
  by unfold_locales (simp_all add: memory_HasAlphaAck_def memory_AckAlpha_def)

definition session_usable :: "sessionPrefs \<Rightarrow> bool" where
  "session_usable p \<longleftrightarrow> sp_store p \<noteq> None \<and> sp_fingerprint p \<noteq> [] \<and> \<not> sp_fault p"

lemma session_has:
  "session_usable p \<Longrightarrow>
   session_HasAlphaAck p game \<longleftrightarrow> idPattern game \<and> db_acks (the (sp_store p)) (sp_fingerprint p, game) \<noteq> None"
  by (auto simp: session_usable_def session_HasAlphaAck_def HasAlphaAck_def sql_count_acks_def validateKeys_def
      split: if_splits)

lemma session_ack:
  "session_usable p \<Longrightarrow> session_usable (session_AckAlpha p game)
     \<and> sp_fingerprint (session_AckAlpha p game) = sp_fingerprint p
     \<and> db_acks (the (sp_store (session_AckAlpha p game))) =
         (if idPattern game then (db_acks (the (sp_store p)))((sp_fingerprint p, game) \<mapsto> sp_now p)
          else db_acks (the (sp_store p)))"
  by (auto simp: session_usable_def session_AckAlpha_def AckAlphaWarning_cases ack_fault_def validateKeys_def)

interpretation session: alpha_prefs session_usable idPattern session_HasAlphaAck session_AckAlpha
proof unfold_locales
  fix p :: sessionPrefs and i j
  assume u: "session_usable p"
  show "session_usable (session_AckAlpha p i)" using session_ack [OF u] by blast
  show "session_HasAlphaAck (session_AckAlpha p i) j \<longleftrightarrow> (idPattern i \<and> j = i) \<or> session_HasAlphaAck p j"
    using session_ack [OF u, of i] u by (auto simp: session_has split: if_splits)
qed

section \<open>Properties\<close>

text \<open>
  Acknowledging is a transaction. It succeeds exactly when the fingerprint is not empty, the
  game id is well-formed and the database does not fail; then that acknowledgement is found again
  and every other one is as before. When it fails nothing has changed, whatever failed.
\<close>

theorem ack_transaction:
  "(fst (AckAlphaWarning f fp game now t) = None \<longleftrightarrow>
      fp \<noteq> [] \<and> idPattern game \<and> \<not> (af_begin f \<or> af_account f \<or> af_ack f \<or> af_commit f))
   \<and> (fst (AckAlphaWarning f fp game now t) = None \<longrightarrow>
        HasAlphaAck False fp game (snd (AckAlphaWarning f fp game now t)) = Inr True
        \<and> (\<forall>fp' game'. (fp', game') \<noteq> (fp, game) \<longrightarrow>
             HasAlphaAck False fp' game' (snd (AckAlphaWarning f fp game now t)) = HasAlphaAck False fp' game' t))
   \<and> (fst (AckAlphaWarning f fp game now t) \<noteq> None \<longrightarrow> snd (AckAlphaWarning f fp game now t) = t)"
  by (auto simp: AckAlphaWarning_cases HasAlphaAck_def sql_count_acks_def validateKeys_def)

definition empty_tables :: tables where
  "empty_tables = \<lparr>db_accounts = Map.empty, db_acks = Map.empty, db_schema = True, db_version = 1\<rparr>"

theorem ack_transaction_witness:
  "let t = snd (AckAlphaWarning (ack_fault False) ''SHA256:a'' ''farm'' 7 empty_tables)
   in HasAlphaAck False ''SHA256:a'' ''farm'' t = Inr True
      \<and> HasAlphaAck False ''SHA256:b'' ''farm'' t = HasAlphaAck False ''SHA256:b'' ''farm'' empty_tables"
  using ack_transaction [of "ack_fault False" "''SHA256:a''" "''farm''" 7 empty_tables]
  by (simp add: ack_fault_def idPattern_def id_char_def Let_def)

lemma store_step_keeps:
  "store_step t t' \<Longrightarrow> db_accounts t fp = Some a \<Longrightarrow>
   \<exists>a'. db_accounts t' fp = Some a' \<and> ac_public_key a' = ac_public_key a \<and> ac_first_seen a' = ac_first_seen a"
  by (erule store_stepE) (auto simp: TouchAccount_def AckAlphaWarning_cases sql_upsert_account_def)

lemma store_steps_keep:
  "store_step\<^sup>*\<^sup>* t t' \<Longrightarrow> db_accounts t fp = Some a \<Longrightarrow>
   \<exists>a'. db_accounts t' fp = Some a' \<and> ac_public_key a' = ac_public_key a \<and> ac_first_seen a' = ac_first_seen a"
proof (induction rule: rtranclp_induct)
  case (step u v)
  then show ?case using store_step_keeps [OF step.hyps(2)] by fastforce
qed simp

text \<open>
  In every state any sequence of connections and acknowledgements, failing or not, can reach
  from an empty database, every acknowledgement belongs to an account, no account is nameless, and
  the key and the first visit recorded for an account never change again.
\<close>

theorem store_integrity:
  assumes "store_init t0" and "store_step\<^sup>*\<^sup>* t0 t" and "store_step\<^sup>*\<^sup>* t t'"
  shows "fst ` dom (db_acks t) \<subseteq> dom (db_accounts t) \<and> [] \<notin> dom (db_accounts t)
    \<and> (\<forall>fp a. db_accounts t fp = Some a \<longrightarrow>
          (\<exists>a'. db_accounts t' fp = Some a' \<and> ac_public_key a' = ac_public_key a \<and> ac_first_seen a' = ac_first_seen a))"
proof -
  have "store_inv t" by (rule store.reach_inv [OF assms(1,2)])
  then show ?thesis using store_steps_keep [OF assms(3)] by (force simp: store_inv_def)
qed

theorem store_integrity_witness:
  "let t = snd (TouchAccount False ''SHA256:a'' ''ssh-ed25519 AAAA'' 5 empty_tables);
       t' = snd (AckAlphaWarning (ack_fault False) ''SHA256:a'' ''farm'' 9 t)
   in store_step\<^sup>*\<^sup>* empty_tables t' \<and> (\<exists>a. db_accounts t' ''SHA256:a'' = Some a \<and> ac_first_seen a = 5)"
proof -
  let ?t = "snd (TouchAccount False ''SHA256:a'' ''ssh-ed25519 AAAA'' 5 empty_tables)"
  let ?u = "snd (AckAlphaWarning (ack_fault False) ''SHA256:a'' ''farm'' 9 ?t)"
  have st: "store_step\<^sup>*\<^sup>* empty_tables ?t" "store_step\<^sup>*\<^sup>* ?t ?u"
    by (rule r_into_rtranclp, rule step_touch, rule r_into_rtranclp, rule step_ack)
  have "store_init empty_tables" by (simp add: store_init_def empty_tables_def)
  moreover have "db_accounts ?t ''SHA256:a'' =
      Some \<lparr>ac_public_key = ''ssh-ed25519 AAAA'', ac_first_seen = 5, ac_last_seen = 5\<rparr>"
    by (simp add: TouchAccount_def sql_upsert_account_def empty_tables_def)
  ultimately have "\<exists>a. db_accounts ?u ''SHA256:a'' = Some a \<and> ac_first_seen a = 5"
    using store_integrity [OF _ st] by (metis account.select_convs(2))
  then show ?thesis using rtranclp_trans [OF st] by (simp add: Let_def)
qed

text \<open>
  A store that opens is at the version of the last migration, came from no newer one, and keeps a
  write-ahead log.
\<close>

theorem Open_version:
  assumes "Open mkdir opened mode readFault fault t = Some (Inr t')"
  shows "0 \<le> db_version t \<and> db_version t \<le> int (length migrations)
    \<and> db_SchemaVersion False t' = Inr (int (length migrations)) \<and> mode = Some ''wal''"
proof -
  have m: "migrate readFault fault t = Some (None, t')" and w: "verifyWAL mode = None"
    using assms by (auto simp: Open_def split: if_splits option.splits prod.splits)
  have "db_version t = 0 \<or> db_version t = 1" using m by (auto simp: migrate_def migrations_def split: if_splits)
  then show ?thesis using m w
    by (auto simp: migrate_def migrations_def db_SchemaVersion_def verifyWAL_def split: if_splits option.splits)
qed

theorem Open_version_witness:
  "db_SchemaVersion False (empty_tables\<lparr>db_schema := True\<rparr>) = Inr (int (length migrations))"
  using Open_version [of True True "Some ''wal''" False "\<lambda>_. False" empty_tables "empty_tables\<lparr>db_schema := True\<rparr>"]
  by (simp add: Open_def verifyWAL_def migrate_def migrations_def empty_tables_def)

text \<open>
  Migration: an empty database and one of the current version end at the current version with
  the schema in place, migrating again changes nothing, a newer database is refused untouched, and
  a migration that fails leaves the database at the version it had.
\<close>

theorem migrate_correct:
  assumes "db_version t = 1 \<longleftrightarrow> db_schema t" and "0 \<le> db_version t"
  shows "case migrate readFault fault t of
      None \<Rightarrow> False
    | Some (None, t') \<Rightarrow> db_version t' = 1 \<and> db_schema t' \<and> (db_version t = 1 \<longrightarrow> t' = t)
        \<and> migrate False fault t' = Some (None, t')
    | Some (Some err, t') \<Rightarrow> t' = t \<and> (1 < db_version t \<longrightarrow> readFault \<or> err = NewerSchema (db_version t) 1)"
proof -
  consider "1 < db_version t" | "db_version t = 1" | "db_version t = 0" using assms(2) by linarith
  then show ?thesis
    by cases (use assms in \<open>auto simp: migrate_def migrations_def\<close>)
qed

theorem migrate_correct_witness:
  "\<exists>t'. migrate False (\<lambda>_. False) (empty_tables\<lparr>db_schema := False, db_version := 0\<rparr>) = Some (None, t')
     \<and> db_version t' = 1 \<and> db_schema t'"
  using migrate_correct [of "empty_tables\<lparr>db_schema := False, db_version := 0\<rparr>" "\<lambda>_. False" False]
  by (auto simp: empty_tables_def migrate_def migrations_def)

text \<open>
  A keyed player who confirms an alpha warning with the box checked is never warned about that
  game again while the database works: not in the rest of this menu, whatever messages follow, and
  the acknowledgement is in the database, where every later menu of the player finds it.
\<close>

theorem alpha_dismissal_sticks:
  assumes "m_prefs m = Some p" and "session_usable p" and "m_alphaDontShow m" and "idPattern (alpha_id m)"
    and "Playable (e_games e) (alpha_id m) (m_guest m) = Inr st"
    and "(lobby_step session_HasAlphaAck session_AckAlpha)\<^sup>*\<^sup>* (fst (confirmAlpha session_AckAlpha e m)) n"
    and "g_ID (gs_Game g) = alpha_id m"
  shows "\<not> needsAlphaWarning session_HasAlphaAck g n
    \<and> (\<exists>p' t. m_prefs (fst (confirmAlpha session_AckAlpha e m)) = Some p' \<and> sp_store p' = Some t
          \<and> HasAlphaAck False (sp_fingerprint p) (alpha_id m) t = Inr True)"
proof -
  let ?p = "session_AckAlpha p (alpha_id m)"
  have "m_prefs (fst (confirmAlpha session_AckAlpha e m)) = Some ?p"
    using assms(1,3,5) by (simp add: confirmAlpha_prefs)
  moreover have "sp_store ?p = Some (the (sp_store ?p))" "sp_fingerprint p \<noteq> []"
    using session_ack [OF assms(2), of "alpha_id m"] assms(2) by (auto simp: session_usable_def)
  moreover have "HasAlphaAck False (sp_fingerprint p) (alpha_id m) (the (sp_store ?p)) = Inr True"
    using session_ack [OF assms(2), of "alpha_id m"] assms(2,4)
    by (auto simp: HasAlphaAck_def sql_count_acks_def validateKeys_def session_usable_def)
  ultimately show ?thesis using session.confirm_dismisses [OF assms(1-5) assms(6,7)] by blast
qed

definition example_dialogue :: "sessionPrefs LobbyModel" where
  "example_dialogue =
     (NewLobby (example_env [example_status ''farm'' True True] 0) False True True ''SHA256:a''
        (Some \<lparr>sp_store = Some empty_tables, sp_fingerprint = ''SHA256:a'', sp_now = 3, sp_fault = False\<rparr>) 80 24 60 [] False)
       \<lparr>m_alphaOpen := True, m_alphaGame := Some (example_status ''farm'' True True), m_alphaDontShow := True\<rparr>"

theorem alpha_dismissal_sticks_witness:
  "\<not> needsAlphaWarning session_HasAlphaAck (example_status ''farm'' True True)
      (fst (confirmAlpha session_AckAlpha (example_env [example_status ''farm'' True True] 5) example_dialogue))"
proof -
  let ?st = "example_status ''farm'' True True"
  let ?p = "\<lparr>sp_store = Some empty_tables, sp_fingerprint = ''SHA256:a'', sp_now = 3, sp_fault = False\<rparr>"
  have d: "m_prefs example_dialogue = Some ?p" "m_alphaDontShow example_dialogue" "alpha_id example_dialogue = ''farm''"
    "\<not> m_guest example_dialogue"
    by (simp_all add: example_dialogue_def NewLobby_eq refreshGames_def refreshBanner_def Let_def alpha_id_def
        example_status_def example_entry_def)
  have u: "session_usable ?p" by (simp add: session_usable_def)
  have i: "idPattern (alpha_id example_dialogue)" by (simp add: d idPattern_def id_char_def)
  have pl: "Playable (e_games (example_env [?st] 5)) (alpha_id example_dialogue) (m_guest example_dialogue) = Inr ?st"
    by (simp add: d example_env_def example_status_def example_entry_def)
  have "g_ID (gs_Game ?st) = alpha_id example_dialogue" by (simp add: d example_status_def example_entry_def)
  from alpha_dismissal_sticks [OF d(1) u d(2) i pl rtranclp.rtrancl_refl this] show ?thesis by blast
qed

text \<open>
  When the first contact of a player with the database is an acknowledgement, the account is
  created with an empty public key, and no later connection ever fills it in.
\<close>

theorem blank_key_stays:
  assumes "db_accounts t fp = None" and "fst (AckAlphaWarning f fp game now t) = None"
    and "store_step\<^sup>*\<^sup>* (snd (AckAlphaWarning f fp game now t)) t'"
  shows "\<exists>a. db_accounts t' fp = Some a \<and> ac_public_key a = []"
proof -
  have "\<exists>a. db_accounts (snd (AckAlphaWarning f fp game now t)) fp = Some a \<and> ac_public_key a = []"
    using assms(1,2) by (auto simp: AckAlphaWarning_cases sql_upsert_account_def split: if_splits)
  then show ?thesis using store_steps_keep [OF assms(3)] by metis
qed

theorem blank_key_stays_witness:
  "let t = snd (AckAlphaWarning (ack_fault False) ''SHA256:a'' ''farm'' 1 empty_tables)
   in \<exists>a. db_accounts (snd (TouchAccount False ''SHA256:a'' ''ssh-ed25519 AAAA'' 2 t)) ''SHA256:a'' = Some a
        \<and> ac_public_key a = []"
proof -
  let ?t = "snd (AckAlphaWarning (ack_fault False) ''SHA256:a'' ''farm'' 1 empty_tables)"
  have st: "store_step\<^sup>*\<^sup>* ?t (snd (TouchAccount False ''SHA256:a'' ''ssh-ed25519 AAAA'' 2 ?t))"
    by (rule r_into_rtranclp, rule step_touch)
  have "db_accounts empty_tables ''SHA256:a'' = None"
    "fst (AckAlphaWarning (ack_fault False) ''SHA256:a'' ''farm'' 1 empty_tables) = None"
    by (simp_all add: empty_tables_def AckAlphaWarning_cases ack_fault_def validateKeys_def idPattern_def id_char_def)
  from blank_key_stays [OF this st] show ?thesis by (simp add: Let_def)
qed

end
