(* ===== verification/Presence.thy ===== *)
theory Presence
  imports Registry Go_Json
begin

text \<open>
  \<^verbatim>\<open>internal/presence\<close>: the tracker of who is in the arcade (\<^verbatim>\<open>tracker.go\<close>) and the publisher of the
  player-count document (\<^verbatim>\<open>publisher.go\<close>). Seats are addresses into a heap of seat objects; a Go map
  is iterated in an unspecified order, so \<open>Counts\<close> takes the order as an argument. The file system
  calls of a write are steps with outcomes the environment chooses.

  Shown: the tracker refines a plain map from live sessions to players and places, its counts are
  the numbers of distinct players whatever the iteration order; a reader sees the old document or
  the whole new one at every instant of a write; write failures are logged at transitions only;
  the last document ever published is the offline one.
\<close>

section \<open>Tracker\<close>

record Seat =
  seat_fingerprint :: string
  seat_game :: string

record Tracker =
  t_seats :: "nat set"
  t_heap :: "nat \<rightharpoonup> Seat"
  t_next :: nat

definition NewTracker :: Tracker where
  "NewTracker = \<lparr>t_seats = {}, t_heap = Map.empty, t_next = 0\<rparr>"

definition Join :: "Tracker \<Rightarrow> string \<Rightarrow> nat \<times> Tracker" where
  "Join t fp =
     (let s = t_next t in
      (s, t\<lparr>t_seats := insert s (t_seats t),
            t_heap := (t_heap t)(s \<mapsto> \<lparr>seat_fingerprint = fp, seat_game = []\<rparr>), t_next := Suc s\<rparr>))"

definition Enter :: "Tracker \<Rightarrow> nat \<Rightarrow> string \<Rightarrow> Tracker" where
  "Enter t s gameID = t\<lparr>t_heap := (t_heap t)(s := map_option (\<lambda>x. x\<lparr>seat_game := gameID\<rparr>) (t_heap t s))\<rparr>"

definition Lobby_seat :: "Tracker \<Rightarrow> nat \<Rightarrow> Tracker" where
  "Lobby_seat t s = Enter t s []"

definition Leave :: "Tracker \<Rightarrow> nat \<Rightarrow> Tracker" where
  "Leave t s = t\<lparr>t_seats := t_seats t - {s}\<rparr>"

record Counts =
  c_Players :: int
  c_Sessions :: int
  c_InLobby :: int
  c_Games :: "string \<rightharpoonup> int"

text \<open>The loop of \<^verbatim>\<open>Counts\<close> over the seats in iteration order; a nil inner map is made on first use.\<close>

fun counts_loop ::
    "Seat list \<Rightarrow> string set \<times> string set \<times> (string \<rightharpoonup> string set)
     \<Rightarrow> string set \<times> string set \<times> (string \<rightharpoonup> string set)" where
  "counts_loop [] acc = acc"
| "counts_loop (s # ss) (players, lobby, games) =
     (let players' = insert (seat_fingerprint s) players in
      if seat_game s = [] then counts_loop ss (players', insert (seat_fingerprint s) lobby, games)
      else
        (let fps = (case games (seat_game s) of None \<Rightarrow> {} | Some x \<Rightarrow> x)
         in counts_loop ss (players', lobby, games(seat_game s \<mapsto> insert (seat_fingerprint s) fps))))"

definition Counts :: "Tracker \<Rightarrow> nat list \<Rightarrow> Counts" where
  "Counts t order =
     (let (players, lobby, games) = counts_loop (map (\<lambda>s. the (t_heap t s)) order) ({}, {}, Map.empty)
      in \<lparr>c_Players = int (card players), c_Sessions = int (length order), c_InLobby = int (card lobby),
          c_Games = (\<lambda>i. map_option (\<lambda>fps. int (card fps)) (games i))\<rparr>)"

text \<open>An order in which the map iteration can visit the seats.\<close>

definition iteration :: "Tracker \<Rightarrow> nat list \<Rightarrow> bool" where
  "iteration t order \<longleftrightarrow> distinct order \<and> set order = t_seats t"

section \<open>Specification of the tracker: the floor\<close>

text \<open>The floor maps every live session to its player and the game it is in (or the menu).\<close>

type_synonym floor = "nat \<rightharpoonup> string \<times> string"

definition floor_of :: "Tracker \<Rightarrow> floor" where
  "floor_of t = (\<lambda>s. if s \<in> t_seats t then map_option (\<lambda>x. (seat_fingerprint x, seat_game x)) (t_heap t s) else None)"

datatype floor_op = FJoin string | FEnter nat string | FLobby nat | FLeave nat

fun tracker_exec :: "Tracker \<Rightarrow> floor_op \<Rightarrow> Tracker" where
  "tracker_exec t (FJoin fp) = snd (Join t fp)"
| "tracker_exec t (FEnter s g) = Enter t s g"
| "tracker_exec t (FLobby s) = Lobby_seat t s"
| "tracker_exec t (FLeave s) = Leave t s"

text \<open>Sessions are numbered in the order they join.\<close>

fun floor_exec :: "nat \<times> floor \<Rightarrow> floor_op \<Rightarrow> nat \<times> floor" where
  "floor_exec (n, f) (FJoin fp) = (Suc n, f(n \<mapsto> (fp, [])))"
| "floor_exec (n, f) (FEnter s g) = (n, f(s := map_option (\<lambda>(fp, _). (fp, g)) (f s)))"
| "floor_exec (n, f) (FLobby s) = (n, f(s := map_option (\<lambda>(fp, _). (fp, [])) (f s)))"
| "floor_exec (n, f) (FLeave s) = (n, f(s := None))"

definition players_at :: "floor \<Rightarrow> string \<Rightarrow> string set" where
  "players_at f place = {fp. (fp, place) \<in> ran f}"

definition floor_counts :: "floor \<Rightarrow> Counts" where
  "floor_counts f =
     \<lparr>c_Players = int (card (fst ` ran f)), c_Sessions = int (card (dom f)),
      c_InLobby = int (card (players_at f [])),
      c_Games = (\<lambda>i. if i = [] \<or> players_at f i = {} then None else Some (int (card (players_at f i))))\<rparr>"

definition tracker_inv :: "Tracker \<Rightarrow> bool" where
  "tracker_inv t \<longleftrightarrow> finite (t_seats t) \<and> t_seats t \<subseteq> dom (t_heap t) \<and> (\<forall>s \<in> dom (t_heap t). s < t_next t)"

lemmas tracker_defs = Join_def Enter_def Lobby_seat_def Leave_def Let_def

lemma NewTracker_inv: "tracker_inv NewTracker"
  by (simp add: tracker_inv_def NewTracker_def)

lemma tracker_exec_inv: "tracker_inv t \<Longrightarrow> tracker_inv (tracker_exec t e)"
  by (cases e) (auto simp: tracker_inv_def tracker_defs less_Suc_eq subset_iff)

lemma tracker_exec_floor:
  assumes "tracker_inv t"
  shows "floor_exec (t_next t, floor_of t) e = (t_next (tracker_exec t e), floor_of (tracker_exec t e))"
proof -
  have "t_next t \<notin> t_seats t" using assms by (force simp: tracker_inv_def)
  then show ?thesis by (cases e) (auto simp: floor_of_def tracker_defs fun_eq_iff map_option.compositionality comp_def option.map_comp)
qed

lemma tracker_run:
  "tracker_inv (foldl tracker_exec NewTracker es) \<and>
   foldl floor_exec (0, Map.empty) es =
     (t_next (foldl tracker_exec NewTracker es), floor_of (foldl tracker_exec NewTracker es))"
proof (induction es rule: rev_induct)
  case Nil
  then show ?case using NewTracker_inv by (simp add: NewTracker_def floor_of_def fun_eq_iff)
next
  case (snoc e es)
  then show ?case using tracker_exec_inv tracker_exec_floor by simp
qed

section \<open>Counting\<close>

definition at_game :: "Seat list \<Rightarrow> string \<Rightarrow> string set" where
  "at_game ss i = seat_fingerprint ` {s \<in> set ss. seat_game s = i}"

lemma counts_loop_eq:
  "counts_loop ss (p, l, g) =
     (p \<union> seat_fingerprint ` set ss, l \<union> at_game ss [],
      (\<lambda>i. if i = [] \<or> at_game ss i = {} then g i
           else Some ((case g i of None \<Rightarrow> {} | Some x \<Rightarrow> x) \<union> at_game ss i)))"
proof (induction ss arbitrary: p l g)
  case Nil
  then show ?case by (simp add: at_game_def)
next
  case (Cons s ss)
  have step: "at_game (s # ss) i =
      (if seat_game s = i then insert (seat_fingerprint s) (at_game ss i) else at_game ss i)" for i
    by (auto simp: at_game_def)
  show ?case
    by (auto simp: Cons.IH step Let_def fun_eq_iff split: option.split)
qed

lemma Counts_floor:
  assumes "tracker_inv t" "iteration t order"
  shows "Counts t order = floor_counts (floor_of t)"
proof -
  let ?ss = "map (\<lambda>s. the (t_heap t s)) order"
  have heap: "s \<in> t_seats t \<Longrightarrow> \<exists>x. t_heap t s = Some x" for s using assms(1) by (auto simp: tracker_inv_def)
  have ran: "ran (floor_of t) = (\<lambda>x. (seat_fingerprint x, seat_game x)) ` set ?ss"
    using assms(2) heap by (force simp: ran_def floor_of_def iteration_def image_iff)
  have at: "at_game ?ss i = players_at (floor_of t) i" for i
    by (force simp: at_game_def players_at_def ran)
  have dom: "dom (floor_of t) = t_seats t" using heap by (auto simp: floor_of_def dom_def split: if_splits)
  have "fst ` ran (floor_of t) = seat_fingerprint ` set ?ss" by (simp only: ran image_image fst_conv)
  then show ?thesis
    using assms(2) distinct_card [of order]
    by (simp add: Counts_def floor_counts_def counts_loop_eq at dom iteration_def fun_eq_iff del: set_map)
qed

section \<open>Publisher\<close>

record GameSnapshot =
  sn_ID :: string
  sn_Name :: string
  sn_Status :: string
  sn_Players :: int

record Snapshot =
  sn_Version :: int
  sn_Online :: bool
  sn_UpdatedAt :: int
  sn_IntervalSeconds :: int
  sn_TotalPlayers :: int
  sn_Sessions :: int
  sn_InLobby :: int
  sn_Games :: "GameSnapshot list"

definition SchemaVersion :: int where
  "SchemaVersion = 1"

record PublisherOptions =
  po_Path :: string
  po_Interval :: int

datatype publisher_error = EmptyPath | ShortInterval int | MkdirError

record Publisher =
  p_opts :: PublisherOptions
  p_failing :: bool

text \<open>Times are nanoseconds; \<open>mkdir\<close> is the outcome of creating the directory.\<close>

definition NewPublisher :: "PublisherOptions \<Rightarrow> bool \<Rightarrow> publisher_error + Publisher" where
  "NewPublisher opts mkdir =
     (if po_Path opts = [] then Inl EmptyPath
      else if po_Interval opts < 1000000000 then Inl (ShortInterval (po_Interval opts))
      else if \<not> mkdir then Inl MkdirError
      else Inr \<lparr>p_opts = opts, p_failing = False\<rparr>)"

definition game_snapshot :: "bool \<Rightarrow> Counts \<Rightarrow> GameStatus \<Rightarrow> GameSnapshot" where
  "game_snapshot online c g =
     \<lparr>sn_ID = g_ID (gs_Game g), sn_Name = g_Name (gs_Game g),
      sn_Status = (if online \<and> gs_Online g then ''online'' else ''offline''),
      sn_Players = (if online then getd (c_Games c) (g_ID (gs_Game g)) else 0)\<rparr>"

text \<open>\<^verbatim>\<open>Build\<close>: the clock, the counts of the tracker and the games of the registry at that moment.\<close>

definition Build :: "Publisher \<Rightarrow> bool \<Rightarrow> int \<Rightarrow> Counts \<Rightarrow> GameStatus list \<Rightarrow> Snapshot" where
  "Build p online now counts games =
     \<lparr>sn_Version = SchemaVersion, sn_Online = online, sn_UpdatedAt = now div 1000000000,
      sn_IntervalSeconds = po_Interval (p_opts p) div 1000000000,
      sn_TotalPlayers = (if online then c_Players counts else 0),
      sn_Sessions = (if online then c_Sessions counts else 0),
      sn_InLobby = (if online then c_InLobby counts else 0),
      sn_Games = map (game_snapshot online counts) games\<rparr>"

text \<open>\<^verbatim>\<open>json.Marshal\<close> of the snapshot, with the field names of its struct tags.\<close>

definition marshal_game :: "GameSnapshot \<Rightarrow> string" where
  "marshal_game g =
     json_object [(''id'', json_string (sn_ID g)), (''name'', json_string (sn_Name g)),
                  (''status'', json_string (sn_Status g)), (''players'', json_int (sn_Players g))]"

definition marshal :: "Snapshot \<Rightarrow> string option" where
  "marshal s =
     (case rfc3339 (sn_UpdatedAt s) of
        None \<Rightarrow> None
      | Some at \<Rightarrow>
          Some (json_object
            [(''version'', json_int (sn_Version s)), (''online'', json_bool (sn_Online s)),
             (''updated_at'', json_string at), (''interval_seconds'', json_int (sn_IntervalSeconds s)),
             (''players'', json_int (sn_TotalPlayers s)), (''sessions'', json_int (sn_Sessions s)),
             (''in_lobby'', json_int (sn_InLobby s)), (''games'', json_array (map marshal_game (sn_Games s)))]))"

subsection \<open>Writing the file\<close>

text \<open>
  The file system maps a path to its contents and mode. A write may fail at any of its calls; a
  failed \<^verbatim>\<open>Write\<close> leaves a prefix of the data in the temporary file. The result is whether an error
  is returned, and the file system after each call, the first entry being the state before.
\<close>

type_synonym fs = "string \<rightharpoonup> string \<times> nat"

record faults =
  wf_create :: bool
  wf_write :: "nat option"
  wf_chmod :: bool
  wf_close :: bool
  wf_rename :: bool
  wf_remove :: bool

abbreviation (input) mode_0600 :: nat where
  "mode_0600 \<equiv> 384"

abbreviation (input) mode_0644 :: nat where
  "mode_0644 \<equiv> 420"

definition remove_tmp :: "faults \<Rightarrow> string \<Rightarrow> fs \<Rightarrow> fs" where
  "remove_tmp w tmp f = (if wf_remove w then f else f(tmp := None))"

definition write_file :: "faults \<Rightarrow> string \<Rightarrow> string \<Rightarrow> string option \<Rightarrow> fs \<Rightarrow> bool \<times> fs list" where
  "write_file w path tmp doc f =
     (case doc of
        None \<Rightarrow> (True, [f])
      | Some d \<Rightarrow>
          if wf_create w then (True, [f])
          else
            (let data = d @ [chr 10];
                 f1 = f(tmp \<mapsto> ([], mode_0600))
             in case wf_write w of
                  Some n \<Rightarrow> (let f2 = f(tmp \<mapsto> (take n data, mode_0600)) in (True, [f, f1, f2, remove_tmp w tmp f2]))
                | None \<Rightarrow>
                    (let f2 = f(tmp \<mapsto> (data, mode_0600))
                     in if wf_chmod w then (True, [f, f1, f2, remove_tmp w tmp f2])
                        else
                          (let f3 = f(tmp \<mapsto> (data, mode_0644))
                           in if wf_close w \<or> wf_rename w then (True, [f, f1, f2, f3, remove_tmp w tmp f3])
                              else (let f4 = (f3(tmp := None))(path \<mapsto> (data, mode_0644))
                                    in (False, [f, f1, f2, f3, f4]))))))"

datatype log_event = WriteFailed | WriteRecovered

text \<open>\<^verbatim>\<open>publish\<close> given whether the write failed: the new state and what is logged.\<close>

definition publish :: "Publisher \<Rightarrow> bool \<Rightarrow> Publisher \<times> log_event list" where
  "publish p err =
     (if err \<and> \<not> p_failing p then (p\<lparr>p_failing := True\<rparr>, [WriteFailed])
      else if \<not> err \<and> p_failing p then (p\<lparr>p_failing := False\<rparr>, [WriteRecovered])
      else (p, []))"

fun publish_all :: "Publisher \<Rightarrow> bool list \<Rightarrow> log_event list" where
  "publish_all p [] = []"
| "publish_all p (e # es) = (let (p', l) = publish p e in l @ publish_all p' es)"

subsection \<open>Life cycle\<close>

text \<open>
  \<^verbatim>\<open>Start\<close>, the loop and \<^verbatim>\<open>Close\<close> as steps: \<open>lc_out\<close> records the documents published so far, by whether
  they are online documents. The select of the loop may still take a tick after \<^verbatim>\<open>stop\<close> is closed;
  \<^verbatim>\<open>Close\<close> waits for the loop before it publishes the last document.
\<close>

datatype loop_state = NotStarted | Running | Done

datatype close_state = NotClosing | Stopping | Waiting | Closed

record lifecycle =
  lc_started :: bool
  lc_loop :: loop_state
  lc_close :: close_state
  lc_out :: "bool list"

definition new_lifecycle :: lifecycle where
  "new_lifecycle = \<lparr>lc_started = False, lc_loop = NotStarted, lc_close = NotClosing, lc_out = []\<rparr>"

inductive lifecycle_step :: "lifecycle \<Rightarrow> lifecycle \<Rightarrow> bool" where
  Start: "\<not> lc_started s \<Longrightarrow>
    lifecycle_step s (s\<lparr>lc_started := True, lc_loop := Running, lc_out := lc_out s @ [True]\<rparr>)"
| Start_again: "lc_started s \<Longrightarrow> lifecycle_step s s"
| tick: "lc_loop s = Running \<Longrightarrow> lifecycle_step s (s\<lparr>lc_out := lc_out s @ [True]\<rparr>)"
| loop_exit: "lc_loop s = Running \<Longrightarrow> lc_close s \<noteq> NotClosing \<Longrightarrow> lifecycle_step s (s\<lparr>lc_loop := Done\<rparr>)"
| Close_stop: "lc_close s = NotClosing \<Longrightarrow> lifecycle_step s (s\<lparr>lc_close := Stopping\<rparr>)"
| Close_once: "lc_close s = Stopping \<Longrightarrow>
    lifecycle_step s
      (if lc_started s then s\<lparr>lc_close := Waiting\<rparr>
       else s\<lparr>lc_close := Waiting, lc_started := True, lc_loop := Done\<rparr>)"
| Close_publish: "lc_close s = Waiting \<Longrightarrow> lc_loop s = Done \<Longrightarrow>
    lifecycle_step s (s\<lparr>lc_close := Closed, lc_out := lc_out s @ [False]\<rparr>)"

inductive_cases lifecycle_stepE: "lifecycle_step s s'"

definition lifecycle_inv :: "lifecycle \<Rightarrow> bool" where
  "lifecycle_inv s \<longleftrightarrow>
     (lc_started s \<longleftrightarrow> lc_loop s \<noteq> NotStarted) \<and> (lc_loop s = Done \<longrightarrow> lc_close s \<noteq> NotClosing)
     \<and> (lc_close s \<in> {Waiting, Closed} \<longrightarrow> lc_started s)
     \<and> (if lc_close s = Closed then lc_loop s = Done \<and> (\<exists>n. lc_out s = replicate n True @ [False])
        else \<exists>n. lc_out s = replicate n True)"

lemma replicate_snoc: "replicate n x @ [x] = replicate (Suc n) x"
  by (simp add: replicate_append_same)

lemma lifecycle_step_inv: "lifecycle_inv s \<Longrightarrow> lifecycle_step s s' \<Longrightarrow> lifecycle_inv s'"
  by (erule lifecycle_stepE) (auto simp: lifecycle_inv_def replicate_snoc simp del: replicate_Suc)

interpretation publisher: machine "\<lambda>s. s = new_lifecycle" lifecycle_step lifecycle_inv
proof unfold_locales
  show "s = new_lifecycle \<Longrightarrow> lifecycle_inv s" for s by (simp add: lifecycle_inv_def new_lifecycle_def)
qed (fact lifecycle_step_inv)

section \<open>Properties\<close>

text \<open>
  (C26) The tracker is a correct account of the floor. After any sequence of joins, game entries,
  returns to the lobby and departures, in any order and with repetitions, the counts computed in
  any iteration order of the map are those of the plain map from live sessions to players and
  places: the distinct players, the sessions, the distinct players in the menu and, for every
  game with a player, its distinct players.
\<close>

theorem tracker_counts_refine:
  "let t = foldl tracker_exec NewTracker es; f = snd (foldl floor_exec (0, Map.empty) es) in
   \<forall>order. iteration t order \<longrightarrow> Counts t order = floor_counts f"
  using tracker_run [of es] Counts_floor by (simp add: Let_def)

theorem tracker_counts_refine_witness:
  "let t = foldl tracker_exec NewTracker [FJoin ''SHA256:a'', FJoin ''SHA256:a'', FEnter 1 ''farm''] in
   iteration t [1, 0] \<and> c_Players (Counts t [1, 0]) = 1 \<and> c_InLobby (Counts t [1, 0]) = 1
   \<and> c_Games (Counts t [1, 0]) ''farm'' = Some 1"
proof -
  let ?es = "[FJoin ''SHA256:a'', FJoin ''SHA256:a'', FEnter 1 ''farm'']"
  let ?t = "foldl tracker_exec NewTracker ?es"
  let ?f = "[0 \<mapsto> (''SHA256:a'', []), 1 \<mapsto> (''SHA256:a'', ''farm'')] :: floor"
  have it: "iteration ?t [1, 0]" by (auto simp: iteration_def NewTracker_def tracker_defs)
  have f: "snd (foldl floor_exec (0, Map.empty) ?es) = ?f" by (simp add: fun_eq_iff)
  have r: "ran ?f = {(''SHA256:a'', []), (''SHA256:a'', ''farm'')}" by (auto simp: ran_def split: if_splits)
  have "Counts ?t [1, 0] = floor_counts ?f"
    using tracker_counts_refine [of ?es] it unfolding Let_def f by blast
  moreover have "players_at ?f [] = {''SHA256:a''}" "players_at ?f ''farm'' = {''SHA256:a''}"
    unfolding players_at_def r by auto
  ultimately show ?thesis using it by (simp add: floor_counts_def r Let_def)
qed

text \<open>
  The published document: every listed game appears once, in menu order; the shutdown document
  has zero counts and every game offline; it is a single line followed by a newline, whatever the
  names of the games contain.
\<close>

theorem Build_document:
  "let s = Build p online now counts games in
   map sn_ID (sn_Games s) = map (g_ID \<circ> gs_Game) games
   \<and> (\<not> online \<longrightarrow> sn_TotalPlayers s = 0 \<and> sn_Sessions s = 0 \<and> sn_InLobby s = 0
        \<and> list_all (\<lambda>g. sn_Players g = 0 \<and> sn_Status g = ''offline'') (sn_Games s))
   \<and> (online \<longrightarrow> list_all2 (\<lambda>g st. (sn_Status g = ''online'' \<longleftrightarrow> gs_Online st)
          \<and> sn_Players g = getd (c_Games counts) (g_ID (gs_Game st))) (sn_Games s) games)
   \<and> (\<forall>doc. marshal s = Some doc \<longrightarrow> printable doc)"
proof -
  have "printable (marshal_game g)" for g
    unfolding marshal_game_def
    by (rule json_object_printable) (simp add: json_string_printable json_int_printable)
  then have "marshal s = Some doc \<Longrightarrow> printable doc" for s doc
    by (auto simp: marshal_def json_string_printable json_int_printable json_bool_printable list_all_iff
        intro!: json_object_printable json_array_printable split: option.splits)
  then show ?thesis
    by (auto simp: Let_def Build_def game_snapshot_def list_all_iff list_all2_map1 list_all2_same)
qed

theorem Build_document_witness:
  "let s = Build \<lparr>p_opts = \<lparr>po_Path = ''/srv/players.json'', po_Interval = 10000000000\<rparr>, p_failing = False\<rparr> False 0
     (floor_counts Map.empty) [example_status ''farm'' True True]
   in map sn_Status (sn_Games s) = [''offline''] \<and> sn_TotalPlayers s = 0"
  using Build_document [of "\<lparr>p_opts = \<lparr>po_Path = ''/srv/players.json'', po_Interval = 10000000000\<rparr>, p_failing = False\<rparr>"
      False 0 "floor_counts Map.empty" "[example_status ''farm'' True True]"]
  by (auto simp: Let_def Build_def game_snapshot_def)

text \<open>
  (C27) The snapshot file is replaced atomically. Whatever call of the write fails, at every instant
  the file holds what it held before or, world-readable, the whole new document, the latter exactly
  when no error is returned; no other file changes, and unless removing it fails too the temporary
  file is gone at the end.
\<close>

theorem write_atomic:
  assumes "write_file w path tmp doc f = (err, trace)" and "tmp \<noteq> path" and "f tmp = None"
  shows "list_all (\<lambda>g. g path = f path \<or> (\<exists>d. doc = Some d \<and> g path = Some (d @ [chr 10], mode_0644))) trace
    \<and> list_all (\<lambda>g. \<forall>q. q \<noteq> path \<and> q \<noteq> tmp \<longrightarrow> g q = f q) trace
    \<and> (if err then last trace path = f path
       else \<exists>d. doc = Some d \<and> last trace path = Some (d @ [chr 10], mode_0644))
    \<and> (\<not> wf_remove w \<longrightarrow> last trace tmp = None)"
  using assms
  by (auto simp: write_file_def remove_tmp_def Let_def split: option.splits if_splits)

theorem write_atomic_witness:
  "let w = \<lparr>wf_create = False, wf_write = Some 3, wf_chmod = False, wf_close = False, wf_rename = False, wf_remove = False\<rparr>;
       r = write_file w ''p'' ''.p.tmp-1'' (Some ''12345'') [''p'' \<mapsto> (''old'', 420)]
   in fst r \<and> last (snd r) ''p'' = Some (''old'', 420) \<and> last (snd r) ''.p.tmp-1'' = None"
  using write_atomic [of "\<lparr>wf_create = False, wf_write = Some 3, wf_chmod = False, wf_close = False, wf_rename = False, wf_remove = False\<rparr>"
      "''p''" "''.p.tmp-1''" "Some ''12345''" "[''p'' \<mapsto> (''old'', 420)]"]
  by (simp add: write_file_def remove_tmp_def)

fun transitions :: "bool \<Rightarrow> bool list \<Rightarrow> log_event list" where
  "transitions b [] = []"
| "transitions b (e # es) =
     (if e = b then transitions e es else (if e then WriteFailed else WriteRecovered) # transitions e es)"

fun alternates :: "log_event \<Rightarrow> log_event list \<Rightarrow> bool" where
  "alternates e [] = True"
| "alternates e (x # xs) \<longleftrightarrow> x = e \<and> alternates (if e = WriteFailed then WriteRecovered else WriteFailed) xs"

lemma publish_all_transitions: "publish_all p es = transitions (p_failing p) es"
  by (induction es arbitrary: p) (auto simp: publish_def)

lemma transitions_alternate: "alternates (if b then WriteRecovered else WriteFailed) (transitions b es)"
proof (induction es arbitrary: b)
  case (Cons e es)
  then show ?case using Cons.IH [of True] Cons.IH [of False] by (cases e; cases b) auto
qed simp

lemma transitions_last:
  "last ((if b then WriteFailed else WriteRecovered) # transitions b es) = (if last (b # es) then WriteFailed else WriteRecovered)"
proof (induction es arbitrary: b)
  case (Cons e es)
  then show ?case using Cons.IH [of True] Cons.IH [of False] by (cases e; cases b) auto
qed simp

text \<open>
  Write failures are logged once per outage: over any sequence of publications the log
  alternates between a failure and a recovery, starting with a failure, and its last entry tells
  whether the file is being written now.
\<close>

theorem publish_logs_transitions:
  assumes "NewPublisher opts mkdir = Inr p"
  shows "alternates WriteFailed (publish_all p errs)
    \<and> (errs \<noteq> [] \<longrightarrow> last (WriteRecovered # publish_all p errs) = (if last errs then WriteFailed else WriteRecovered))"
proof -
  have "\<not> p_failing p" using assms by (auto simp: NewPublisher_def split: if_splits)
  then show ?thesis
    using transitions_alternate [of False errs] transitions_last [of False errs]
    by (auto simp: publish_all_transitions)
qed

theorem publish_logs_transitions_witness:
  "alternates WriteFailed (publish_all \<lparr>p_opts = \<lparr>po_Path = ''p'', po_Interval = 1000000000\<rparr>, p_failing = False\<rparr>
     [True, True, False, False, True])"
  by (rule publish_logs_transitions [THEN conjunct1, of "\<lparr>po_Path = ''p'', po_Interval = 1000000000\<rparr>" True])
    (simp add: NewPublisher_def)

text \<open>
  (C36) However \<open>Start\<close>, the ticker and \<open>Close\<close> interleave: online documents come first, at most one
  offline document is published and nothing after it; and from every reachable state in which
  \<open>Close\<close> was called, \<open>Close\<close> can finish, with the offline document as the last one.
\<close>

theorem publisher_ends_offline:
  assumes "lifecycle_step\<^sup>*\<^sup>* new_lifecycle s"
  shows "(\<exists>n. lc_out s = replicate n True @ (if lc_close s = Closed then [False] else []))
    \<and> (lc_close s \<noteq> NotClosing \<longrightarrow>
         (\<exists>s'. lifecycle_step\<^sup>*\<^sup>* s s' \<and> lc_close s' = Closed \<and> last (lc_out s') = False))"
proof -
  have inv: "lifecycle_inv s" by (rule publisher.reach_inv [OF refl assms])
  have finish: "\<exists>s'. lifecycle_step\<^sup>*\<^sup>* u s' \<and> lc_close s' = Closed \<and> last (lc_out s') = False"
    if "lifecycle_inv u" "lc_close u = Waiting" "lc_loop u = Done" for u
    using Close_publish [OF that(2,3)] by (intro exI conjI) (rule r_into_rtranclp, assumption, simp_all)
  have wait: "\<exists>s'. lifecycle_step\<^sup>*\<^sup>* u s' \<and> lc_close s' = Closed \<and> last (lc_out s') = False"
    if "lifecycle_inv u" "lc_close u = Waiting" for u
  proof (cases "lc_loop u = Done")
    case False
    then have "lc_loop u = Running" using that by (cases "lc_loop u") (auto simp: lifecycle_inv_def)
    then have st: "lifecycle_step u (u\<lparr>lc_loop := Done\<rparr>)" using that(2) by (intro loop_exit) auto
    from finish [OF lifecycle_step_inv [OF that(1) st]] that(2) st show ?thesis
      by (auto intro: converse_rtranclp_into_rtranclp)
  qed (use finish that in blast)
  have "\<exists>s'. lifecycle_step\<^sup>*\<^sup>* s s' \<and> lc_close s' = Closed \<and> last (lc_out s') = False" if nc: "lc_close s \<noteq> NotClosing"
  proof (cases "lc_close s")
    case Stopping
    note st = Close_once [OF this]
    from wait [OF lifecycle_step_inv [OF inv st]] st show ?thesis
      by (auto intro: converse_rtranclp_into_rtranclp split: if_splits)
  next
    case Closed
    then show ?thesis using inv by (intro exI [of _ s]) (auto simp: lifecycle_inv_def)
  qed (use wait inv nc in auto)
  then show ?thesis using inv by (auto simp: lifecycle_inv_def split: if_splits)
qed

theorem publisher_ends_offline_witness:
  "\<exists>s s'. lifecycle_step\<^sup>*\<^sup>* new_lifecycle s \<and> lc_close s = Stopping \<and> lifecycle_step\<^sup>*\<^sup>* s s' \<and> lc_close s' = Closed"
proof -
  have "lifecycle_step new_lifecycle (new_lifecycle\<lparr>lc_close := Stopping\<rparr>)"
    by (rule Close_stop) (simp add: new_lifecycle_def)
  then have st: "lifecycle_step\<^sup>*\<^sup>* new_lifecycle (new_lifecycle\<lparr>lc_close := Stopping\<rparr>)" by simp
  from publisher_ends_offline [OF st] st show ?thesis by fastforce
qed

end
