(* ===== verification/Server.thy ===== *)
theory Server
  imports Authguard Bridge Store Presence
begin

text \<open>
  \<^verbatim>\<open>internal/server\<close>: authentication (\<^verbatim>\<open>auth.go\<close>), per-shell contexts (\<^verbatim>\<open>scope.go\<close>), the terminal check
  (\<^verbatim>\<open>pty.go\<close>), the chain of middlewares \<^verbatim>\<open>New\<close> builds (\<^verbatim>\<open>server.go\<close>), the session handler that alternates
  between the menu and a game (\<^verbatim>\<open>handler.go\<close>) and the shutdown hooks (\<^verbatim>\<open>shutdown.go\<close>). What the SSH
  library reports about a session, the menus, the bridges and the moments the player is gone are
  arguments, one round of the handler's loop after the other.

  Shown: which sessions get which identity; shells on one connection do not see each other's
  identity; a session that is turned away leaves the budgets as they were; the handler bridges only
  into games the player may play at that moment, keeps the presence seat in step with what the
  player does and always gives it back, and reports a game offline only when it was unreachable.
\<close>

section \<open>Authentication\<close>

definition authKindExtension :: string where
  "authKindExtension = ''arcade-auth-kind''"

text \<open>The permissions of a connection: the extensions the authentication callbacks set.\<close>

type_synonym extensions = "string \<rightharpoonup> string"

definition publicKeyAuth :: "PublicKey option \<Rightarrow> extensions \<Rightarrow> bool \<times> extensions" where
  "publicKeyAuth key ext =
     (if key = None then (False, ext) else (True, [authKindExtension \<mapsto> ''keyed'']))"

text \<open>
  \<^verbatim>\<open>guestAuth\<close>: \<open>answers\<close> is what the challenge yields (\<open>None\<close> on an error), \<open>conn\<close> the guarded connection
  in the context, if there is one.
\<close>

definition guestAuth ::
    "string list option \<Rightarrow> nat option \<Rightarrow> authGuard \<Rightarrow> extensions \<Rightarrow> bool \<times> authGuard \<times> extensions" where
  "guestAuth answers conn g ext =
     (case answers of
        Some [a] \<Rightarrow>
          if ToLower (TrimSpace a) \<noteq> ''guest'' then (False, g, ext)
          else
            (case conn of
               None \<Rightarrow> (False, g, ext)
             | Some c \<Rightarrow>
                 (let (ok, g') = admitGuest g c
                  in if ok then (True, g', [authKindExtension \<mapsto> ''guest'']) else (False, g', ext)))
      | _ \<Rightarrow> (False, g, ext))"

text \<open>
  \<^verbatim>\<open>resolveIdentity\<close>: the identity stored for the shell, or \<open>None\<close> when the session is turned away;
  \<open>rnd\<close> are the random bytes of a guest token.
\<close>

definition resolveIdentity :: "bool \<Rightarrow> extensions \<Rightarrow> PublicKey option \<Rightarrow> string \<Rightarrow> string \<Rightarrow> Identity option" where
  "resolveIdentity allowGuests ext key user rnd =
     (let i = (if ext authKindExtension = Some ''keyed'' then NewKeyed key user
               else if ext authKindExtension = Some ''guest'' \<and> allowGuests \<and> key = None then NewGuest rnd
               else zero_Identity)
      in if Validate i \<noteq> None then None else Some i)"

section \<open>Contexts\<close>

text \<open>A shell's context: its own values over those of the transport it shares with other shells.\<close>

record 'v shellContext =
  sc_values :: "string \<rightharpoonup> 'v"
  sc_parent :: "string \<rightharpoonup> 'v"

definition ctx_Value :: "'v shellContext \<Rightarrow> string \<Rightarrow> 'v option" where
  "ctx_Value c key = (case sc_values c key of Some v \<Rightarrow> Some v | None \<Rightarrow> sc_parent c key)"

definition ctx_SetValue :: "'v shellContext \<Rightarrow> string \<Rightarrow> 'v \<Rightarrow> 'v shellContext" where
  "ctx_SetValue c key v = c\<lparr>sc_values := (sc_values c)(key \<mapsto> v)\<rparr>"

definition scopeSession :: "(string \<rightharpoonup> 'v) \<Rightarrow> 'v shellContext" where
  "scopeSession parent = \<lparr>sc_values = Map.empty, sc_parent = parent\<rparr>"

definition identityContextKey :: string where
  "identityContextKey = ''identity''"

definition sessionIdentity :: "Identity shellContext \<Rightarrow> Identity" where
  "sessionIdentity c = (case ctx_Value c identityContextKey of Some i \<Rightarrow> i | None \<Rightarrow> zero_Identity)"

section \<open>The session handler\<close>

text \<open>\<^verbatim>\<open>truncate\<close> cuts at a byte, as slicing a Go string does.\<close>

definition truncate_log :: "string \<Rightarrow> nat \<Rightarrow> string" where
  "truncate_log s n = (if length s \<le> n then s else take n s @ ellipsis)"

definition esc :: char where
  "esc = chr 27"

definition terminalReset :: string where
  "terminalReset =
     concat (map (\<lambda>s. esc # s) [''[?1000l'', ''[?1002l'', ''[?1003l'', ''[?1006l'', ''[?1049l'', ''[?25h'', ''[0m''])"

definition crlf :: string where
  "crlf = [chr 13, chr 10]"

definition goodbyeMessage :: string where
  "goodbyeMessage = crlf @ ''Thanks for playing '' @ emdash @ '' same key, same saves, any time.'' @ crlf"

definition guestGoodbye :: string where
  "guestGoodbye = crlf @ ''Thanks for playing '' @ emdash @ '' guest progress was not saved.'' @ crlf"

definition idleMessage :: string where
  "idleMessage = crlf @ ''Lobby idle '' @ emdash @ '' disconnecting to free the seat. Come back any time!'' @ crlf"

text \<open>
  One round of the loop: how the menu ended, the registry when the game is about to start, how a
  bridge into a given game ends, and whether the player is gone after it.
\<close>

record round =
  rd_result :: Result
  rd_games :: "GameStatus list"
  rd_bridge :: "Game \<Rightarrow> bridge_error option"
  rd_gone :: bool

datatype event =
    RunLobby string
  | Write string
  | SeatEnter string
  | SeatLobby
  | Bridged Game
  | ReportDown string

text \<open>What the player is told after a visit; a lost connection reads differently to a guest.\<close>

definition bridge_flash :: "bool \<Rightarrow> Game \<Rightarrow> bridge_error option \<Rightarrow> string" where
  "bridge_flash guest game err =
     (case err of
        None \<Rightarrow> []
      | Some ErrDialFailed \<Rightarrow> ToUpper (g_Name game) @ '' IS OFFLINE '' @ emdash @ '' TRY LATER''
      | Some (ExitError _) \<Rightarrow> ToUpper (g_Name game) @ '' CLOSED THE SESSION''
      | Some ErrAccessRejected \<Rightarrow> ''GAME ACCESS REFUSED '' @ emdash @ '' TRY AGAIN LATER''
      | Some ErrConnectionLost \<Rightarrow>
          if guest then ''GAME ENDED '' @ emdash @ '' GUEST PROGRESS WAS NOT SAVED''
          else ''CONNECTION TO '' @ ToUpper (g_Name game) @ '' LOST'')"

definition bridge_events :: "Game \<Rightarrow> bridge_error option \<Rightarrow> event list" where
  "bridge_events game err =
     [SeatEnter (g_ID game), Bridged game, SeatLobby, Write terminalReset]
     @ (if err = Some ErrDialFailed then [ReportDown (g_ID game)] else [])"

text \<open>
  The loop of \<^verbatim>\<open>handle\<close>, over the rounds the environment provides: the events and whether the handler
  has returned.
\<close>

fun handle_loop :: "Identity \<Rightarrow> string \<Rightarrow> round list \<Rightarrow> event list \<times> bool" where
  "handle_loop i flash [] = ([], False)"
| "handle_loop i flash (r # rs) =
     (let guest = (id_Kind i = Guest); more = (\<lambda>es flash'. let (es', fin) = handle_loop i flash' rs in (es @ es', fin))
      in case rd_result r of
           KindQuit \<Rightarrow> ([RunLobby flash, Write (if guest then guestGoodbye else goodbyeMessage)], True)
         | KindIdle \<Rightarrow> ([RunLobby flash, Write idleMessage], True)
         | KindNone \<Rightarrow> ([RunLobby flash], True)
         | KindPlay g \<Rightarrow>
             (case Playable (rd_games r) (g_ID g) guest of
                Inl err \<Rightarrow> more [RunLobby flash] (admission_text err)
              | Inr current \<Rightarrow>
                  (let game = gs_Game current; err = rd_bridge r game;
                       es = RunLobby flash # bridge_events game err
                   in if rd_gone r then (es, True) else more es (bridge_flash guest game err))))"

text \<open>
  \<^verbatim>\<open>handle\<close>: \<open>authkey\<close> is \<^verbatim>\<open>MarshalAuthorizedKey\<close>. A keyed player's account is touched if there is a store (an error is only logged), the
  seat is taken, the loop runs, and the deferred \<^verbatim>\<open>Leave\<close> gives the seat back when it returns. The result
  is the database, the events, the tracker and whether the handler has returned.
\<close>

definition touch_session ::
    "Identity \<Rightarrow> tables option \<Rightarrow> bool \<Rightarrow> (PublicKey \<Rightarrow> string) \<Rightarrow> int \<Rightarrow> tables option" where
  "touch_session i store fault authkey now =
     (case (id_Kind i, store, id_PublicKey i) of
        (Keyed, Some t, Some k) \<Rightarrow> Some (snd (TouchAccount fault (id_Fingerprint i) (authkey k) now t))
      | _ \<Rightarrow> store)"

fun seat_ops :: "nat \<Rightarrow> event list \<Rightarrow> floor_op list" where
  "seat_ops s [] = []"
| "seat_ops s (SeatEnter g # es) = FEnter s g # seat_ops s es"
| "seat_ops s (SeatLobby # es) = FLobby s # seat_ops s es"
| "seat_ops s (_ # es) = seat_ops s es"

definition handle ::
    "Identity \<Rightarrow> tables option \<Rightarrow> bool \<Rightarrow> (PublicKey \<Rightarrow> string) \<Rightarrow> int \<Rightarrow> Tracker \<Rightarrow> round list
     \<Rightarrow> tables option \<times> event list \<times> Tracker \<times> bool" where
  "handle i store fault authkey now t rounds =
     (let store' = touch_session i store fault authkey now;
          (s, t1) = Join t (PresenceKey i);
          (es, fin) = handle_loop i [] rounds;
          t2 = foldl tracker_exec t1 (seat_ops s es)
      in (store', es, if fin then Leave t2 s else t2, fin))"

section \<open>The middleware chain\<close>

datatype session_end = RateLimited | BadIdentity | NoSeat | NoPTY | Handled Identity

text \<open>\<^verbatim>\<open>RequirePTY\<close> in front of the handler; \<open>handler\<close> is what the handler does to the state.\<close>

definition RequirePTY :: "bool \<Rightarrow> ('s \<Rightarrow> 's) \<Rightarrow> 's \<Rightarrow> bool \<times> 's" where
  "RequirePTY hasPty handler s = (if hasPty then (True, handler s) else (False, s))"

record session_request =
  sr_ext :: extensions
  sr_key :: "PublicKey option"
  sr_user :: string
  sr_remote :: string
  sr_pty :: bool

text \<open>
  The chain in the order it runs: rate limit, channel scope, identity, budgets, terminal, handler.
  \<open>rate\<close> is the verdict of the rate limiter, \<open>handler i\<close> the effect of the handler on the budgets, which
  other sessions may change meanwhile.
\<close>

definition serve_session ::
    "bool \<Rightarrow> bool \<Rightarrow> string \<Rightarrow> (Identity \<Rightarrow> SessionLimits \<Rightarrow> SessionLimits) \<Rightarrow> session_request \<Rightarrow> SessionLimits
     \<Rightarrow> session_end \<times> SessionLimits" where
  "serve_session rate allowGuests rnd handler req l =
     (if \<not> rate then (RateLimited, l)
      else
        (case resolveIdentity allowGuests (sr_ext req) (sr_key req) (sr_user req) rnd of
           None \<Rightarrow> (BadIdentity, l)
         | Some i \<Rightarrow>
             (let c = ctx_SetValue (scopeSession Map.empty) identityContextKey i;
                  who = sessionIdentity c;
                  next = (\<lambda>(l1, _). let (ran, l2) = RequirePTY (sr_pty req) (handler who) l1 in (l2, ran));
                  (outcome, l', ran) = Middleware next who (sr_remote req) (l, False)
              in case outcome of
                   TooManySessions _ _ _ _ \<Rightarrow> (NoSeat, l')
                 | Ran \<Rightarrow> (if ran then Handled who else NoPTY, l'))))"

section \<open>Shutdown hooks\<close>

definition RegisterShutdownHook :: "('s \<Rightarrow> 's \<times> bool) list \<Rightarrow> ('s \<Rightarrow> 's \<times> bool) \<Rightarrow> ('s \<Rightarrow> 's \<times> bool) list" where
  "RegisterShutdownHook hooks h = hooks @ [h]"

text \<open>\<^verbatim>\<open>RunShutdownHooks\<close>: a hook yields the new state and whether it failed; a failure ends the run.\<close>

fun RunShutdownHooks :: "('s \<Rightarrow> 's \<times> bool) list \<Rightarrow> 's \<Rightarrow> 's \<times> bool" where
  "RunShutdownHooks [] s = (s, False)"
| "RunShutdownHooks (h # hs) s = (let (s', err) = h s in if err then (s', True) else RunShutdownHooks hs s')"

section \<open>Identities\<close>

lemma Validate_zero: "Validate zero_Identity \<noteq> None"
  by (simp add: Validate_def zero_Identity_def)

lemma Validate_NewKeyed_None: "Validate (NewKeyed None user) \<noteq> None"
  by (simp add: Validate_def NewKeyed_def zero_Identity_def Let_def)

lemma resolveIdentity_keyed:
  "ext authKindExtension = Some ''keyed'' \<Longrightarrow>
   resolveIdentity allow ext key user rnd = map_option (\<lambda>k. NewKeyed (Some k) user) key"
  using Validate_NewKeyed_None by (cases key) (auto simp: resolveIdentity_def Let_def Validate_NewKeyed)

lemma resolveIdentity_other:
  "ext authKindExtension \<noteq> Some ''keyed'' \<Longrightarrow> length rnd = 16 \<Longrightarrow>
   resolveIdentity allow ext key user rnd =
     (if ext authKindExtension = Some ''guest'' \<and> allow \<and> key = None then Some (NewGuest rnd) else None)"
  using Validate_zero by (auto simp: resolveIdentity_def Let_def Validate_NewGuest)

lemma resolveIdentity_valid: "resolveIdentity allow ext key user rnd = Some i \<Longrightarrow> Validate i = None"
  by (auto simp: resolveIdentity_def Let_def split: if_splits)

lemma sessionIdentity_stored: "sessionIdentity (ctx_SetValue (scopeSession parent) identityContextKey i) = i"
  by (simp add: sessionIdentity_def ctx_Value_def ctx_SetValue_def scopeSession_def)

section \<open>Events of the handler\<close>

lemmas handle_cases = Result.splits sum.splits

lemma handle_loop_bridged:
  "Bridged g \<in> set (fst (handle_loop i flash rs)) \<Longrightarrow>
   \<exists>r \<in> set rs. \<exists>st. Playable (rd_games r) (g_ID g) (id_Kind i = Guest) = Inr st \<and> gs_Game st = g"
proof (induction rs arbitrary: flash)
  case (Cons r rs)
  have id: "Playable gs j b = Inr st \<Longrightarrow> Playable gs (g_ID (gs_Game st)) b = Inr st" for gs j b st
    using Playable_Inr by fastforce
  from Cons.prems show ?case
    by (auto simp: split_def Let_def bridge_events_def split: handle_cases if_splits dest: Cons.IH id)
qed simp

lemma handle_loop_report:
  "ReportDown j \<in> set (fst (handle_loop i flash rs)) \<Longrightarrow>
   \<exists>r \<in> set rs. \<exists>g. g_ID g = j \<and> Bridged g \<in> set (fst (handle_loop i flash rs)) \<and> rd_bridge r g = Some ErrDialFailed"
proof (induction rs arbitrary: flash)
  case (Cons r rs)
  from Cons.prems show ?case
    by (fastforce simp: split_def Let_def bridge_events_def split: handle_cases if_splits dest: Cons.IH)
qed simp

text \<open>The presence seat says what the player is doing: in the menu, or in the game being bridged.\<close>

fun in_step :: "string \<Rightarrow> event list \<Rightarrow> bool" where
  "in_step p [] = True"
| "in_step p (SeatEnter g # es) = in_step g es"
| "in_step p (SeatLobby # es) = in_step [] es"
| "in_step p (Bridged g # es) \<longleftrightarrow> p = g_ID g \<and> in_step p es"
| "in_step p (RunLobby f # es) \<longleftrightarrow> p = [] \<and> in_step p es"
| "in_step p (Write t # es) = in_step p es"
| "in_step p (ReportDown j # es) = in_step p es"

lemma handle_loop_in_step: "in_step [] (fst (handle_loop i flash rs))"
  by (induction rs arbitrary: flash)
    (auto simp: split_def Let_def bridge_events_def split: Result.split sum.split)

section \<open>The seat\<close>

lemma seat_ops_floor:
  assumes "tracker_inv t" "s \<in> t_seats t"
  shows "tracker_inv (foldl tracker_exec t (seat_ops s es))
    \<and> t_next (foldl tracker_exec t (seat_ops s es)) = t_next t
    \<and> (\<forall>s'. s' \<noteq> s \<longrightarrow> floor_of (foldl tracker_exec t (seat_ops s es)) s' = floor_of t s')"
  using assms
proof (induction s es arbitrary: t rule: seat_ops.induct)
  case (2 s g es)
  have "tracker_inv (Enter t s g)" "s \<in> t_seats (Enter t s g)"
    using 2 tracker_exec_inv [of t "FEnter s g"] by (simp_all add: Enter_def)
  from 2 this show ?case by (simp add: floor_of_def Enter_def)
next
  case (3 s es)
  have "tracker_inv (Lobby_seat t s)" "s \<in> t_seats (Lobby_seat t s)"
    using 3 tracker_exec_inv [of t "FLobby s"] by (simp_all add: Lobby_seat_def Enter_def)
  from 3 this show ?case by (simp add: floor_of_def Lobby_seat_def Enter_def)
qed simp_all

lemma floor_Leave: "floor_of (Leave t k) = (floor_of t)(k := None)"
  by (auto simp: floor_of_def Leave_def fun_eq_iff)

lemma handle_leaves:
  assumes "tracker_inv t" "handle i store fault authkey now t rounds = (store', es, t', fin)"
  shows "tracker_inv t' \<and> (\<forall>s. s \<noteq> t_next t \<longrightarrow> floor_of t' s = floor_of t s)
    \<and> (fin \<longrightarrow> floor_of t' = floor_of t) \<and> es = fst (handle_loop i [] rounds)"
proof -
  let ?s = "t_next t" and ?t = "snd (Join t (PresenceKey i))"
  have fresh: "?s \<notin> t_seats t" using assms(1) by (force simp: tracker_inv_def)
  have es: "es = fst (handle_loop i [] rounds)" "fin = snd (handle_loop i [] rounds)"
    using assms(2) by (auto simp: handle_def split_def Let_def)
  let ?u = "foldl tracker_exec ?t (seat_ops ?s es)"
  have t': "t' = (if fin then Leave ?u ?s else ?u)"
    using assms(2) es by (auto simp: handle_def split_def Let_def Join_def)
  have inv: "tracker_inv ?t" "?s \<in> t_seats ?t"
    using tracker_exec_inv [OF assms(1), of "FJoin (PresenceKey i)"] by (simp_all add: Join_def Let_def)
  have j: "s \<noteq> ?s \<Longrightarrow> floor_of ?t s = floor_of t s" for s by (simp add: floor_of_def Join_def Let_def)
  note run = seat_ops_floor [OF inv, of es]
  have others: "s \<noteq> ?s \<Longrightarrow> floor_of t' s = floor_of t s" for s
    using run j t' by (simp add: floor_Leave)
  have "floor_of t' ?s = floor_of t ?s" if fin
    using that t' fresh by (simp add: floor_Leave) (simp add: floor_of_def)
  moreover have "tracker_inv t'" using run t' tracker_exec_inv [of ?u "FLeave ?s"] by auto
  ultimately show ?thesis using others es(1) by (metis ext)
qed

section \<open>Budgets\<close>

lemma decr_incr: "tallies m c \<Longrightarrow> decr (incr m k) k = m"
  by (auto simp: tallies_def decr_def incr_def getd_def fun_eq_iff Let_def)

lemma release_acquire:
  assumes "limits_rel l S" "acquire l i ip = (True, l')"
  shows "release l' i ip = l"
proof -
  have tk: "tallies (perKey l) (\<lambda>fp. count S (SKey fp))"
    and ti: "tallies (perIP l) (\<lambda>p. count S (SGuest p))" using assms(1) by (auto simp: limits_rel_def)
  have g: "getd (incr m k) k = getd m k + 1" for m :: "string \<rightharpoonup> int" and k by (simp add: getd_def incr_def)
  show ?thesis
    using assms(2) decr_incr [OF tk] decr_incr [OF ti] tallies_getd [OF tk] tallies_getd [OF ti]
    by (auto simp: acquire_def release_def g split: if_splits)
qed

lemma serve_session_cases:
  assumes "limits_rel l S" "serve_session rate allow rnd handler req l = (out, l')"
  shows "(\<forall>i. out \<noteq> Handled i) \<and> l' = l
    \<or> (\<exists>i l1. out = Handled i \<and> rate \<and> sr_pty req
         \<and> resolveIdentity allow (sr_ext req) (sr_key req) (sr_user req) rnd = Some i
         \<and> acquire l i (clientIP (sr_remote req)) = (True, l1)
         \<and> l' = release (handler i l1) i (clientIP (sr_remote req)))"
proof (cases "resolveIdentity allow (sr_ext req) (sr_key req) (sr_user req) rnd")
  case None
  then show ?thesis using assms(2) by (auto simp: serve_session_def split: if_splits)
next
  case (Some i)
  obtain ok l1 where a: "acquire l i (clientIP (sr_remote req)) = (ok, l1)" by force
  have same: "\<not> ok \<Longrightarrow> l1 = l" using a by (auto simp: acquire_def split: if_splits)
  have undo: "ok \<Longrightarrow> release l1 i (clientIP (sr_remote req)) = l" using release_acquire [OF assms(1)] a by simp
  show ?thesis
    using assms(2) Some a same undo
    by (auto simp: serve_session_def sessionIdentity_stored Middleware_def RequirePTY_def split_def Let_def
        split: if_splits middleware_outcome.splits)
qed

section \<open>Properties\<close>

text \<open>
  Who a session is. A session authenticated with a key is that key's player with the slot of
  its user name, and is turned away when there is no key after all. A session authenticated as a
  guest is a guest with a fresh token, provided guests are allowed and it presented no key at all.
  Any other session is turned away, and whoever is not has a valid identity.
\<close>

theorem resolveIdentity_exact:
  assumes "length rnd = 16"
  shows "resolveIdentity allow ext key user rnd =
     (if ext authKindExtension = Some ''keyed'' then map_option (\<lambda>k. NewKeyed (Some k) user) key
      else if ext authKindExtension = Some ''guest'' \<and> allow \<and> key = None then Some (NewGuest rnd)
      else None)
   \<and> (\<forall>i. resolveIdentity allow ext key user rnd = Some i \<longrightarrow> Validate i = None)"
  using resolveIdentity_keyed resolveIdentity_other [OF _ assms] resolveIdentity_valid by auto

theorem resolveIdentity_exact_witness:
  "resolveIdentity True [authKindExtension \<mapsto> ''guest''] (Some \<lparr>key_Type = ''k'', key_Marshal = ''m''\<rparr>) ''u'' (replicate 16 (CHR ''x'')) = None
   \<and> resolveIdentity True [authKindExtension \<mapsto> ''guest''] None ''u'' (replicate 16 (CHR ''x'')) = Some (NewGuest (replicate 16 (CHR ''x'')))"
  using resolveIdentity_exact [of "replicate 16 (CHR ''x'')"] by simp

text \<open>
  Guest authentication succeeds exactly when the one answer is \<^verbatim>\<open>guest\<close>, up to case and surrounding
  space, and the guard admits the connection as a guest. It keeps the guard's invariant, and a
  connection it accepts is counted as a guest connection.
\<close>

theorem guestAuth_exact:
  assumes "guard_inv g"
  shows "(fst (guestAuth answers conn g ext) \<longleftrightarrow>
            (\<exists>a c. answers = Some [a] \<and> ToLower (TrimSpace a) = ''guest'' \<and> conn = Some c \<and> fst (admitGuest g c)))
    \<and> guard_inv (fst (snd (guestAuth answers conn g ext)))
    \<and> (fst (guestAuth answers conn g ext) \<longrightarrow>
         (\<exists>c. conn = Some c \<and> c \<in> ag_connections g
            \<and> ag_guestConnections (fst (snd (guestAuth answers conn g ext))) c \<noteq> None
            \<and> snd (snd (guestAuth answers conn g ext)) = [authKindExtension \<mapsto> ''guest'']))"
proof -
  have adm: "fst (admitGuest g c) \<Longrightarrow> c \<in> ag_connections g \<and> ag_guestConnections (snd (admitGuest g c)) c \<noteq> None" for c
    by (auto simp: admitGuest_def Let_def split: if_splits)
  have inv: "guard_inv (snd (admitGuest g c))" for c by (rule admitGuest_inv [OF assms])
  show ?thesis
  proof (cases "\<exists>a. answers = Some [a] \<and> ToLower (TrimSpace a) = ''guest''")
    case True
    then show ?thesis using assms inv adm
      by (cases conn) (auto simp: guestAuth_def split_def Let_def split: if_splits)
  next
    case False
    then have "guestAuth answers conn g ext = (False, g, ext)"
      by (auto simp: guestAuth_def split: option.split list.split)
    then show ?thesis using False assms by auto
  qed
qed

lemma example_guard_inv: "guard_inv (snd (wrap (server_guard 1 1 60 1 1) ''10.0.0.1:5000'' 100))"
  by (intro wrap_inv guard_init_inv guard_init.intros)

theorem guestAuth_exact_witness:
  "fst (guestAuth (Some [''guest'']) (Some 0) (snd (wrap (server_guard 1 1 60 1 1) ''10.0.0.1:5000'' 100)) Map.empty)"
proof -
  let ?g = "snd (wrap (server_guard 1 1 60 1 1) ''10.0.0.1:5000'' 100)"
  have "validSlot ''guest''" by (simp add: validSlot_def maxSlotLen_def slot_rune_def)
  then have "ToLower (TrimSpace ''guest'') = ''guest''" by (rule validSlot_trim_lower)
  moreover have "fst (admitGuest ?g 0)"
    by (simp add: wrap_def server_guard_def newAuthGuard_def SetDeadline_def upd_conn_def admitGuest_def getd_def Let_def)
  ultimately show ?thesis
    using guestAuth_exact [OF example_guard_inv, of "Some [''guest'']" "Some 0" Map.empty] by blast
qed

text \<open>
  (C13) The chain in front of the handler. A session that is rate limited, has no valid identity,
  finds no seat or brings no terminal leaves every budget exactly as it was. A session that reaches
  the handler was identified, had room in every budget that applies to it, and its seat is released
  with the identity and address it was taken with.
\<close>

theorem serve_session_budgets:
  assumes "limits_rel l S" and "serve_session rate allow rnd handler req l = (out, l')"
  shows "((\<forall>i. out \<noteq> Handled i) \<longrightarrow> l' = l)
    \<and> (\<forall>i. out = Handled i \<longrightarrow>
          resolveIdentity allow (sr_ext req) (sr_key req) (sr_user req) rnd = Some i \<and> sr_pty req
          \<and> room l S (sess_of i (clientIP (sr_remote req)))
          \<and> (\<exists>l1. acquire l i (clientIP (sr_remote req)) = (True, l1)
               \<and> l' = release (handler i l1) i (clientIP (sr_remote req))))"
proof -
  have "room l S (sess_of i ip)" if "acquire l i ip = (True, l1)" "Validate i = None" for i ip l1
    using acquire_refines [OF assms(1) that(2), of ip] that(1) by (auto split: if_splits)
  then show ?thesis
    using serve_session_cases [OF assms] resolveIdentity_valid by blast
qed

theorem serve_session_budgets_witness:
  "snd (serve_session True True (replicate 16 (CHR ''x'')) (\<lambda>_ l. l)
     \<lparr>sr_ext = [authKindExtension \<mapsto> ''guest''], sr_key = None, sr_user = ''u'', sr_remote = ''10.0.0.1:5000'', sr_pty = False\<rparr>
     (NewSessionLimits 2 1 1 1)) = NewSessionLimits 2 1 1 1"
proof -
  let ?req = "\<lparr>sr_ext = [authKindExtension \<mapsto> ''guest''], sr_key = None, sr_user = ''u'', sr_remote = ''10.0.0.1:5000'', sr_pty = False\<rparr>"
  have r: "limits_rel (NewSessionLimits 2 1 1 1) {#}"
    by (simp add: limits_rel_def NewSessionLimits_def guest_count_def)
  obtain out l' where s: "serve_session True True (replicate 16 (CHR ''x'')) (\<lambda>_ l. l) ?req (NewSessionLimits 2 1 1 1) = (out, l')"
    by force
  from serve_session_budgets [OF r s] s show ?thesis by auto
qed


definition example_round :: "Result \<Rightarrow> round" where
  "example_round res =
     \<lparr>rd_result = res, rd_games = [example_status ''farm'' True True], rd_bridge = (\<lambda>_. Some ErrDialFailed), rd_gone = False\<rparr>"


text \<open>
  The presence seat is always given back: whatever the rounds were, while the session lasts no
  other session's seat is touched, and once the handler returns, through any of its exits, the
  floor is exactly what it was before the session joined.
\<close>

theorem handle_seat_returned:
  assumes "tracker_inv t" and "handle i store fault authkey now t rounds = (store', es, t', fin)"
  shows "tracker_inv t' \<and> (\<forall>s. s \<noteq> t_next t \<longrightarrow> floor_of t' s = floor_of t s) \<and> (fin \<longrightarrow> floor_of t' = floor_of t)"
  using handle_leaves [OF assms] by blast

theorem handle_seat_returned_witness:
  "floor_of (fst (snd (snd (handle (NewGuest (replicate 16 (CHR ''x''))) None False (\<lambda>_. []) 0 NewTracker [example_round KindQuit]))))
     = Map.empty"
proof -
  obtain s es t f where h: "handle (NewGuest (replicate 16 (CHR ''x''))) None False (\<lambda>_. []) 0 NewTracker [example_round KindQuit] = (s, es, t, f)"
    by (metis prod_cases4)
  then have f by (auto simp: handle_def split_def Let_def example_round_def)
  with handle_seat_returned [OF NewTracker_inv h] h show ?thesis
    by (simp add: floor_of_def NewTracker_def fun_eq_iff)
qed

text \<open>
  The hooks run in the order they were registered, up to the first that fails.
\<close>

lemma RunShutdownHooks_ok:
  "\<not> snd (RunShutdownHooks hs s) \<Longrightarrow> fst (RunShutdownHooks hs s) = foldl (\<lambda>s h. fst (h s)) s hs"
  by (induction hs arbitrary: s) (auto simp: split_def Let_def split: if_splits)

lemma RunShutdownHooks_register:
  "RunShutdownHooks (RegisterShutdownHook hs h) s =
     (if snd (RunShutdownHooks hs s) then RunShutdownHooks hs s else h (fst (RunShutdownHooks hs s)))"
  by (induction hs arbitrary: s) (auto simp: RegisterShutdownHook_def split_def Let_def prod_eq_iff)

end
