(* ===== verification/Login.thy ===== *)
theory Login
  imports Server
begin

text \<open>
  How a connection logs in: the callbacks \<^verbatim>\<open>server.New\<close> gives the SSH library (\<^verbatim>\<open>WrapConn\<close>, the
  authentication log and the handlers for keys and guests), called for any sequence of attempts a
  client makes, with other connections acting on the guard in between. The library is modelled by
  what it documents: a handler may be called for a key that is only offered; the key of a session is
  the one the key handler accepted last; and only an attempt that a handler accepted, for a key one
  that came with a valid signature, ends the authentication.

  Shown: the identity a session gets is the key it proved, or a guest the guard has counted.
\<close>

section \<open>The callbacks\<close>

text \<open>What the context of a connection and its permissions hold, beside the guard all connections share.\<close>

record login_state =
  lg_guard :: authGuard
  lg_conn :: "nat option"
  lg_ext :: extensions
  lg_key :: "PublicKey option"

text \<open>\<^verbatim>\<open>WrapConn\<close>: a connection the guard refuses is not served (\<open>False\<close>), one it takes is remembered.\<close>

definition WrapConn :: "string \<Rightarrow> int \<Rightarrow> authGuard \<Rightarrow> bool \<times> login_state" where
  "WrapConn remote now g =
     (let (conn, g') = wrap g remote now; s = \<lparr>lg_guard = g', lg_conn = None, lg_ext = Map.empty, lg_key = None\<rparr>
      in case conn of None \<Rightarrow> (False, s) | Some c \<Rightarrow> (True, s\<lparr>lg_conn := Some c\<rparr>))"

text \<open>\<^verbatim>\<open>AuthLogCallback\<close>, which the library calls with the outcome of every attempt.\<close>

definition AuthLogCallback :: "bool \<Rightarrow> login_state \<Rightarrow> login_state" where
  "AuthLogCallback failed s =
     (if failed then s
      else case lg_conn s of None \<Rightarrow> s | Some c \<Rightarrow> s\<lparr>lg_guard := authenticated (lg_guard s) c\<rparr>)"

text \<open>
  An attempt to authenticate. The key callback is called for a key that is merely offered, too, and
  the library keeps the key it was called with last; \<open>proved\<close> says that a valid signature came with
  it. \<open>Meanwhile\<close> is what other connections do to the guard between attempts.
\<close>

datatype auth_attempt =
    KeyAttempt PublicKey bool
  | GuestAttempt "string list option"
  | OtherAttempt
  | Meanwhile "authGuard \<Rightarrow> authGuard"

text \<open>
  The attempts one after the other, up to the first that succeeds; guests are asked only if they are
  allowed.
\<close>

fun login :: "bool \<Rightarrow> auth_attempt list \<Rightarrow> login_state \<Rightarrow> bool \<times> login_state" where
  "login allowGuests [] s = (False, s)"
| "login allowGuests (KeyAttempt key proved # as) s =
     (let (ok, ext) = publicKeyAuth (Some key) (lg_ext s);
          s1 = (if ok then s\<lparr>lg_ext := ext, lg_key := Some key\<rparr> else s\<lparr>lg_ext := ext\<rparr>)
      in if ok \<and> proved then (True, AuthLogCallback False s1) else login allowGuests as (AuthLogCallback True s1))"
| "login allowGuests (GuestAttempt answers # as) s =
     (if allowGuests then
        (let (ok, g, ext) = guestAuth answers (lg_conn s) (lg_guard s) (lg_ext s);
             s1 = s\<lparr>lg_guard := g, lg_ext := ext\<rparr>
         in if ok then (True, AuthLogCallback False s1) else login allowGuests as (AuthLogCallback True s1))
      else login allowGuests as (AuthLogCallback True s))"
| "login allowGuests (OtherAttempt # as) s = login allowGuests as (AuthLogCallback True s)"
| "login allowGuests (Meanwhile f # as) s = login allowGuests as (s\<lparr>lg_guard := f (lg_guard s)\<rparr>)"

section \<open>Who is logged in\<close>

lemma AuthLogCallback_simps [simp]:
  "lg_ext (AuthLogCallback f s) = lg_ext s" "lg_key (AuthLogCallback f s) = lg_key s" "lg_conn (AuthLogCallback f s) = lg_conn s"
  "AuthLogCallback True s = s"
  by (simp_all add: AuthLogCallback_def split: option.split)

lemma authenticated_inv: "guard_inv g \<Longrightarrow> guard_inv (authenticated g c)"
  by (simp add: authenticated_def authenticated_unpend_inv authenticated_ready_inv)

lemma authenticated_simps [simp]:
  "ag_pending (authenticated g c) = ag_pending g - {c}" "ag_guestConnections (authenticated g c) = ag_guestConnections g"
  by (simp_all add: authenticated_def authenticated_unpend_def authenticated_ready_def upd_conn_def)

text \<open>
  What holds of a connection on which the attempt \<open>a\<close> succeeded after those of \<open>pre\<close>: it proved the key
  the library has, or it was counted as a guest. \<open>key\<close> is the key the library had before.
\<close>

definition logged_in :: "bool \<Rightarrow> PublicKey option \<Rightarrow> auth_attempt list \<Rightarrow> auth_attempt \<Rightarrow> nat \<Rightarrow> login_state \<Rightarrow> bool" where
  "logged_in allow key pre a c s \<longleftrightarrow>
     guard_inv (lg_guard s) \<and> c \<notin> ag_pending (lg_guard s)
     \<and> (case a of
          KeyAttempt k proved \<Rightarrow> proved \<and> lg_ext s authKindExtension = Some ''keyed'' \<and> lg_key s = Some k
        | GuestAttempt _ \<Rightarrow>
            allow \<and> lg_ext s authKindExtension = Some ''guest'' \<and> ag_guestConnections (lg_guard s) c \<noteq> None
            \<and> (lg_key s = None \<longleftrightarrow> key = None \<and> (\<forall>k p. KeyAttempt k p \<notin> set pre))
        | _ \<Rightarrow> False)"

definition login_by :: "bool \<Rightarrow> PublicKey option \<Rightarrow> auth_attempt list \<Rightarrow> nat \<Rightarrow> login_state \<Rightarrow> bool" where
  "login_by allow key as c s \<longleftrightarrow> (\<exists>pre a rest. as = pre @ a # rest \<and> logged_in allow key pre a c s)"

lemma login_by_now: "logged_in allow key [] a c s \<Longrightarrow> login_by allow key (a # as) c s"
  unfolding login_by_def by (metis append_Nil)

lemma login_by_later:
  assumes "login_by allow key' as c s" "key' = None \<longleftrightarrow> key = None \<and> (\<forall>k p. a \<noteq> KeyAttempt k p)"
  shows "login_by allow key (a # as) c s"
proof -
  obtain pre b rest where "as = pre @ b # rest" "logged_in allow key' pre b c s" using assms(1) by (auto simp: login_by_def)
  then have "a # as = (a # pre) @ b # rest" "logged_in allow key (a # pre) b c s"
    using assms(2) by (auto simp: logged_in_def split: auth_attempt.splits)
  then show ?thesis unfolding login_by_def by blast
qed

definition undisturbed :: "auth_attempt list \<Rightarrow> bool" where
  "undisturbed as \<longleftrightarrow> (\<forall>f g. Meanwhile f \<in> set as \<longrightarrow> guard_inv g \<longrightarrow> guard_inv (f g))"

lemma guestAuth_cases:
  assumes "guestAuth answers conn g ext = (ok, g', ext')" "guard_inv g"
  shows "guard_inv g'" "ok \<Longrightarrow> ext' = [authKindExtension \<mapsto> ''guest''] \<and> (\<exists>c. conn = Some c \<and> ag_guestConnections g' c \<noteq> None)"
    "\<not> ok \<Longrightarrow> ext' = ext"
  using guestAuth_exact [OF assms(2), of answers conn ext] assms(1)
  by (auto simp: guestAuth_def split_def Let_def split: if_splits option.splits list.splits)

lemma login_ok:
  "login allow as s = (True, s') \<Longrightarrow> undisturbed as \<Longrightarrow> guard_inv (lg_guard s) \<Longrightarrow> lg_conn s = Some c
   \<Longrightarrow> login_by allow (lg_key s) as c s'"
proof (induction allow as s rule: login.induct)
  case (2 allow k proved as s)
  let ?s1 = "s\<lparr>lg_ext := [authKindExtension \<mapsto> ''keyed''], lg_key := Some k\<rparr>"
  show ?case
  proof (cases proved)
    case True
    then have "logged_in allow (lg_key s) [] (KeyAttempt k proved) c s'"
      using 2 by (auto simp: publicKeyAuth_def AuthLogCallback_def logged_in_def authenticated_inv)
    then show ?thesis by (rule login_by_now)
  next
    case False
    then have "login_by allow (lg_key ?s1) as c s'"
      using 2 by (simp add: publicKeyAuth_def undisturbed_def)
    then show ?thesis by (rule login_by_later) simp
  qed
next
  case (3 allow answers as s)
  obtain ok g ext where g: "guestAuth answers (lg_conn s) (lg_guard s) (lg_ext s) = (ok, g, ext)" by (metis prod_cases3)
  note c = guestAuth_cases [OF g 3(5)]
  show ?case
  proof (cases "allow \<and> ok")
    case True
    then have "s' = AuthLogCallback False (s\<lparr>lg_guard := g, lg_ext := ext\<rparr>)" using 3(3) g by simp
    then have "logged_in allow (lg_key s) [] (GuestAttempt answers) c s'"
      using c True 3(6) by (simp add: AuthLogCallback_def logged_in_def authenticated_inv)
    then show ?thesis by (rule login_by_now)
  next
    case False
    have "undisturbed as" using 3(4) by (simp add: undisturbed_def)
    with False have "login_by allow (lg_key s) as c s'" using 3 g c by (auto split: if_splits)
    then show ?thesis by (rule login_by_later) simp
  qed
qed (auto simp: undisturbed_def intro: login_by_later)

section \<open>Properties\<close>

text \<open>
  (C12) Nobody plays under a key they did not prove. Whatever a client tries, and whatever other
  connections do meanwhile: when it has authenticated, its connection is no longer pending; if a key
  did it, that key was proved and is the one the session's identity is made of; if the guest prompt
  did it, then guests are allowed, the connection is counted against the guest budgets, and the
  session becomes a guest exactly if the client had not so much as offered a key before, and is
  turned away otherwise.
\<close>

theorem login_identity:
  assumes "guard_inv g" and "WrapConn remote now g = (True, s)" and "undisturbed as"
    and "login allow as s = (True, s')" and "length bytes = 16"
  shows "\<exists>c pre a rest. lg_conn s = Some c \<and> guard_inv (lg_guard s') \<and> c \<notin> ag_pending (lg_guard s')
    \<and> as = pre @ a # rest
    \<and> (case a of
         KeyAttempt k proved \<Rightarrow>
           proved \<and> resolveIdentity allow (lg_ext s') (lg_key s') user bytes = Some (NewKeyed (Some k) user)
       | GuestAttempt _ \<Rightarrow>
           allow \<and> ag_guestConnections (lg_guard s') c \<noteq> None
           \<and> resolveIdentity allow (lg_ext s') (lg_key s') user bytes
             = (if \<exists>k p. KeyAttempt k p \<in> set pre then None else Some (NewGuest bytes))
       | _ \<Rightarrow> False)"
proof -
  obtain c where c: "lg_conn s = Some c" "lg_key s = None" "guard_inv (lg_guard s)"
    using assms(2) wrap_inv [OF assms(1), of remote now] by (auto simp: WrapConn_def split_def Let_def split: option.splits)
  obtain pre a rest where a: "as = pre @ a # rest" "logged_in allow None pre a c s'"
    using login_ok [OF assms(4,3) c(3,1)] c(2) by (auto simp: login_by_def)
  then show ?thesis
    using c(1) resolveIdentity_keyed [of "lg_ext s'" allow "lg_key s'" user bytes]
      resolveIdentity_other [of "lg_ext s'" bytes allow "lg_key s'" user] assms(5)
    by (intro exI [of _ c] exI [of _ pre] exI [of _ a] exI [of _ rest])
      (auto simp: logged_in_def split: auth_attempt.splits)
qed

theorem login_identity_witness:
  "let s = snd (WrapConn ''10.0.0.1:5000'' 100 (server_guard 1 1 60 1 1));
       k = (\<lambda>m. \<lparr>key_Type = ''ssh-ed25519'', key_Marshal = m\<rparr>);
       s' = snd (login True [OtherAttempt, KeyAttempt (k ''stolen'') False, KeyAttempt (k ''own'') True] s)
   in ag_pending (lg_guard s') = {}
      \<and> resolveIdentity True (lg_ext s') (lg_key s') ''scout'' (replicate 16 (CHR ''x'')) = Some (NewKeyed (Some (k ''own'')) ''scout'')"
proof -
  define k where "k = (\<lambda>m. \<lparr>key_Type = ''ssh-ed25519'', key_Marshal = m\<rparr> :: PublicKey)"
  define s where "s = snd (WrapConn ''10.0.0.1:5000'' 100 (server_guard 1 1 60 1 1))"
  let ?as = "[OtherAttempt, KeyAttempt (k ''stolen'') False, KeyAttempt (k ''own'') True]"
  define s' where "s' = snd (login True ?as s)"
  have g: "guard_inv (server_guard 1 1 60 1 1)" by (intro guard_init_inv guard_init.intros)
  have w: "WrapConn ''10.0.0.1:5000'' 100 (server_guard 1 1 60 1 1) = (True, s)" and c: "lg_conn s = Some 0" "ag_pending (lg_guard s) = {0}"
    by (simp_all add: s_def WrapConn_def wrap_def server_guard_def newAuthGuard_def SetDeadline_def upd_conn_def Let_def)
  have l: "login True ?as s = (True, s')" and p: "ag_pending (lg_guard s') = {}"
    using c by (simp_all add: s'_def publicKeyAuth_def AuthLogCallback_def)
  have u: "undisturbed ?as" by (simp add: undisturbed_def)
  let ?i = "resolveIdentity True (lg_ext s') (lg_key s') ''scout'' (replicate 16 (CHR ''x''))"
  have "length (replicate 16 (CHR ''x'')) = 16" by simp
  from login_identity [OF g w u l this, of "''scout''"]
  obtain c pre a rest where a: "?as = pre @ a # rest"
    and i: "case a of KeyAttempt k' proved \<Rightarrow> proved \<and> ?i = Some (NewKeyed (Some k') ''scout'')
      | GuestAttempt _ \<Rightarrow> True \<and> ag_guestConnections (lg_guard s') c \<noteq> None
          \<and> ?i = (if \<exists>k p. KeyAttempt k p \<in> set pre then None else Some (NewGuest (replicate 16 (CHR ''x''))))
      | _ \<Rightarrow> False" by blast
  have "a \<in> set ?as" unfolding a by simp
  with i p show ?thesis by (auto simp: k_def s_def s'_def Let_def)
qed

end
