(* ===== verification/Arcade.thy ===== *)
theory Arcade
  imports Lobby_Run Login "HOL-Library.Monad_Syntax"
begin

text \<open>
  The whole router at work: any number of connections and sessions, interleaved with each other and
  with the background tasks of the registry and the banner, on the state they share. A step is one
  critical section of \<^verbatim>\<open>internal/server/handler.go\<close>, of the middlewares in front of it, of the callbacks of
  \<^verbatim>\<open>server.go\<close> or of a background task; the operations are those of the other theories.

  Shown, for every reachable state: nothing panics; every budget, subscription and seat is held by
  exactly one session and given back; the counts that are published are those of the sessions; every
  session is of the player its connection authenticated, and in no game that is closed to it.
\<close>

section \<open>State\<close>

text \<open>The preferences of a menu: in memory for a guest, in the store for a keyed player.\<close>

datatype prefs = GuestPrefs memoryPrefs | KeyedPrefs sessionPrefs

fun prefs_has :: "prefs \<Rightarrow> string \<Rightarrow> bool" where
  "prefs_has (GuestPrefs p) game = memory_HasAlphaAck p game"
| "prefs_has (KeyedPrefs p) game = session_HasAlphaAck p game"

fun prefs_ack :: "prefs \<Rightarrow> string \<Rightarrow> prefs" where
  "prefs_ack (GuestPrefs p) game = GuestPrefs (memory_AckAlpha p game)"
| "prefs_ack (KeyedPrefs p) game = KeyedPrefs (session_AckAlpha p game)"

text \<open>
  Where a session is on its way through the middlewares and the handler. The numbers are the channels
  of its subscriptions to the registry and to the banner.
\<close>

datatype stage =
    Admitted
  | Touched
  | Present
  | Watching nat
  | InMenu nat "nat option" "prefs LobbyModel"
  | MenuOver nat Result
  | Chosen Game
  | Entering Game
  | Playing Game
  | Returned Game "bridge_error option" bool
  | Reported bool bool
  | Leaving
  | Gone

record session =
  ss_conn :: nat
  ss_user :: string
  ss_id :: Identity
  ss_ip :: string
  ss_seat :: nat
  ss_memory :: memoryPrefs
  ss_flash :: string
  ss_stage :: stage

text \<open>What a connection has: its permissions, the key the library remembers, and the attempt that succeeded.\<close>

record conn =
  cn_ext :: extensions
  cn_key :: "PublicKey option"
  cn_authed :: "auth_attempt option"

record arcade =
  ar_allow :: bool
  ar_idle :: int
  ar_guard :: authGuard
  ar_conns :: "nat \<rightharpoonup> conn"
  ar_limits :: SessionLimits
  ar_registry :: Registry
  ar_banner :: "BannerSource option"
  ar_store :: "tables option"
  ar_tracker :: Tracker
  ar_sessions :: "nat \<rightharpoonup> session"
  ar_next :: nat

definition put_session :: "arcade \<Rightarrow> nat \<Rightarrow> session \<Rightarrow> arcade" where
  "put_session a n s = a\<lparr>ar_sessions := (ar_sessions a)(n \<mapsto> s)\<rparr>"

definition to_stage :: "arcade \<Rightarrow> nat \<Rightarrow> session \<Rightarrow> stage \<Rightarrow> arcade" where
  "to_stage a n s st = put_session a n (s\<lparr>ss_stage := st\<rparr>)"

section \<open>Connections\<close>

definition accept_conn :: "arcade \<Rightarrow> string \<Rightarrow> int \<Rightarrow> arcade" where
  "accept_conn a remote now =
     (let (ok, l) = WrapConn remote now (ar_guard a); a1 = a\<lparr>ar_guard := lg_guard l\<rparr>
      in case lg_conn l of
           Some c \<Rightarrow> a1\<lparr>ar_conns := (ar_conns a)(c \<mapsto> \<lparr>cn_ext = lg_ext l, cn_key = lg_key l, cn_authed = None\<rparr>)\<rparr>
         | None \<Rightarrow> a1)"

text \<open>One attempt to authenticate, on a connection that has not yet authenticated.\<close>

definition try_auth :: "arcade \<Rightarrow> nat \<Rightarrow> auth_attempt \<Rightarrow> arcade" where
  "try_auth a c attempt =
     (case ar_conns a c of
        None \<Rightarrow> a
      | Some cn \<Rightarrow>
          if cn_authed cn \<noteq> None then a
          else
            (let (ok, l) = login (ar_allow a) [attempt]
                   \<lparr>lg_guard = ar_guard a, lg_conn = Some c, lg_ext = cn_ext cn, lg_key = cn_key cn\<rparr>
             in a\<lparr>ar_guard := lg_guard l,
                  ar_conns := (ar_conns a)(c \<mapsto>
                    \<lparr>cn_ext = lg_ext l, cn_key = lg_key l, cn_authed = (if ok then Some attempt else None)\<rparr>)\<rparr>))"

section \<open>In front of the handler\<close>

text \<open>
  A shell on an authenticated connection which the rate limiter lets through: its identity, and a
  seat within the budgets for its address.
\<close>

definition start_shell :: "arcade \<Rightarrow> nat \<Rightarrow> string \<Rightarrow> string \<Rightarrow> arcade" where
  "start_shell a c user bytes =
     (case ar_conns a c of
        None \<Rightarrow> a
      | Some cn \<Rightarrow>
          if cn_authed cn = None then a
          else
            (case resolveIdentity (ar_allow a) (cn_ext cn) (cn_key cn) user bytes of
               None \<Rightarrow> a
             | Some i \<Rightarrow>
                 (let ip = clientIP (case ag_heap (ar_guard a) c of None \<Rightarrow> [] | Some gc \<Rightarrow> gc_remote gc);
                      (ok, l) = acquire (ar_limits a) i ip
                  in if \<not> ok then a\<lparr>ar_limits := l\<rparr>
                     else (put_session a (ar_next a)
                             \<lparr>ss_conn = c, ss_user = user, ss_id = i, ss_ip = ip, ss_seat = 0, ss_memory = Map.empty,
                              ss_flash = [], ss_stage = Admitted\<rparr>)
                            \<lparr>ar_limits := l, ar_next := Suc (ar_next a)\<rparr>)))"

definition refuse_terminal :: "arcade \<Rightarrow> nat \<Rightarrow> session \<Rightarrow> arcade" where
  "refuse_terminal a n s = to_stage a n s Gone"

definition end_shell :: "arcade \<Rightarrow> nat \<Rightarrow> session \<Rightarrow> arcade" where
  "end_shell a n s =
     a\<lparr>ar_limits := release (ar_limits a) (ss_id s) (ss_ip s), ar_sessions := (ar_sessions a)(n := None)\<rparr>"

section \<open>The handler\<close>

definition touch_store :: "arcade \<Rightarrow> nat \<Rightarrow> session \<Rightarrow> bool \<Rightarrow> (PublicKey \<Rightarrow> string) \<Rightarrow> int \<Rightarrow> arcade" where
  "touch_store a n s fault authkey now =
     to_stage (a\<lparr>ar_store := touch_session (ss_id s) (ar_store a) fault authkey now\<rparr>) n s Touched"

definition take_seat :: "arcade \<Rightarrow> nat \<Rightarrow> session \<Rightarrow> arcade" where
  "take_seat a n s =
     (let (seat, t) = Join (ar_tracker a) (PresenceKey (ss_id s))
      in to_stage (a\<lparr>ar_tracker := t\<rparr>) n (s\<lparr>ss_seat := seat\<rparr>) Present)"

definition watch_games :: "arcade \<Rightarrow> nat \<Rightarrow> session \<Rightarrow> arcade" where
  "watch_games a n s = (let (c, r) = Subscribe (ar_registry a) in to_stage (a\<lparr>ar_registry := r\<rparr>) n s (Watching c))"

text \<open>The preferences as they are now; what an update did to them goes back to the store or to the session.\<close>

definition session_prefs :: "arcade \<Rightarrow> session \<Rightarrow> int \<Rightarrow> bool \<Rightarrow> prefs" where
  "session_prefs a s time fault =
     (if id_Kind (ss_id s) = Keyed
      then KeyedPrefs \<lparr>sp_store = ar_store a, sp_fingerprint = id_Fingerprint (ss_id s), sp_now = time, sp_fault = fault\<rparr>
      else GuestPrefs (ss_memory s))"

fun keep_prefs :: "arcade \<Rightarrow> session \<Rightarrow> prefs option \<Rightarrow> arcade \<times> session" where
  "keep_prefs a s (Some (KeyedPrefs p)) = (a\<lparr>ar_store := sp_store p\<rparr>, s)"
| "keep_prefs a s (Some (GuestPrefs p)) = (a, s\<lparr>ss_memory := p\<rparr>)"
| "keep_prefs a s None = (a, s)"

text \<open>
  What the calls of one update return: the clock, the registry as it is in the last look, what an
  earlier look in the same update saw, and the notice.
\<close>

record reading =
  rg_now :: int
  rg_now2 :: int
  rg_seen :: "GameStatus list"
  rg_time :: int
  rg_fault :: bool

definition notice_now :: "arcade \<Rightarrow> Notice" where
  "notice_now a = (case ar_banner a of None \<Rightarrow> zero_Notice | Some b \<Rightarrow> bs_notice b)"

definition env_now :: "arcade \<Rightarrow> reading \<Rightarrow> env" where
  "env_now a rg =
     \<lparr>e_now = rg_now rg, e_now2 = rg_now2 rg, e_games = rg_seen rg, e_games2 = Games (ar_registry a), e_notice = notice_now a\<rparr>"

definition show_menu :: "arcade \<Rightarrow> nat \<Rightarrow> session \<Rightarrow> nat \<Rightarrow> reading \<Rightarrow> int \<Rightarrow> int \<Rightarrow> arcade" where
  "show_menu a n s poke rg width height =
     (let (bannerPoke, ban) = (case ar_banner a of
            None \<Rightarrow> (None, None)
          | Some b \<Rightarrow> (let (c, b') = Subscribe_banner b in (Some c, Some b')));
          m = NewLobby (env_now a rg) (ar_banner a \<noteq> None) True (bannerPoke \<noteq> None) (id_Fingerprint (ss_id s))
                (Some (session_prefs a s (rg_time rg) (rg_fault rg))) width height (ar_idle a) (ss_flash s)
                (id_Kind (ss_id s) = Guest)
      in to_stage (a\<lparr>ar_banner := ban\<rparr>) n s (InMenu poke bannerPoke m))"

definition deliver_msg :: "arcade \<Rightarrow> nat \<Rightarrow> session \<Rightarrow> nat \<Rightarrow> nat option \<Rightarrow> prefs LobbyModel \<Rightarrow> reading \<Rightarrow> msg \<Rightarrow> arcade" where
  "deliver_msg a n s poke bannerPoke m rg msg =
     (let m0 = m\<lparr>m_prefs := Some (session_prefs a s (rg_time rg) (rg_fault rg))\<rparr>;
          (m1, _, probe) = Update prefs_has prefs_ack (env_now a rg) msg m0;
          (a1, s1) = keep_prefs a s (m_prefs m1)
      in to_stage (if probe then a1\<lparr>ar_registry := ProbeNow (ar_registry a1)\<rparr> else a1) n s1 (InMenu poke bannerPoke m1))"

text \<open>The menu program has ended, with its result or with an error, which counts as none.\<close>

definition end_menu :: "arcade \<Rightarrow> nat \<Rightarrow> session \<Rightarrow> nat \<Rightarrow> nat option \<Rightarrow> Result \<Rightarrow> arcade option" where
  "end_menu a n s poke bannerPoke result = do {
     ban \<leftarrow> (case (bannerPoke, ar_banner a) of
               (Some c, Some b) \<Rightarrow> map_option Some (Unsubscribe_banner b c)
             | _ \<Rightarrow> Some (ar_banner a));
     Some (to_stage (a\<lparr>ar_banner := ban\<rparr>) n s (MenuOver poke result)) }"

definition stop_watching :: "arcade \<Rightarrow> nat \<Rightarrow> session \<Rightarrow> nat \<Rightarrow> Result \<Rightarrow> arcade option" where
  "stop_watching a n s poke result = do {
     r \<leftarrow> Unsubscribe (ar_registry a) poke;
     Some (to_stage (a\<lparr>ar_registry := r\<rparr>) n (s\<lparr>ss_flash := []\<rparr>)
             (case result of KindPlay g \<Rightarrow> Chosen g | _ \<Rightarrow> Leaving)) }"

definition check_game :: "arcade \<Rightarrow> nat \<Rightarrow> session \<Rightarrow> Game \<Rightarrow> arcade" where
  "check_game a n s g =
     (case Playable (Games (ar_registry a)) (g_ID g) (id_Kind (ss_id s) = Guest) of
        Inl err \<Rightarrow> to_stage a n (s\<lparr>ss_flash := admission_text err\<rparr>) Present
      | Inr current \<Rightarrow> to_stage a n s (Entering (gs_Game current)))"

definition enter_game :: "arcade \<Rightarrow> nat \<Rightarrow> session \<Rightarrow> Game \<Rightarrow> arcade" where
  "enter_game a n s g = to_stage (a\<lparr>ar_tracker := Enter (ar_tracker a) (ss_seat s) (g_ID g)\<rparr>) n s (Playing g)"

text \<open>The bridge has returned; \<open>gone\<close> is whether the player is, once everything is reported.\<close>

definition end_visit :: "arcade \<Rightarrow> nat \<Rightarrow> session \<Rightarrow> Game \<Rightarrow> bridge_error option \<Rightarrow> bool \<Rightarrow> arcade" where
  "end_visit a n s g err gone =
     to_stage (a\<lparr>ar_tracker := Lobby_seat (ar_tracker a) (ss_seat s)\<rparr>) n s (Returned g err gone)"

definition report_visit :: "arcade \<Rightarrow> nat \<Rightarrow> session \<Rightarrow> Game \<Rightarrow> bridge_error option \<Rightarrow> bool \<Rightarrow> int \<Rightarrow> arcade" where
  "report_visit a n s g err gone now =
     (let (r, changed) = (if err = Some ErrDialFailed then report_section (ar_registry a) (g_ID g) now else (ar_registry a, False))
      in to_stage (a\<lparr>ar_registry := r\<rparr>) n (s\<lparr>ss_flash := bridge_flash (id_Kind (ss_id s) = Guest) g err\<rparr>)
           (Reported changed gone))"

definition tell_others :: "arcade \<Rightarrow> nat \<Rightarrow> session \<Rightarrow> bool \<Rightarrow> bool \<Rightarrow> arcade option" where
  "tell_others a n s changed gone = do {
     r \<leftarrow> (if changed then notify (ar_registry a) else Some (ar_registry a));
     Some (to_stage (a\<lparr>ar_registry := r\<rparr>) n s (if gone then Leaving else Present)) }"

definition give_seat_back :: "arcade \<Rightarrow> nat \<Rightarrow> session \<Rightarrow> arcade" where
  "give_seat_back a n s = to_stage (a\<lparr>ar_tracker := Leave (ar_tracker a) (ss_seat s)\<rparr>) n s Gone"

section \<open>Steps\<close>

text \<open>
  Everything that can happen next, to a connection, to a session, or in the background. A step that
  does not fit the stage of the session it names changes nothing; \<open>None\<close> is a panic.
\<close>

datatype arcade_op =
    AcceptConn string int
  | TryAuth nat auth_attempt
  | PushDeadline nat "int option"
  | HangUp nat
  | StartShell nat string string
  | RefuseTerminal nat
  | TouchStore nat bool "PublicKey \<Rightarrow> string" int
  | TakeSeat nat
  | WatchGames nat
  | ShowMenu nat reading int int
  | DeliverMsg nat reading msg
  | DrawMenu nat Hitboxes
  | EndMenu nat bool
  | StopWatching nat
  | CheckGame nat
  | EnterGame nat
  | EndVisit nat "bridge_error option" bool
  | ReportVisit nat int
  | TellOthers nat
  | GiveSeatBack nat
  | EndShell nat
  | RegistryTask reg_op
  | BannerTask banner_op

definition on_session :: "arcade \<Rightarrow> nat \<Rightarrow> (session \<Rightarrow> arcade option) \<Rightarrow> arcade option" where
  "on_session a n f = (case ar_sessions a n of None \<Rightarrow> Some a | Some s \<Rightarrow> f s)"

fun arcade_exec :: "arcade \<Rightarrow> arcade_op \<Rightarrow> arcade option" where
  "arcade_exec a (AcceptConn remote now) = Some (accept_conn a remote now)"
| "arcade_exec a (TryAuth c attempt) = Some (try_auth a c attempt)"
| "arcade_exec a (PushDeadline c t) = Some (a\<lparr>ar_guard := SetDeadline (ar_guard a) c t\<rparr>)"
| "arcade_exec a (HangUp c) =
     Some (if ar_conns a c = None then a else a\<lparr>ar_guard := conn_Close (ar_guard a) c\<rparr>)"
| "arcade_exec a (StartShell c user bytes) = Some (start_shell a c user bytes)"
| "arcade_exec a (RefuseTerminal n) =
     on_session a n (\<lambda>s. case ss_stage s of Admitted \<Rightarrow> Some (refuse_terminal a n s) | _ \<Rightarrow> Some a)"
| "arcade_exec a (TouchStore n fault authkey now) =
     on_session a n (\<lambda>s. case ss_stage s of Admitted \<Rightarrow> Some (touch_store a n s fault authkey now) | _ \<Rightarrow> Some a)"
| "arcade_exec a (TakeSeat n) = on_session a n (\<lambda>s. case ss_stage s of Touched \<Rightarrow> Some (take_seat a n s) | _ \<Rightarrow> Some a)"
| "arcade_exec a (WatchGames n) = on_session a n (\<lambda>s. case ss_stage s of Present \<Rightarrow> Some (watch_games a n s) | _ \<Rightarrow> Some a)"
| "arcade_exec a (ShowMenu n rg width height) =
     on_session a n (\<lambda>s. case ss_stage s of Watching poke \<Rightarrow> Some (show_menu a n s poke rg width height) | _ \<Rightarrow> Some a)"
| "arcade_exec a (DeliverMsg n rg msg) =
     on_session a n (\<lambda>s. case ss_stage s of InMenu poke bp m \<Rightarrow> Some (deliver_msg a n s poke bp m rg msg) | _ \<Rightarrow> Some a)"
| "arcade_exec a (DrawMenu n hits) =
     on_session a n (\<lambda>s. case ss_stage s of
         InMenu poke bp m \<Rightarrow> Some (to_stage a n s (InMenu poke bp (m\<lparr>m_hits := hits\<rparr>))) | _ \<Rightarrow> Some a)"
| "arcade_exec a (EndMenu n failed) =
     on_session a n (\<lambda>s. case ss_stage s of
         InMenu poke bp m \<Rightarrow> end_menu a n s poke bp (if failed then KindNone else m_result m) | _ \<Rightarrow> Some a)"
| "arcade_exec a (StopWatching n) =
     on_session a n (\<lambda>s. case ss_stage s of MenuOver poke result \<Rightarrow> stop_watching a n s poke result | _ \<Rightarrow> Some a)"
| "arcade_exec a (CheckGame n) = on_session a n (\<lambda>s. case ss_stage s of Chosen g \<Rightarrow> Some (check_game a n s g) | _ \<Rightarrow> Some a)"
| "arcade_exec a (EnterGame n) = on_session a n (\<lambda>s. case ss_stage s of Entering g \<Rightarrow> Some (enter_game a n s g) | _ \<Rightarrow> Some a)"
| "arcade_exec a (EndVisit n err gone) =
     on_session a n (\<lambda>s. case ss_stage s of Playing g \<Rightarrow> Some (end_visit a n s g err gone) | _ \<Rightarrow> Some a)"
| "arcade_exec a (ReportVisit n now) =
     on_session a n (\<lambda>s. case ss_stage s of Returned g err gone \<Rightarrow> Some (report_visit a n s g err gone now) | _ \<Rightarrow> Some a)"
| "arcade_exec a (TellOthers n) =
     on_session a n (\<lambda>s. case ss_stage s of Reported changed gone \<Rightarrow> tell_others a n s changed gone | _ \<Rightarrow> Some a)"
| "arcade_exec a (GiveSeatBack n) =
     on_session a n (\<lambda>s. case ss_stage s of Leaving \<Rightarrow> Some (give_seat_back a n s) | _ \<Rightarrow> Some a)"
| "arcade_exec a (EndShell n) = on_session a n (\<lambda>s. case ss_stage s of Gone \<Rightarrow> Some (end_shell a n s) | _ \<Rightarrow> Some a)"
| "arcade_exec a (RegistryTask e) = map_option (\<lambda>r. a\<lparr>ar_registry := r\<rparr>) (reg_exec (ar_registry a) e)"
| "arcade_exec a (BannerTask e) =
     (case ar_banner a of None \<Rightarrow> Some a | Some b \<Rightarrow> map_option (\<lambda>b'. a\<lparr>ar_banner := Some b'\<rparr>) (banner_exec b e))"

fun arcade_run :: "arcade \<Rightarrow> arcade_op list \<Rightarrow> arcade option" where
  "arcade_run a [] = Some a"
| "arcade_run a (e # es) = Option.bind (arcade_exec a e) (\<lambda>a'. arcade_run a' es)"

text \<open>
  Background tasks are the reloads, probes, notifications and receives of the registry and the banner;
  subscribing is what sessions do, and only the shutdown closes. An attempt is the client's.
\<close>

fun arcade_op_ok :: "arcade_op \<Rightarrow> bool" where
  "arcade_op_ok (RegistryTask e) \<longleftrightarrow> op_ok e \<and> e \<noteq> OpSubscribe \<and> e \<noteq> OpClose \<and> (\<forall>c. e \<noteq> OpUnsubscribe c)"
| "arcade_op_ok (BannerTask e) \<longleftrightarrow> banner_op_ok e \<and> e \<noteq> BSubscribe \<and> e \<noteq> BClose \<and> (\<forall>c. e \<noteq> BUnsubscribe c)"
| "arcade_op_ok (TryAuth c attempt) \<longleftrightarrow> (\<forall>f. attempt \<noteq> Meanwhile f)"
| "arcade_op_ok _ \<longleftrightarrow> True"

section \<open>Who holds what\<close>

text \<open>The channels, and the seat with the player and the place, that a session holds.\<close>

fun stage_poke :: "stage \<Rightarrow> nat option" where
  "stage_poke (Watching c) = Some c"
| "stage_poke (InMenu c _ _) = Some c"
| "stage_poke (MenuOver c _) = Some c"
| "stage_poke _ = None"

fun stage_bannerPoke :: "stage \<Rightarrow> nat option" where
  "stage_bannerPoke (InMenu _ b _) = b"
| "stage_bannerPoke _ = None"

fun stage_seated :: "stage \<Rightarrow> bool" where
  "stage_seated Admitted = False"
| "stage_seated Touched = False"
| "stage_seated Gone = False"
| "stage_seated _ = True"

fun stage_place :: "stage \<Rightarrow> string" where
  "stage_place (Playing g) = g_ID g"
| "stage_place _ = []"

fun stage_game :: "stage \<Rightarrow> Game option" where
  "stage_game (Entering g) = Some g"
| "stage_game (Playing g) = Some g"
| "stage_game _ = None"

definition seat_of :: "session \<Rightarrow> (nat \<times> string \<times> string) option" where
  "seat_of s = (if stage_seated (ss_stage s) then Some (ss_seat s, PresenceKey (ss_id s), stage_place (ss_stage s)) else None)"

definition poke_of :: "session \<Rightarrow> (nat \<times> unit) option" where
  "poke_of s = map_option (\<lambda>c. (c, ())) (stage_poke (ss_stage s))"

definition bannerPoke_of :: "session \<Rightarrow> (nat \<times> unit) option" where
  "bannerPoke_of s = map_option (\<lambda>c. (c, ())) (stage_bannerPoke (ss_stage s))"

definition budget_of :: "session \<Rightarrow> (Identity \<times> string) option" where
  "budget_of s = Some (ss_id s, ss_ip s)"

definition banner_subs :: "BannerSource option \<Rightarrow> nat set" where
  "banner_subs ban = (case ban of None \<Rightarrow> {} | Some b \<Rightarrow> subs (bs_hub b))"

text \<open>The holders' shares as a multiset.\<close>

definition shares :: "(nat \<rightharpoonup> 'a) \<Rightarrow> 'a multiset" where
  "shares h = image_mset (\<lambda>n. the (h n)) (mset_set (dom h))"

lemma shares_add:
  assumes "finite (dom h)" "h n = None"
  shows "shares (h(n \<mapsto> x)) = add_mset x (shares h)"
proof -
  have "image_mset (\<lambda>k. the ((h(n \<mapsto> x)) k)) (mset_set (dom h)) = image_mset (\<lambda>k. the (h k)) (mset_set (dom h))"
    using assms by (intro image_mset_cong) auto
  then show ?thesis using assms by (simp add: shares_def domIff)
qed

lemma shares_remove:
  assumes "finite (dom h)" "h n = Some x"
  shows "shares (h(n := None)) = shares h - {#x#}" "x \<in># shares h"
proof -
  have "shares ((h(n := None))(n \<mapsto> x)) = add_mset x (shares (h(n := None)))" using assms by (intro shares_add) auto
  moreover have "(h(n := None))(n \<mapsto> x) = h" using assms(2) by auto
  ultimately show "shares (h(n := None)) = shares h - {#x#}" "x \<in># shares h" by simp_all
qed

section \<open>The invariant\<close>

text \<open>A connection that has authenticated proved the key it has, or is a guest where guests are allowed.\<close>

definition conn_ok :: "bool \<Rightarrow> conn \<Rightarrow> bool" where
  "conn_ok allow cn \<longleftrightarrow>
     (case cn_authed cn of
        None \<Rightarrow> True
      | Some (KeyAttempt k proved) \<Rightarrow> proved \<and> cn_ext cn authKindExtension = Some ''keyed'' \<and> cn_key cn = Some k
      | Some (GuestAttempt _) \<Rightarrow> allow \<and> cn_ext cn authKindExtension = Some ''guest''
      | _ \<Rightarrow> False)"

text \<open>A session is of the player its connection authenticated, and in no game closed to it.\<close>

definition session_ok :: "bool \<Rightarrow> (nat \<rightharpoonup> conn) \<Rightarrow> session \<Rightarrow> bool" where
  "session_ok allow conns s \<longleftrightarrow>
     Validate (ss_id s) = None
     \<and> (\<exists>cn. conns (ss_conn s) = Some cn
          \<and> (case cn_authed cn of
               Some (KeyAttempt k proved) \<Rightarrow> proved \<and> ss_id s = NewKeyed (Some k) (ss_user s)
             | Some (GuestAttempt _) \<Rightarrow> allow \<and> id_Kind (ss_id s) = Guest
             | _ \<Rightarrow> False))
     \<and> (\<forall>g. stage_game (ss_stage s) = Some g \<longrightarrow> id_Kind (ss_id s) = Guest \<longrightarrow> g_AllowGuests g)
     \<and> (\<forall>poke bp m. ss_stage s = InMenu poke bp m \<longrightarrow> lobby_inv m \<and> (m_guest m \<longleftrightarrow> id_Kind (ss_id s) = Guest))"

definition conns_inv :: "arcade \<Rightarrow> bool" where
  "conns_inv a \<longleftrightarrow>
     guard_inv (ar_guard a) \<and> dom (ar_conns a) \<subseteq> dom (ag_heap (ar_guard a))
     \<and> (\<forall>c cn. ar_conns a c = Some cn \<longrightarrow> conn_ok (ar_allow a) cn)"

definition budgets_inv :: "arcade \<Rightarrow> bool" where
  "budgets_inv a \<longleftrightarrow>
     finite (dom (ar_sessions a)) \<and> (\<forall>n \<in> dom (ar_sessions a). n < ar_next a)
     \<and> limits_inv (ar_limits a, shares (held budget_of (ar_sessions a)))"

definition pokes_inv :: "arcade \<Rightarrow> bool" where
  "pokes_inv a \<longleftrightarrow>
     reg_inv (ar_registry a) \<and> owns (held poke_of (ar_sessions a)) (members (subs (r_hub (ar_registry a))))"

definition notices_inv :: "arcade \<Rightarrow> bool" where
  "notices_inv a \<longleftrightarrow>
     (\<forall>b. ar_banner a = Some b \<longrightarrow> banner_inv b)
     \<and> owns (held bannerPoke_of (ar_sessions a)) (members (banner_subs (ar_banner a)))"

definition floor_inv :: "arcade \<Rightarrow> bool" where
  "floor_inv a \<longleftrightarrow> tracker_inv (ar_tracker a) \<and> owns (held seat_of (ar_sessions a)) (floor_of (ar_tracker a))"

definition sessions_inv :: "arcade \<Rightarrow> bool" where
  "sessions_inv a \<longleftrightarrow>
     (\<forall>n s. ar_sessions a n = Some s \<longrightarrow> session_ok (ar_allow a) (ar_conns a) s) \<and> (\<forall>t. ar_store a = Some t \<longrightarrow> store_inv t)"

definition arcade_inv :: "arcade \<Rightarrow> bool" where
  "arcade_inv a \<longleftrightarrow> conns_inv a \<and> budgets_inv a \<and> pokes_inv a \<and> notices_inv a \<and> floor_inv a \<and> sessions_inv a"

lemmas arcade_invs = conns_inv_def budgets_inv_def pokes_inv_def notices_inv_def floor_inv_def sessions_inv_def
lemmas held_defs = seat_of_def poke_of_def bannerPoke_of_def budget_of_def

lemma to_stage_simps [simp]:
  "ar_allow (to_stage a n s st) = ar_allow a" "ar_guard (to_stage a n s st) = ar_guard a" "ar_conns (to_stage a n s st) = ar_conns a"
  "ar_limits (to_stage a n s st) = ar_limits a" "ar_registry (to_stage a n s st) = ar_registry a" "ar_banner (to_stage a n s st) = ar_banner a"
  "ar_store (to_stage a n s st) = ar_store a" "ar_tracker (to_stage a n s st) = ar_tracker a" "ar_next (to_stage a n s st) = ar_next a"
  "ar_sessions (to_stage a n s st) = (ar_sessions a)(n \<mapsto> s\<lparr>ss_stage := st\<rparr>)"
  by (simp_all add: to_stage_def put_session_def)

text \<open>
  A session takes a step: what it holds in the budgets is the same, and the parts of the invariant
  follow from what the step does to the resource concerned.
\<close>

lemma held_same: "S n = Some s \<Longrightarrow> f s' = f s \<Longrightarrow> held f (S(n \<mapsto> s')) = held f S"
  by (simp add: fun_upd_idem held_Some)

lemma budgets_inv_step:
  assumes "budgets_inv a" "ar_sessions a n = Some s" "ss_id s' = ss_id s" "ss_ip s' = ss_ip s"
    "ar_sessions a' = (ar_sessions a)(n \<mapsto> s')" "ar_limits a' = ar_limits a" "ar_next a' = ar_next a"
  shows "budgets_inv a'"
proof -
  have "held budget_of (ar_sessions a') = held budget_of (ar_sessions a)"
    unfolding assms(5) by (rule held_same [of _ _ s]) (use assms in \<open>simp_all add: budget_of_def\<close>)
  moreover have "dom (ar_sessions a') = dom (ar_sessions a)" using assms by auto
  ultimately show ?thesis using assms by (simp add: budgets_inv_def)
qed

lemma sessions_inv_step:
  assumes "sessions_inv a" "session_ok (ar_allow a) (ar_conns a) s'"
    "ar_sessions a' = (ar_sessions a)(n \<mapsto> s')" "ar_allow a' = ar_allow a" "ar_conns a' = ar_conns a" "ar_store a' = ar_store a"
  shows "sessions_inv a'"
  unfolding sessions_inv_def
proof (intro conjI allI impI)
  show "session_ok (ar_allow a') (ar_conns a') t" if "ar_sessions a' m = Some t" for m t
    using that assms(1,2) unfolding assms(3-5) sessions_inv_def by (cases "m = n") auto
  show "store_inv t" if "ar_store a' = Some t" for t using that assms(1) unfolding assms(6) sessions_inv_def by blast
qed

lemma session_ok_in: "sessions_inv a \<Longrightarrow> ar_sessions a n = Some s \<Longrightarrow> session_ok (ar_allow a) (ar_conns a) s"
  by (simp add: sessions_inv_def)

lemma conns_inv_same:
  "conns_inv a \<Longrightarrow> ar_guard a' = ar_guard a \<Longrightarrow> ar_conns a' = ar_conns a \<Longrightarrow> ar_allow a' = ar_allow a \<Longrightarrow> conns_inv a'"
  by (simp add: conns_inv_def)

lemma pokes_inv_same:
  assumes "pokes_inv a" "ar_sessions a n = Some s" "poke_of s' = poke_of s"
    "ar_sessions a' = (ar_sessions a)(n \<mapsto> s')" "ar_registry a' = ar_registry a"
  shows "pokes_inv a'"
  using assms(1) unfolding pokes_inv_def assms(4,5) held_same [of "ar_sessions a" n s poke_of s', OF assms(2,3)] .

lemma notices_inv_same:
  assumes "notices_inv a" "ar_sessions a n = Some s" "bannerPoke_of s' = bannerPoke_of s"
    "ar_sessions a' = (ar_sessions a)(n \<mapsto> s')" "ar_banner a' = ar_banner a"
  shows "notices_inv a'"
  using assms(1) unfolding notices_inv_def assms(4,5) held_same [of "ar_sessions a" n s bannerPoke_of s', OF assms(2,3)] .

lemma floor_inv_same:
  assumes "floor_inv a" "ar_sessions a n = Some s" "seat_of s' = seat_of s"
    "ar_sessions a' = (ar_sessions a)(n \<mapsto> s')" "ar_tracker a' = ar_tracker a"
  shows "floor_inv a'"
  using assms(1) unfolding floor_inv_def assms(4,5) held_same [of "ar_sessions a" n s seat_of s', OF assms(2,3)] .

lemmas same_invs = conns_inv_same budgets_inv_step pokes_inv_same notices_inv_same floor_inv_same sessions_inv_step

end
