(* ===== verification/Arcade_Steps.thy ===== *)
theory Arcade_Steps
  imports Arcade
begin

text \<open>
  Every step of the router at work keeps its invariant and none panics: first the steps that change
  one resource, by the rule for that resource, then the menu, the connections and the background tasks.
\<close>

section \<open>Every step keeps it\<close>

lemma arcade_invD:
  assumes "arcade_inv a"
  shows "conns_inv a" "budgets_inv a" "pokes_inv a" "notices_inv a" "floor_inv a" "sessions_inv a"
  using assms by (simp_all add: arcade_inv_def)

text \<open>A session takes a step: connections and budgets are as before, and its shares of the rest are in order.\<close>

lemma session_step_inv:
  assumes inv: "arcade_inv a" and s: "ar_sessions a n = Some s" and S: "ar_sessions a' = (ar_sessions a)(n \<mapsto> s')"
    and frame: "ar_guard a' = ar_guard a" "ar_conns a' = ar_conns a" "ar_allow a' = ar_allow a"
      "ar_limits a' = ar_limits a" "ar_next a' = ar_next a"
    and id: "ss_id s' = ss_id s" "ss_ip s' = ss_ip s" and ok: "session_ok (ar_allow a) (ar_conns a) s'"
    and store: "\<And>t. ar_store a' = Some t \<Longrightarrow> store_inv t"
    and shares: "pokes_inv a'" "notices_inv a'" "floor_inv a'"
  shows "arcade_inv a'"
proof -
  note i = arcade_invD [OF inv]
  have "session_ok (ar_allow a') (ar_conns a') t" if "ar_sessions a' m = Some t" for m t
    using that i(6) ok unfolding S frame sessions_inv_def by (cases "m = n") auto
  then have "sessions_inv a'" using store by (simp add: sessions_inv_def)
  with shares show ?thesis unfolding arcade_inv_def
    using conns_inv_same [OF i(1) frame(1-3)] budgets_inv_step [OF i(2) s id S frame(4,5)] by blast
qed

lemma store_ok: "arcade_inv a \<Longrightarrow> ar_store a = Some t \<Longrightarrow> store_inv t"
  by (simp add: arcade_inv_def sessions_inv_def)

lemma session_ok_stage:
  assumes "session_ok allow conns s" "ss_id s' = ss_id s" "ss_user s' = ss_user s" "ss_conn s' = ss_conn s"
    "\<And>g. stage_game (ss_stage s') = Some g \<Longrightarrow> id_Kind (ss_id s) = Guest \<Longrightarrow> g_AllowGuests g"
    "\<And>poke bp m. ss_stage s' = InMenu poke bp m \<Longrightarrow> lobby_inv m \<and> (m_guest m \<longleftrightarrow> id_Kind (ss_id s) = Guest)"
  shows "session_ok allow conns s'"
  using assms(1,5,6) unfolding session_ok_def assms(2-4) by blast

text \<open>A step to another stage that touches no shared resource.\<close>

lemma stage_step_inv:
  assumes inv: "arcade_inv a" and s: "ar_sessions a n = Some s" and a': "a' = to_stage a n s1 st"
    and s1: "ss_id s1 = ss_id s" "ss_ip s1 = ss_ip s" "ss_user s1 = ss_user s" "ss_conn s1 = ss_conn s" "ss_seat s1 = ss_seat s"
    and st: "stage_poke st = stage_poke (ss_stage s)" "stage_bannerPoke st = stage_bannerPoke (ss_stage s)"
      "stage_seated st = stage_seated (ss_stage s)" "stage_place st = stage_place (ss_stage s)"
    and ok: "\<And>g. stage_game st = Some g \<Longrightarrow> id_Kind (ss_id s) = Guest \<Longrightarrow> g_AllowGuests g"
      "\<And>poke bp m. st = InMenu poke bp m \<Longrightarrow> lobby_inv m \<and> (m_guest m \<longleftrightarrow> id_Kind (ss_id s) = Guest)"
  shows "arcade_inv a'"
proof -
  note i = arcade_invD [OF inv]
  let ?s' = "s1\<lparr>ss_stage := st\<rparr>"
  have S: "ar_sessions a' = (ar_sessions a)(n \<mapsto> ?s')" by (simp add: a')
  have ok': "session_ok (ar_allow a) (ar_conns a) ?s'"
    using session_ok_in [OF i(6) s] by (rule session_ok_stage) (use s1 ok in auto)
  show ?thesis
  proof (rule session_step_inv [OF inv s S])
    show "pokes_inv a'" using i(3) s _ S by (rule pokes_inv_same) (simp_all add: poke_of_def st a')
    show "notices_inv a'" using i(4) s _ S by (rule notices_inv_same) (simp_all add: bannerPoke_of_def st a')
    show "floor_inv a'" using i(5) s _ S by (rule floor_inv_same) (simp_all add: seat_of_def st s1 a')
  qed (use ok' s1 store_ok [OF inv] in \<open>simp_all add: a'\<close>)
qed

lemma refuse_terminal_inv:
  "arcade_inv a \<Longrightarrow> ar_sessions a n = Some s \<Longrightarrow> ss_stage s = Admitted \<Longrightarrow> arcade_inv (refuse_terminal a n s)"
  by (rule stage_step_inv [OF _ _ refuse_terminal_def], assumption+) simp_all

lemma check_game_inv:
  assumes "arcade_inv a" "ar_sessions a n = Some s" "ss_stage s = Chosen g"
  shows "arcade_inv (check_game a n s g)"
proof (cases "Playable (Games (ar_registry a)) (g_ID g) (id_Kind (ss_id s) = Guest)")
  case (Inl err)
  then have "check_game a n s g = to_stage a n (s\<lparr>ss_flash := admission_text err\<rparr>) Present" by (simp add: check_game_def)
  from stage_step_inv [OF assms(1,2) this] assms(3) show ?thesis by simp
next
  case (Inr st)
  then have c: "check_game a n s g = to_stage a n s (Entering (gs_Game st))" by (simp add: check_game_def)
  have "id_Kind (ss_id s) = Guest \<Longrightarrow> g_AllowGuests (gs_Game st)" using Playable_Inr [OF Inr] by blast
  with stage_step_inv [OF assms(1,2) c] assms(3) show ?thesis by simp
qed

lemma draw_inv:
  assumes "arcade_inv a" "ar_sessions a n = Some s" "ss_stage s = InMenu poke bp m"
  shows "arcade_inv (to_stage a n s (InMenu poke bp (m\<lparr>m_hits := hits\<rparr>)))"
proof -
  have "session_ok (ar_allow a) (ar_conns a) s" using session_ok_in arcade_invD(6) assms(1,2) by blast
  then have "lobby_inv m" "m_guest m \<longleftrightarrow> id_Kind (ss_id s) = Guest" using assms(3) by (auto simp: session_ok_def)
  with stage_step_inv [OF assms(1,2) refl, of s "InMenu poke bp (m\<lparr>m_hits := hits\<rparr>)"] assms(3) show ?thesis by simp
qed

lemma touch_store_inv:
  assumes inv: "arcade_inv a" and s: "ar_sessions a n = Some s" and st: "ss_stage s = Admitted"
  shows "arcade_inv (touch_store a n s fault authkey now)"
proof -
  note i = arcade_invD [OF inv]
  let ?a = "touch_store a n s fault authkey now" and ?s' = "s\<lparr>ss_stage := Touched\<rparr>"
  have S: "ar_sessions ?a = (ar_sessions a)(n \<mapsto> ?s')" by (simp add: touch_store_def)
  have t: "store_inv t" if "ar_store ?a = Some t" for t
    using that store_ok [OF inv] TouchAccount_inv
    by (auto simp: touch_store_def touch_session_def split: Kind.splits option.splits)
  show ?thesis
  proof (rule session_step_inv [OF inv s S])
    show "pokes_inv ?a" using i(3) s _ S by (rule pokes_inv_same) (simp_all add: poke_of_def st touch_store_def)
    show "notices_inv ?a" using i(4) s _ S by (rule notices_inv_same) (simp_all add: bannerPoke_of_def st touch_store_def)
    show "floor_inv ?a" using i(5) s _ S by (rule floor_inv_same) (simp_all add: seat_of_def st touch_store_def)
    show "session_ok (ar_allow a) (ar_conns a) ?s'"
      using session_ok_in [OF i(6) s] by (rule session_ok_stage) simp_all
  qed (use t in \<open>simp_all add: touch_store_def\<close>)
qed

lemma floor_Join:
  assumes "tracker_inv t" "Join t fp = (seat, t')"
  shows "tracker_inv t'" "floor_of t seat = None" "floor_of t' = (floor_of t)(seat \<mapsto> (fp, []))"
proof -
  have j: "t' = tracker_exec t (FJoin fp)" "seat = t_next t" using assms(2) by (auto simp: Join_def Let_def)
  have "t_next t \<notin> t_seats t" using assms(1) by (force simp: tracker_inv_def)
  then show "floor_of t seat = None" using j by (simp add: floor_of_def)
  show "tracker_inv t'" unfolding j by (rule tracker_exec_inv [OF assms(1)])
  show "floor_of t' = (floor_of t)(seat \<mapsto> (fp, []))" using tracker_exec_floor [OF assms(1), of "FJoin fp"] j by simp
qed

lemma floor_Enter:
  assumes "tracker_inv t" "floor_of t seat = Some (fp, p)"
  shows "tracker_inv (Enter t seat g)" "floor_of (Enter t seat g) = (floor_of t)(seat \<mapsto> (fp, g))"
  using tracker_exec_inv [OF assms(1), of "FEnter seat g"] tracker_exec_floor [OF assms(1), of "FEnter seat g"] assms(2) by auto

lemma floor_Leave_seat:
  assumes "tracker_inv t" shows "tracker_inv (Leave t seat)" "floor_of (Leave t seat) = (floor_of t)(seat := None)"
  using tracker_exec_inv [OF assms, of "FLeave seat"] tracker_exec_floor [OF assms, of "FLeave seat"] by auto

text \<open>The seat of a session, on the floor.\<close>

lemma floor_inv_seat:
  assumes "floor_inv a" "ar_sessions a n = Some s" "stage_seated (ss_stage s)"
  shows "floor_of (ar_tracker a) (ss_seat s) = Some (PresenceKey (ss_id s), stage_place (ss_stage s))"
  using assms ownsD(1) [of "held seat_of (ar_sessions a)" "floor_of (ar_tracker a)" n]
  by (simp add: floor_inv_def held_Some seat_of_def)

text \<open>A step that only changes the floor.\<close>

lemma floor_step_inv:
  assumes inv: "arcade_inv a" and s: "ar_sessions a n = Some s" and a': "a' = to_stage (a\<lparr>ar_tracker := t\<rparr>) n s1 st"
    and s1: "ss_id s1 = ss_id s" "ss_ip s1 = ss_ip s" "ss_user s1 = ss_user s" "ss_conn s1 = ss_conn s"
    and st: "stage_poke st = stage_poke (ss_stage s)" "stage_bannerPoke st = stage_bannerPoke (ss_stage s)"
    and ok: "\<And>g. stage_game st = Some g \<Longrightarrow> id_Kind (ss_id s) = Guest \<Longrightarrow> g_AllowGuests g" "\<And>poke bp m. st \<noteq> InMenu poke bp m"
    and t: "tracker_inv t" "owns ((held seat_of (ar_sessions a))(n := seat_of (s1\<lparr>ss_stage := st\<rparr>))) (floor_of t)"
  shows "arcade_inv a'"
proof -
  note i = arcade_invD [OF inv]
  let ?s' = "s1\<lparr>ss_stage := st\<rparr>"
  have S: "ar_sessions a' = (ar_sessions a)(n \<mapsto> ?s')" by (simp add: a')
  have ok': "session_ok (ar_allow a) (ar_conns a) ?s'"
    using session_ok_in [OF i(6) s] by (rule session_ok_stage) (use s1 ok in auto)
  show ?thesis
  proof (rule session_step_inv [OF inv s S])
    show "pokes_inv a'" using i(3) s _ S by (rule pokes_inv_same) (simp_all add: poke_of_def st a')
    show "notices_inv a'" using i(4) s _ S by (rule notices_inv_same) (simp_all add: bannerPoke_of_def st a')
    show "floor_inv a'" using t by (simp add: floor_inv_def a')
  qed (use ok' s1 store_ok [OF inv] in \<open>simp_all add: a'\<close>)
qed

lemma take_seat_inv:
  assumes inv: "arcade_inv a" and s: "ar_sessions a n = Some s" and st: "ss_stage s = Touched"
  shows "arcade_inv (take_seat a n s)"
proof -
  obtain seat t where j: "Join (ar_tracker a) (PresenceKey (ss_id s)) = (seat, t)" by force
  have f: "tracker_inv (ar_tracker a)" "owns (held seat_of (ar_sessions a)) (floor_of (ar_tracker a))"
    using arcade_invD(5) [OF inv] by (simp_all add: floor_inv_def)
  note fj = floor_Join [OF f(1) j]
  have a': "take_seat a n s = to_stage (a\<lparr>ar_tracker := t\<rparr>) n (s\<lparr>ss_seat := seat\<rparr>) Present" using j by (simp add: take_seat_def)
  show ?thesis
  proof (rule floor_step_inv [OF inv s a'])
    show "owns ((held seat_of (ar_sessions a))(n := seat_of (s\<lparr>ss_seat := seat, ss_stage := Present\<rparr>))) (floor_of t)"
      using owns_gain [OF f(2), of n seat] fj s st by (simp add: seat_of_def held_Some)
  qed (use fj st in simp_all)
qed

lemma seat_change_inv:
  assumes inv: "arcade_inv a" and s: "ar_sessions a n = Some s" and a': "a' = to_stage (a\<lparr>ar_tracker := Enter (ar_tracker a) (ss_seat s) p\<rparr>) n s st"
    and st: "stage_poke st = stage_poke (ss_stage s)" "stage_bannerPoke st = stage_bannerPoke (ss_stage s)"
      "stage_seated (ss_stage s)" "stage_seated st" "stage_place st = p" "\<And>poke bp m. st \<noteq> InMenu poke bp m"
    and ok: "\<And>g. stage_game st = Some g \<Longrightarrow> id_Kind (ss_id s) = Guest \<Longrightarrow> g_AllowGuests g"
  shows "arcade_inv a'"
proof -
  have f: "tracker_inv (ar_tracker a)" "owns (held seat_of (ar_sessions a)) (floor_of (ar_tracker a))"
    using arcade_invD(5) [OF inv] by (simp_all add: floor_inv_def)
  note fe = floor_Enter [OF f(1) floor_inv_seat [OF arcade_invD(5) [OF inv] s st(3)], of p]
  show ?thesis
  proof (rule floor_step_inv [OF inv s a'])
    show "owns ((held seat_of (ar_sessions a))(n := seat_of (s\<lparr>ss_stage := st\<rparr>))) (floor_of (Enter (ar_tracker a) (ss_seat s) p))"
      using owns_change [OF f(2), of n "ss_seat s"] fe(2) s st by (simp add: seat_of_def held_Some)
  qed (use fe(1) st ok in simp_all)
qed

lemma enter_game_inv:
  assumes "arcade_inv a" "ar_sessions a n = Some s" "ss_stage s = Entering g"
  shows "arcade_inv (enter_game a n s g)"
proof (rule seat_change_inv [OF assms(1,2) enter_game_def])
  have "session_ok (ar_allow a) (ar_conns a) s" using session_ok_in arcade_invD(6) assms(1,2) by blast
  then show "g_AllowGuests h" if "stage_game (Playing g) = Some h" "id_Kind (ss_id s) = Guest" for h
    using that assms(3) by (simp add: session_ok_def)
qed (use assms(3) in simp_all)

lemma end_visit_inv:
  "arcade_inv a \<Longrightarrow> ar_sessions a n = Some s \<Longrightarrow> ss_stage s = Playing g \<Longrightarrow> arcade_inv (end_visit a n s g err gone)"
  by (rule seat_change_inv [OF _ _ end_visit_def [unfolded Lobby_seat_def]], assumption+) simp_all

lemma give_seat_back_inv:
  assumes inv: "arcade_inv a" and s: "ar_sessions a n = Some s" and st: "ss_stage s = Leaving"
  shows "arcade_inv (give_seat_back a n s)"
proof (rule floor_step_inv [OF inv s give_seat_back_def])
  have f: "tracker_inv (ar_tracker a)" "owns (held seat_of (ar_sessions a)) (floor_of (ar_tracker a))"
    using arcade_invD(5) [OF inv] by (simp_all add: floor_inv_def)
  note fl = floor_Leave_seat [OF f(1), of "ss_seat s"]
  show "tracker_inv (Leave (ar_tracker a) (ss_seat s))" by (rule fl)
  show "owns ((held seat_of (ar_sessions a))(n := seat_of (s\<lparr>ss_stage := Gone\<rparr>))) (floor_of (Leave (ar_tracker a) (ss_seat s)))"
    using owns_lose [OF f(2), of n "ss_seat s"] fl(2) s st by (simp add: seat_of_def held_Some)
qed (use st in simp_all)

text \<open>The registry under the operations of a session.\<close>

lemma Subscribe_holds:
  assumes "reg_inv r" "Subscribe r = (c, r')"
  shows "reg_inv r'" "c \<notin> subs (r_hub r)" "subs (r_hub r') = insert c (subs (r_hub r))"
  using assms Subscribe_inv [OF assms(1)] hub_Subscribe_fresh [of "r_hub r"] hub_Subscribe_members [of "r_hub r"]
  by (auto simp: Subscribe_def reg_inv_def split_def Let_def)

lemma Unsubscribe_holds:
  assumes "reg_inv r"
  shows "\<exists>r'. Unsubscribe r c = Some r' \<and> reg_inv r' \<and> subs (r_hub r') = subs (r_hub r) - {c}"
proof -
  have "hub_inv (r_hub r)" using assms by (simp add: reg_inv_def)
  from hub_Unsubscribe_ok [OF this] obtain h
    where "hub_Unsubscribe (r_hub r) c = Some h" "hub_inv h" "subs h = subs (r_hub r) - {c}" by blast
  then show ?thesis using reg_inv_hub [OF assms] by (intro exI [of _ "r\<lparr>r_hub := h\<rparr>"]) (simp add: Unsubscribe_def)
qed

lemma notify_holds:
  assumes "reg_inv r"
  shows "\<exists>r'. notify r = Some r' \<and> reg_inv r' \<and> subs (r_hub r') = subs (r_hub r)"
proof -
  have "hub_inv (r_hub r)" using assms by (simp add: reg_inv_def)
  from notify_ok [OF this] obtain h where "notify r = Some (r\<lparr>r_hub := h\<rparr>)" "hub_inv h" "subs h = subs (r_hub r)" by blast
  then show ?thesis using reg_inv_hub [OF assms] by (intro exI [of _ "r\<lparr>r_hub := h\<rparr>"]) simp
qed

lemma report_holds: "reg_inv r \<Longrightarrow> reg_inv (fst (report_section r i now)) \<and> r_hub (fst (report_section r i now)) = r_hub r"
  by (simp add: report_section_inv) (simp add: report_section_def split_def Let_def split: option.split)

text \<open>A step that only changes the registry.\<close>

lemma registry_step_inv:
  assumes inv: "arcade_inv a" and s: "ar_sessions a n = Some s" and a': "a' = to_stage (a\<lparr>ar_registry := r\<rparr>) n s1 st"
    and s1: "ss_id s1 = ss_id s" "ss_ip s1 = ss_ip s" "ss_user s1 = ss_user s" "ss_conn s1 = ss_conn s" "ss_seat s1 = ss_seat s"
    and st: "stage_bannerPoke st = stage_bannerPoke (ss_stage s)" "stage_seated st = stage_seated (ss_stage s)"
      "stage_place st = stage_place (ss_stage s)" "stage_game st = None" "\<And>poke bp m. st \<noteq> InMenu poke bp m"
    and r: "reg_inv r" "owns ((held poke_of (ar_sessions a))(n := poke_of (s1\<lparr>ss_stage := st\<rparr>))) (members (subs (r_hub r)))"
  shows "arcade_inv a'"
proof -
  note i = arcade_invD [OF inv]
  let ?s' = "s1\<lparr>ss_stage := st\<rparr>"
  have S: "ar_sessions a' = (ar_sessions a)(n \<mapsto> ?s')" by (simp add: a')
  have ok': "session_ok (ar_allow a) (ar_conns a) ?s'"
    using session_ok_in [OF i(6) s] by (rule session_ok_stage) (use s1 st in auto)
  show ?thesis
  proof (rule session_step_inv [OF inv s S])
    show "pokes_inv a'" using r by (simp add: pokes_inv_def a')
    show "notices_inv a'" using i(4) s _ S by (rule notices_inv_same) (simp_all add: bannerPoke_of_def st a')
    show "floor_inv a'" using i(5) s _ S by (rule floor_inv_same) (simp_all add: seat_of_def st s1 a')
  qed (use ok' s1 store_ok [OF inv] in \<open>simp_all add: a'\<close>)
qed

lemma pokes_invD:
  assumes "arcade_inv a"
  shows "reg_inv (ar_registry a)" "owns (held poke_of (ar_sessions a)) (members (subs (r_hub (ar_registry a))))"
  using arcade_invD(3) [OF assms] by (simp_all add: pokes_inv_def)

lemma watch_games_inv:
  assumes inv: "arcade_inv a" and s: "ar_sessions a n = Some s" and st: "ss_stage s = Present"
  shows "arcade_inv (watch_games a n s)"
proof -
  obtain c r where r: "Subscribe (ar_registry a) = (c, r)" by force
  note p = pokes_invD [OF inv] and h = Subscribe_holds [OF pokes_invD(1) [OF inv] r]
  have a': "watch_games a n s = to_stage (a\<lparr>ar_registry := r\<rparr>) n s (Watching c)" using r by (simp add: watch_games_def)
  show ?thesis
  proof (rule registry_step_inv [OF inv s a'])
    show "owns ((held poke_of (ar_sessions a))(n := poke_of (s\<lparr>ss_stage := Watching c\<rparr>))) (members (subs (r_hub r)))"
      using owns_gain [OF p(2), of n c "()"] h s st by (simp add: poke_of_def held_Some)
  qed (use h st in simp_all)
qed

lemma stop_watching_inv:
  assumes inv: "arcade_inv a" and s: "ar_sessions a n = Some s" and st: "ss_stage s = MenuOver c res"
  shows "\<exists>a'. stop_watching a n s c res = Some a' \<and> arcade_inv a'"
proof -
  note p = pokes_invD [OF inv]
  obtain r where r: "Unsubscribe (ar_registry a) c = Some r" "reg_inv r" "subs (r_hub r) = subs (r_hub (ar_registry a)) - {c}"
    using Unsubscribe_holds [OF p(1)] by blast
  let ?st = "case res of KindPlay g \<Rightarrow> Chosen g | _ \<Rightarrow> Leaving"
  let ?a = "to_stage (a\<lparr>ar_registry := r\<rparr>) n (s\<lparr>ss_flash := []\<rparr>) ?st"
  have "arcade_inv ?a"
  proof (rule registry_step_inv [OF inv s refl])
    show "owns ((held poke_of (ar_sessions a))(n := poke_of (s\<lparr>ss_flash := [], ss_stage := ?st\<rparr>))) (members (subs (r_hub r)))"
      using owns_lose [OF p(2), of n c "()"] r s st by (simp add: poke_of_def held_Some split: Result.split)
  qed (use r st in \<open>simp_all split: Result.split\<close>)
  then show ?thesis using r(1) by (simp add: stop_watching_def)
qed

lemma report_visit_inv:
  assumes inv: "arcade_inv a" and s: "ar_sessions a n = Some s" and st: "ss_stage s = Returned g err gone"
  shows "arcade_inv (report_visit a n s g err gone now)"
proof -
  note p = pokes_invD [OF inv]
  obtain r ch where r: "(if err = Some ErrDialFailed then report_section (ar_registry a) (g_ID g) now else (ar_registry a, False)) = (r, ch)"
    by force
  then have h: "reg_inv r" "r_hub r = r_hub (ar_registry a)"
    using report_holds [OF p(1), of "g_ID g" now] p(1) by (auto split: if_splits)
  show ?thesis
  proof (rule registry_step_inv [OF inv s])
    show "report_visit a n s g err gone now =
        to_stage (a\<lparr>ar_registry := r\<rparr>) n (s\<lparr>ss_flash := bridge_flash (id_Kind (ss_id s) = Guest) g err\<rparr>) (Reported ch gone)"
      using r by (simp add: report_visit_def)
    show "owns ((held poke_of (ar_sessions a))(n := poke_of (s\<lparr>ss_flash := bridge_flash (id_Kind (ss_id s) = Guest) g err,
        ss_stage := Reported ch gone\<rparr>))) (members (subs (r_hub r)))"
      using owns_keep [OF p(2), of n None] h s st by (simp add: poke_of_def held_Some)
  qed (use h st in simp_all)
qed

lemma tell_others_inv:
  assumes inv: "arcade_inv a" and s: "ar_sessions a n = Some s" and st: "ss_stage s = Reported ch gone"
  shows "\<exists>a'. tell_others a n s ch gone = Some a' \<and> arcade_inv a'"
proof -
  note p = pokes_invD [OF inv]
  obtain r where r: "(if ch then notify (ar_registry a) else Some (ar_registry a)) = Some r" "reg_inv r"
    "subs (r_hub r) = subs (r_hub (ar_registry a))"
    using notify_holds [OF p(1)] p(1) by (cases ch) auto
  have "arcade_inv (to_stage (a\<lparr>ar_registry := r\<rparr>) n s (if gone then Leaving else Present))"
  proof (rule registry_step_inv [OF inv s refl])
    show "owns ((held poke_of (ar_sessions a))(n := poke_of (s\<lparr>ss_stage := if gone then Leaving else Present\<rparr>))) (members (subs (r_hub r)))"
      using owns_keep [OF p(2), of n None] r s st by (simp add: poke_of_def held_Some)
  qed (use r st in simp_all)
  then show ?thesis using r(1) by (simp add: tell_others_def)
qed

section \<open>The menu\<close>

lemma notices_invD:
  assumes "arcade_inv a"
  shows "ar_banner a = Some b \<Longrightarrow> banner_inv b"
    "owns (held bannerPoke_of (ar_sessions a)) (members (banner_subs (ar_banner a)))"
  using arcade_invD(4) [OF assms] by (simp_all add: notices_inv_def)

text \<open>The banner under the operations of a session, where there is one.\<close>

definition banner_watch :: "BannerSource option \<Rightarrow> nat option \<times> BannerSource option" where
  "banner_watch ban = (case ban of None \<Rightarrow> (None, None) | Some b \<Rightarrow> (let (c, b') = Subscribe_banner b in (Some c, Some b')))"

lemma banner_watch_holds:
  assumes "\<And>b. ban = Some b \<Longrightarrow> banner_inv b" "banner_watch ban = (bp, ban')"
  shows "\<And>b. ban' = Some b \<Longrightarrow> banner_inv b"
    "(bp = None \<and> banner_subs ban' = banner_subs ban)
     \<or> (\<exists>c. bp = Some c \<and> c \<notin> banner_subs ban \<and> banner_subs ban' = insert c (banner_subs ban))"
  using assms banner_hub.subscribe_good banner_hub.subscribe_fresh banner_hub.subscribe_members
  by (auto simp: banner_watch_def banner_subs_def split_def Let_def split: option.splits)

lemma banner_unwatch_holds:
  assumes "\<And>b. ban = Some b \<Longrightarrow> banner_inv b" "\<And>c. bp = Some c \<Longrightarrow> c \<in> banner_subs ban"
  shows "\<exists>ban'. (case (bp, ban) of (Some c, Some b) \<Rightarrow> map_option Some (Unsubscribe_banner b c) | _ \<Rightarrow> Some ban) = Some ban'
    \<and> (\<forall>b. ban' = Some b \<longrightarrow> banner_inv b) \<and> banner_subs ban' = (case bp of None \<Rightarrow> banner_subs ban | Some c \<Rightarrow> banner_subs ban - {c})"
proof (cases "bp = None")
  case False
  then obtain c where c: "bp = Some c" "c \<in> banner_subs ban" using assms(2) by blast
  then obtain b where b: "ban = Some b" by (auto simp: banner_subs_def split: option.splits)
  from banner_hub.unsubscribe_ok [OF assms(1) [OF b], of c] c b show ?thesis by (auto simp: banner_subs_def)
qed (use assms in \<open>simp split: option.split\<close>)

text \<open>A step to or from the menu, which only changes the banner and the stage.\<close>

lemma banner_step_inv:
  assumes inv: "arcade_inv a" and s: "ar_sessions a n = Some s" and a': "a' = to_stage (a\<lparr>ar_banner := ban\<rparr>) n s st"
    and st: "stage_poke st = stage_poke (ss_stage s)" "stage_seated st = stage_seated (ss_stage s)"
      "stage_place st = stage_place (ss_stage s)" "stage_game st = None"
      "\<And>poke bp m. st = InMenu poke bp m \<Longrightarrow> lobby_inv m \<and> (m_guest m \<longleftrightarrow> id_Kind (ss_id s) = Guest)"
    and ban: "\<And>b. ban = Some b \<Longrightarrow> banner_inv b"
      "owns ((held bannerPoke_of (ar_sessions a))(n := bannerPoke_of (s\<lparr>ss_stage := st\<rparr>))) (members (banner_subs ban))"
  shows "arcade_inv a'"
proof -
  note i = arcade_invD [OF inv]
  let ?s' = "s\<lparr>ss_stage := st\<rparr>"
  have S: "ar_sessions a' = (ar_sessions a)(n \<mapsto> ?s')" by (simp add: a')
  have ok': "session_ok (ar_allow a) (ar_conns a) ?s'"
    using session_ok_in [OF i(6) s] by (rule session_ok_stage) (use st in auto)
  show ?thesis
  proof (rule session_step_inv [OF inv s S])
    show "pokes_inv a'" using i(3) s _ S by (rule pokes_inv_same) (simp_all add: poke_of_def st a')
    show "notices_inv a'" using ban by (simp add: notices_inv_def a')
    show "floor_inv a'" using i(5) s _ S by (rule floor_inv_same) (simp_all add: seat_of_def st a')
  qed (use ok' store_ok [OF inv] in \<open>simp_all add: a'\<close>)
qed

lemma show_menu_inv:
  assumes inv: "arcade_inv a" and s: "ar_sessions a n = Some s" and st: "ss_stage s = Watching poke"
  shows "arcade_inv (show_menu a n s poke rg width height)"
proof -
  note p = notices_invD [OF inv]
  obtain bp ban where b: "banner_watch (ar_banner a) = (bp, ban)" by force
  note w = banner_watch_holds [OF p(1) b]
  let ?m = "NewLobby (env_now a rg) (ar_banner a \<noteq> None) True (bp \<noteq> None) (id_Fingerprint (ss_id s))
    (Some (session_prefs a s (rg_time rg) (rg_fault rg))) width height (ar_idle a) (ss_flash s) (id_Kind (ss_id s) = Guest)"
  have a': "show_menu a n s poke rg width height = to_stage (a\<lparr>ar_banner := ban\<rparr>) n s (InMenu poke bp ?m)"
    using b by (simp add: show_menu_def banner_watch_def)
  have m: "lobby_inv ?m" by (intro lobby_init_inv lobby_init.intros)
  show ?thesis
  proof (rule banner_step_inv [OF inv s a'])
    show "owns ((held bannerPoke_of (ar_sessions a))(n := bannerPoke_of (s\<lparr>ss_stage := InMenu poke bp ?m\<rparr>))) (members (banner_subs ban))"
      using owns_gain [OF p(2), of n _ "()"] owns_keep [OF p(2), of n None] w(2) s st by (auto simp: bannerPoke_of_def held_Some)
  qed (use st m w(1) in auto)
qed

lemma end_menu_inv:
  assumes inv: "arcade_inv a" and s: "ar_sessions a n = Some s" and st: "ss_stage s = InMenu poke bp m"
  shows "\<exists>a'. end_menu a n s poke bp res = Some a' \<and> arcade_inv a'"
proof -
  note p = notices_invD [OF inv]
  have "c \<in> banner_subs (ar_banner a)" if "bp = Some c" for c
    using ownsD(1) [OF p(2), of n c "()"] s st that by (simp add: bannerPoke_of_def held_Some members_def split: if_splits)
  from banner_unwatch_holds [OF p(1) this] obtain ban where
    ban: "(case (bp, ar_banner a) of (Some c, Some b) \<Rightarrow> map_option Some (Unsubscribe_banner b c) | _ \<Rightarrow> Some (ar_banner a)) = Some ban"
      "\<And>b. ban = Some b \<Longrightarrow> banner_inv b"
      "banner_subs ban = (case bp of None \<Rightarrow> banner_subs (ar_banner a) | Some c \<Rightarrow> banner_subs (ar_banner a) - {c})" by blast
  have "arcade_inv (to_stage (a\<lparr>ar_banner := ban\<rparr>) n s (MenuOver poke res))"
  proof (rule banner_step_inv [OF inv s refl])
    show "owns ((held bannerPoke_of (ar_sessions a))(n := bannerPoke_of (s\<lparr>ss_stage := MenuOver poke res\<rparr>))) (members (banner_subs ban))"
      using owns_lose [OF p(2), of n _ "()"] owns_keep [OF p(2), of n None] ban(3) s st
      by (cases bp) (simp_all add: bannerPoke_of_def held_Some)
  qed (use st ban(2) in auto)
  then show ?thesis using ban(1) by (simp add: end_menu_def)
qed

lemma keep_prefs_simps:
  assumes "keep_prefs a s p = (a1, s1)"
  shows "ar_sessions a1 = ar_sessions a" "ar_guard a1 = ar_guard a" "ar_conns a1 = ar_conns a" "ar_allow a1 = ar_allow a"
    "ar_limits a1 = ar_limits a" "ar_next a1 = ar_next a" "ar_registry a1 = ar_registry a" "ar_banner a1 = ar_banner a"
    "ar_tracker a1 = ar_tracker a" "ss_id s1 = ss_id s" "ss_ip s1 = ss_ip s" "ss_user s1 = ss_user s" "ss_conn s1 = ss_conn s"
    "ss_seat s1 = ss_seat s" "ss_stage s1 = ss_stage s"
    "ar_store a1 = (case p of Some (KeyedPrefs k) \<Rightarrow> sp_store k | _ \<Rightarrow> ar_store a)"
  using assms by (cases "(a, s, p)" rule: keep_prefs.cases; auto)+

lemma kept_store_ok:
  assumes "\<And>t. ar_store a = Some t \<Longrightarrow> store_inv t" "keep_prefs a s p = (a1, s1)"
    "p = Some p0 \<or> p = Some (prefs_ack p0 i)" "p0 = session_prefs a s time fault" "ar_store a1 = Some t"
  shows "store_inv t"
  using assms AckAlphaWarning_inv
  by (auto simp: keep_prefs_simps session_prefs_def session_AckAlpha_def split: if_splits option.splits)

lemma ProbeNow_holds: "reg_inv r \<Longrightarrow> reg_inv (ProbeNow r)" "r_hub (ProbeNow r) = r_hub r"
  by (simp_all add: reg_inv_def ProbeNow_def)

lemma deliver_msg_inv:
  assumes inv: "arcade_inv a" and s: "ar_sessions a n = Some s" and st: "ss_stage s = InMenu poke bp m"
  shows "arcade_inv (deliver_msg a n s poke bp m rg msg)"
proof -
  note i = arcade_invD [OF inv] and p = pokes_invD [OF inv]
  let ?p = "session_prefs a s (rg_time rg) (rg_fault rg)"
  let ?m0 = "m\<lparr>m_prefs := Some ?p\<rparr>"
  obtain m1 cmd probe where u: "Update prefs_has prefs_ack (env_now a rg) msg ?m0 = (m1, cmd, probe)" by (metis prod_cases3)
  obtain a1 s1 where k: "keep_prefs a s (m_prefs m1) = (a1, s1)" by force
  let ?a = "deliver_msg a n s poke bp m rg msg" and ?s' = "s1\<lparr>ss_stage := InMenu poke bp m1\<rparr>"
  let ?r = "if probe then ProbeNow (ar_registry a) else ar_registry a"
  have a: "?a = to_stage (if probe then a1\<lparr>ar_registry := ProbeNow (ar_registry a1)\<rparr> else a1) n s1 (InMenu poke bp m1)"
    using u k by (simp add: deliver_msg_def Let_def)
  note ks = keep_prefs_simps [OF k]
  have "session_ok (ar_allow a) (ar_conns a) s" using session_ok_in [OF i(6) s] .
  then have m: "lobby_inv m" "m_guest m \<longleftrightarrow> id_Kind (ss_id s) = Guest" using st by (auto simp: session_ok_def)
  have "m1 = fst (Update prefs_has prefs_ack (env_now a rg) msg ?m0)" by (simp add: u)
  moreover have "lobby_inv ?m0" using m(1) by (simp add: lobby_inv_def)
  ultimately have m1: "lobby_inv m1" "m_guest m1 \<longleftrightarrow> id_Kind (ss_id s) = Guest"
    using m(2) Update_inv [of ?m0] by simp_all
  have S: "ar_sessions ?a = (ar_sessions a)(n \<mapsto> ?s')" by (simp add: a ks)
  have h: "reg_inv ?r" "r_hub ?r = r_hub (ar_registry a)" using p(1) ProbeNow_holds by simp_all
  have "m_prefs m1 = Some ?p \<or> m_prefs m1 = Some (prefs_ack ?p (alpha_id ?m0))"
    using Update_prefs [of prefs_has prefs_ack "env_now a rg" msg ?m0] by (simp add: u)
  note store = kept_store_ok [OF store_ok [OF inv] k this refl]
  show ?thesis
  proof (rule session_step_inv [OF inv s S])
    have "held poke_of (ar_sessions ?a) = held poke_of (ar_sessions a)"
      unfolding S by (rule held_same [of _ _ s]) (simp_all add: s poke_of_def st)
    moreover have "ar_registry ?a = ?r" by (simp add: a ks)
    ultimately show "pokes_inv ?a" unfolding pokes_inv_def using p h by simp
    show "notices_inv ?a" using i(4) s _ S by (rule notices_inv_same) (simp_all add: bannerPoke_of_def st a ks)
    show "floor_inv ?a" using i(5) s _ S by (rule floor_inv_same) (simp_all add: seat_of_def st a ks)
    show "session_ok (ar_allow a) (ar_conns a) ?s'"
      using session_ok_in [OF i(6) s] by (rule session_ok_stage) (use m1 ks in auto)
  qed (use store ks in \<open>simp_all add: a split: if_splits\<close>)
qed

section \<open>Shells, connections and background tasks\<close>

text \<open>A session that holds nothing but its budget comes or goes.\<close>

lemma held_None: "S n = None \<Longrightarrow> held f S n = None"
  by (simp add: held_def)

lemma dom_held_budget: "dom (held budget_of S) = dom S"
  by (auto simp: held_def budget_of_def dom_def split: option.splits bind_splits)

lemma end_shell_inv:
  assumes inv: "arcade_inv a" and s: "ar_sessions a n = Some s" and st: "ss_stage s = Gone"
  shows "arcade_inv (end_shell a n s)"
proof -
  note i = arcade_invD [OF inv]
  let ?a = "end_shell a n s" and ?h = "held budget_of (ar_sessions a)"
  have S: "ar_sessions ?a = (ar_sessions a)(n := None)" by (simp add: end_shell_def)
  have b: "finite (dom ?h)" "?h n = Some (ss_id s, ss_ip s)" "limits_inv (ar_limits a, shares ?h)"
    using i(2) s by (simp_all add: budgets_inv_def dom_held_budget held_Some budget_of_def)
  have "budgets_inv ?a"
    using i(2) limits_inv_finish [OF b(3) shares_remove(2) [OF b(1,2)]] shares_remove(1) [OF b(1,2)]
    by (simp add: budgets_inv_def S) (simp add: end_shell_def)
  moreover have "pokes_inv ?a" "notices_inv ?a" "floor_inv ?a"
    using i(3-5) s st
    unfolding pokes_inv_def notices_inv_def floor_inv_def S by (simp_all add: owns_keep held_Some held_defs end_shell_def)
  moreover have "conns_inv ?a" "sessions_inv ?a"
    using i(1,6) by (auto simp: conns_inv_def sessions_inv_def end_shell_def split: if_splits)
  ultimately show ?thesis by (simp add: arcade_inv_def)
qed

text \<open>The identity that the middleware resolves is that of the connection.\<close>

lemma resolved_session_ok:
  assumes "conn_ok allow cn" "cn_authed cn \<noteq> None" "conns c = Some cn"
    "resolveIdentity allow (cn_ext cn) (cn_key cn) user bytes = Some i"
    "ss_conn s = c" "ss_user s = user" "ss_id s = i" "ss_stage s = Admitted"
  shows "session_ok allow conns s"
proof -
  have v: "Validate i = None" by (rule resolveIdentity_valid [OF assms(4)])
  have guest: "id_Kind (NewGuest bytes) = Guest" by (simp add: NewGuest_def)
  obtain att where att: "cn_authed cn = Some att" using assms(2) by blast
  show ?thesis
  proof (cases att)
    case (KeyAttempt k proved)
    then have "proved" "i = NewKeyed (Some k) user"
      using assms(1,4) att resolveIdentity_keyed [of "cn_ext cn" allow "cn_key cn" user bytes] by (simp_all add: conn_ok_def)
    then show ?thesis using v att KeyAttempt assms by (auto simp: session_ok_def)
  next
    case (GuestAttempt answers)
    then have "allow" "i = NewGuest bytes"
      using assms(1,4) att Validate_zero by (auto simp: conn_ok_def resolveIdentity_def Let_def split: if_splits)
    then show ?thesis using v att GuestAttempt assms guest by (auto simp: session_ok_def)
  qed (use assms(1) att in \<open>simp_all add: conn_ok_def\<close>)
qed

lemma admitted_inv:
  assumes inv: "arcade_inv a" and s: "session_ok (ar_allow a) (ar_conns a) s" "ss_stage s = Admitted"
    and acq: "acquire (ar_limits a) (ss_id s) (ss_ip s) = (True, l)"
  shows "arcade_inv ((put_session a (ar_next a) s)\<lparr>ar_limits := l, ar_next := Suc (ar_next a)\<rparr>)"
    (is "arcade_inv ?a")
proof -
  note i = arcade_invD [OF inv]
  let ?h = "held budget_of (ar_sessions a)"
  have S: "ar_sessions ?a = (ar_sessions a)(ar_next a \<mapsto> s)" by (simp add: put_session_def)
  have new: "ar_sessions a (ar_next a) = None" using i(2) by (auto simp: budgets_inv_def)
  have b: "finite (dom ?h)" "?h (ar_next a) = None" "limits_inv (ar_limits a, shares ?h)"
    using i(2) new by (simp_all add: budgets_inv_def dom_held_budget held_None)
  have "held budget_of (ar_sessions ?a) = ?h(ar_next a \<mapsto> (ss_id s, ss_ip s))" by (simp add: S budget_of_def)
  moreover have "\<forall>m \<in> dom (ar_sessions ?a). m < ar_next ?a" using i(2) by (auto simp: S budgets_inv_def put_session_def intro: less_SucI)
  ultimately have "budgets_inv ?a"
    using i(2) limits_inv_admit [OF b(3) acq] shares_add [OF b(1,2), of "(ss_id s, ss_ip s)"]
    by (simp add: budgets_inv_def S)
  moreover have "pokes_inv ?a" "notices_inv ?a" "floor_inv ?a"
    using i(3-5) s(2) new
    unfolding pokes_inv_def notices_inv_def floor_inv_def S by (simp_all add: owns_keep held_None held_defs put_session_def)
  moreover have "conns_inv ?a" "sessions_inv ?a"
    using i(1,6) s(1) by (auto simp: conns_inv_def sessions_inv_def put_session_def split: if_splits)
  ultimately show ?thesis by (simp add: arcade_inv_def)
qed

lemma start_shell_inv:
  assumes inv: "arcade_inv a"
  shows "arcade_inv (start_shell a c user bytes)"
proof -
  have refused: "arcade_inv (a\<lparr>ar_limits := l\<rparr>)" if "acquire (ar_limits a) i ip = (False, l)" for i ip l
  proof -
    have "l = ar_limits a" using that by (auto simp: acquire_def Let_def split: if_splits)
    then show ?thesis using inv by simp
  qed
  have started: "arcade_inv ((put_session a (ar_next a)
        \<lparr>ss_conn = c, ss_user = user, ss_id = i, ss_ip = ip, ss_seat = 0, ss_memory = Map.empty, ss_flash = [], ss_stage = Admitted\<rparr>)
       \<lparr>ar_limits := l, ar_next := Suc (ar_next a)\<rparr>)"
    if c: "ar_conns a c = Some cn" "cn_authed cn \<noteq> None" and id: "resolveIdentity (ar_allow a) (cn_ext cn) (cn_key cn) user bytes = Some i"
      and acq: "acquire (ar_limits a) i ip = (True, l)" for cn i ip l
  proof (rule admitted_inv [OF inv])
    have "conn_ok (ar_allow a) cn" using arcade_invD(1) [OF inv] c(1) by (simp add: conns_inv_def)
    from resolved_session_ok [of "ar_allow a" cn "ar_conns a" c, OF this c(2,1) id] show "session_ok (ar_allow a) (ar_conns a)
      \<lparr>ss_conn = c, ss_user = user, ss_id = i, ss_ip = ip, ss_seat = 0, ss_memory = Map.empty, ss_flash = [], ss_stage = Admitted\<rparr>" by simp
  qed (use acq in simp_all)
  show ?thesis
  proof (cases "\<exists>cn i. ar_conns a c = Some cn \<and> cn_authed cn \<noteq> None
      \<and> resolveIdentity (ar_allow a) (cn_ext cn) (cn_key cn) user bytes = Some i")
    case True
    then obtain cn i where cn: "ar_conns a c = Some cn" "cn_authed cn \<noteq> None"
      "resolveIdentity (ar_allow a) (cn_ext cn) (cn_key cn) user bytes = Some i" by blast
    let ?ip = "clientIP (case ag_heap (ar_guard a) c of None \<Rightarrow> [] | Some gc \<Rightarrow> gc_remote gc)"
    obtain ok l where "acquire (ar_limits a) i ?ip = (ok, l)" by force
    then show ?thesis using inv cn refused started [OF cn] by (cases ok) (simp_all add: start_shell_def)
  next
    case False
    then have "start_shell a c user bytes = a" by (auto simp: start_shell_def split: option.split)
    then show ?thesis using inv by simp
  qed
qed

text \<open>The guard and a connection that no session is on change.\<close>

lemma conn_step_inv:
  assumes inv: "arcade_inv a" and guard: "guard_inv g" "dom (ar_conns a) \<subseteq> dom (ag_heap g)" "c \<in> dom (ag_heap g)"
    and cn: "\<And>old. ar_conns a c = Some old \<Longrightarrow> cn_authed old = None" "conn_ok (ar_allow a) cn"
  shows "arcade_inv (a\<lparr>ar_guard := g, ar_conns := (ar_conns a)(c \<mapsto> cn)\<rparr>)" (is "arcade_inv ?a")
proof -
  note i = arcade_invD [OF inv]
  have "conns_inv ?a" using i(1) guard cn(2) by (auto simp: conns_inv_def)
  moreover have "session_ok (ar_allow a) ((ar_conns a)(c \<mapsto> cn)) s" if "ar_sessions a n = Some s" for n s
  proof -
    from session_ok_in [OF i(6) that] have ok: "session_ok (ar_allow a) (ar_conns a) s" .
    then have "ss_conn s \<noteq> c" using cn(1) by (auto simp: session_ok_def)
    then have "((ar_conns a)(c \<mapsto> cn)) (ss_conn s) = ar_conns a (ss_conn s)" by simp
    with ok show ?thesis unfolding session_ok_def by simp
  qed
  then have "sessions_inv ?a" using i(6) by (simp add: sessions_inv_def)
  moreover have "budgets_inv ?a" "pokes_inv ?a" "notices_inv ?a" "floor_inv ?a" using i(2-5) by (simp_all add: arcade_invs)
  ultimately show ?thesis by (simp add: arcade_inv_def)
qed

lemma guard_step_arcade_inv:
  assumes inv: "arcade_inv a" and guard: "guard_inv g" "dom (ar_conns a) \<subseteq> dom (ag_heap g)"
  shows "arcade_inv (a\<lparr>ar_guard := g\<rparr>)"
  using arcade_invD [OF inv] guard unfolding arcade_inv_def by (simp add: arcade_invs)

lemma accept_conn_inv:
  assumes inv: "arcade_inv a"
  shows "arcade_inv (accept_conn a remote now)"
proof -
  obtain conn g where w: "wrap (ar_guard a) remote now = (conn, g)" by force
  have c: "guard_inv (ar_guard a)" "dom (ar_conns a) \<subseteq> dom (ag_heap (ar_guard a))"
    using arcade_invD(1) [OF inv] by (simp_all add: conns_inv_def)
  have g: "guard_inv g" using wrap_inv [OF c(1), of remote now] w by simp
  show ?thesis
  proof (cases conn)
    case None
    then have "g = ar_guard a" using w by (auto simp: wrap_def Let_def split: if_splits)
    then show ?thesis using inv w None by (simp add: accept_conn_def WrapConn_def)
  next
    case (Some k)
    then have k: "k = ag_next (ar_guard a)" "dom (ag_heap g) = insert k (dom (ag_heap (ar_guard a)))"
      using w by (auto simp: wrap_def SetDeadline_def upd_conn_def Let_def split: if_splits)
    have "k \<notin> dom (ag_heap (ar_guard a))" using c(1) k(1) by (auto simp: guard_inv_def heap_ok_def)
    then have "ar_conns a k = None" using c(2) by auto
    then show ?thesis
      using conn_step_inv [OF inv g, of k "\<lparr>cn_ext = Map.empty, cn_key = None, cn_authed = None\<rparr>"] k(2) c(2) w Some
      by (auto simp: accept_conn_def WrapConn_def conn_ok_def)
  qed
qed

lemma login_one:
  assumes "login allow [att] s = (ok, s')" "guard_inv (lg_guard s)" "\<And>f. att \<noteq> Meanwhile f"
  shows "guard_inv (lg_guard s')" "dom (ag_heap (lg_guard s')) = dom (ag_heap (lg_guard s))"
proof -
  have heap: "dom (ag_heap (authenticated g c)) = dom (ag_heap g)" for g c
    by (auto simp: authenticated_def authenticated_unpend_def authenticated_ready_def upd_conn_def split: if_splits)
  have log: "guard_inv (lg_guard l) \<Longrightarrow> guard_inv (lg_guard (AuthLogCallback f l))"
    "dom (ag_heap (lg_guard (AuthLogCallback f l))) = dom (ag_heap (lg_guard l))" for f l
    using heap by (simp_all add: AuthLogCallback_def authenticated_inv split: option.split)
  have guest: "guard_inv g' \<and> ag_heap g' = ag_heap (lg_guard s)"
    if "guestAuth answers (lg_conn s) (lg_guard s) (lg_ext s) = (o', g', e')" for answers o' g' e'
    using guestAuth_cases(1) [OF that assms(2)] that
    by (auto simp: guestAuth_def admitGuest_def Let_def split: if_splits option.splits list.splits prod.splits)
  have "guard_inv (lg_guard s') \<and> dom (ag_heap (lg_guard s')) = dom (ag_heap (lg_guard s))"
  proof (cases att)
    case (KeyAttempt k proved)
    let ?s = "s\<lparr>lg_ext := [authKindExtension \<mapsto> ''keyed''], lg_key := Some k\<rparr>"
    have "s' = AuthLogCallback (\<not> proved) ?s"
      using assms(1) KeyAttempt by (auto simp: publicKeyAuth_def Let_def split: if_splits)
    then show ?thesis using log(1) [of ?s] log(2) [of _ ?s] assms(2) by simp
  next
    case (GuestAttempt answers)
    obtain o' g' e' where g: "guestAuth answers (lg_conn s) (lg_guard s) (lg_ext s) = (o', g', e')" by (metis prod_cases3)
    let ?s = "s\<lparr>lg_guard := g', lg_ext := e'\<rparr>"
    have "s' = s \<or> s' = AuthLogCallback (\<not> o') ?s" using assms(1) GuestAttempt g by (auto simp: Let_def split: if_splits)
    then show ?thesis using log(1) [of ?s] log(2) [of _ ?s] guest [OF g] assms(2) by (elim disjE) simp_all
  qed (use assms in auto)
  then show "guard_inv (lg_guard s')" "dom (ag_heap (lg_guard s')) = dom (ag_heap (lg_guard s))" by blast+
qed

lemma try_auth_inv:
  assumes inv: "arcade_inv a" and att: "\<And>f. att \<noteq> Meanwhile f"
  shows "arcade_inv (try_auth a c att)"
proof (cases "\<exists>cn. ar_conns a c = Some cn \<and> cn_authed cn = None")
  case False
  then have "try_auth a c att = a" by (auto simp: try_auth_def split: option.split)
  then show ?thesis using inv by simp
next
  case True
  then obtain cn where cn: "ar_conns a c = Some cn" "cn_authed cn = None" by blast
  let ?l = "\<lparr>lg_guard = ar_guard a, lg_conn = Some c, lg_ext = cn_ext cn, lg_key = cn_key cn\<rparr>"
  obtain ok l where l: "login (ar_allow a) [att] ?l = (ok, l)" by force
  let ?cn = "\<lparr>cn_ext = lg_ext l, cn_key = lg_key l, cn_authed = (if ok then Some att else None)\<rparr>"
  have c: "guard_inv (ar_guard a)" "dom (ar_conns a) \<subseteq> dom (ag_heap (ar_guard a))"
    using arcade_invD(1) [OF inv] by (simp_all add: conns_inv_def)
  have g: "guard_inv (lg_guard l)" "dom (ag_heap (lg_guard l)) = dom (ag_heap (ar_guard a))"
    using login_one [OF l _ att] c(1) by simp_all
  have "conn_ok (ar_allow a) ?cn"
  proof (cases ok)
    case True
    have "undisturbed [att]" using att by (auto simp: undisturbed_def)
    with login_ok [of "ar_allow a" "[att]" ?l l c] l True c(1) have "login_by (ar_allow a) (cn_key cn) [att] c l" by simp
    then obtain pre b rest where "[att] = pre @ b # rest" "logged_in (ar_allow a) (cn_key cn) pre b c l" by (auto simp: login_by_def)
    then have "logged_in (ar_allow a) (cn_key cn) [] att c l" by (cases pre) auto
    then show ?thesis using True by (simp add: logged_in_def conn_ok_def split: auth_attempt.splits)
  qed (simp add: conn_ok_def)
  moreover have "c \<in> dom (ag_heap (ar_guard a))" using c(2) cn(1) by blast
  ultimately have "arcade_inv (a\<lparr>ar_guard := lg_guard l, ar_conns := (ar_conns a)(c \<mapsto> ?cn)\<rparr>)"
    using g c(2) cn by (intro conn_step_inv [OF inv]) simp_all
  then show ?thesis using cn l by (simp add: try_auth_def)
qed

text \<open>What background tasks do changes no subscription.\<close>

lemma reg_task_subs:
  assumes "reg_inv r" "arcade_op_ok (RegistryTask e)" "reg_exec r e = Some r'"
  shows "reg_inv r'" "subs (r_hub r') = subs (r_hub r)"
proof -
  show "reg_inv r'" using reg_exec_inv [OF assms(1), of e] assms(2,3) by auto
  show "subs (r_hub r') = subs (r_hub r)"
  proof (cases e)
    case OpNotify
    then show ?thesis using notify_holds [OF assms(1)] assms(3) by auto
  next
    case (OpReceive c)
    have "hub_inv (r_hub r)" using assms(1) by (simp add: reg_inv_def)
    moreover have "r' = r\<lparr>r_hub := hub_recv (r_hub r) c\<rparr>" using OpReceive assms(3) by simp
    ultimately show ?thesis using hub_recv_ok [of "r_hub r" c] by simp
  next
    case (OpReport i now)
    then show ?thesis using assms(1,3) report_holds [of r i now] by auto
  next
    case (OpProbed results now)
    then show ?thesis using assms(3) by (auto simp: probe_section_def split_def Let_def)
  next
    case (OpReload mt load now)
    then show ?thesis using assms(3) by (auto simp: reload_section_def split: sum.splits)
  qed (use assms in \<open>auto simp: ProbeNow_def Start_def\<close>)
qed

lemma registry_task_inv:
  assumes inv: "arcade_inv a" and ok: "arcade_op_ok (RegistryTask e)"
  shows "\<exists>a'. arcade_exec a (RegistryTask e) = Some a' \<and> arcade_inv a'"
proof -
  note p = pokes_invD [OF inv]
  obtain r where r: "reg_exec (ar_registry a) e = Some r" using reg_exec_inv [OF p(1)] ok by auto
  from reg_task_subs [OF p(1) ok r] p(2) have "pokes_inv (a\<lparr>ar_registry := r\<rparr>)" by (simp add: pokes_inv_def)
  then have "arcade_inv (a\<lparr>ar_registry := r\<rparr>)" using arcade_invD [OF inv] by (simp add: arcade_inv_def arcade_invs)
  then show ?thesis using r by simp
qed

lemma banner_task_subs:
  assumes "banner_inv b" "arcade_op_ok (BannerTask e)" "banner_exec b e = Some b'"
  shows "banner_inv b'" "subs (bs_hub b') = subs (bs_hub b)"
proof -
  show "banner_inv b'" using banner_exec_inv [OF assms(1), of e] assms(2,3) by auto
  show "subs (bs_hub b') = subs (bs_hub b)"
  proof (cases e)
    case BNotify
    then show ?thesis using banner_hub.publish_ok [OF assms(1)] assms(3) by auto
  next
    case (BReceive c)
    then have "b' = b\<lparr>bs_hub := hub_recv (bs_hub b) c\<rparr>" using assms(3) by simp
    then show ?thesis using banner_hub.receive_ok [OF assms(1), of c] by simp
  next
    case (BChanged mt load)
    then show ?thesis using assms(3) by (auto simp: changed_section_def split_def Let_def split: sum.splits if_splits)
  qed (use assms in \<open>auto simp: removed_section_def ReloadNow_def Start_banner_def split_def Let_def split: if_splits\<close>)
qed

lemma banner_task_inv:
  assumes inv: "arcade_inv a" and ok: "arcade_op_ok (BannerTask e)"
  shows "\<exists>a'. arcade_exec a (BannerTask e) = Some a' \<and> arcade_inv a'"
proof (cases "ar_banner a")
  case (Some b)
  note p = notices_invD [OF inv]
  obtain b' where b': "banner_exec b e = Some b'" using banner_exec_inv [OF p(1) [OF Some]] ok by auto
  from banner_task_subs [OF p(1) [OF Some] ok b'] p(2) Some have "notices_inv (a\<lparr>ar_banner := Some b'\<rparr>)"
    by (simp add: notices_inv_def banner_subs_def)
  then have "arcade_inv (a\<lparr>ar_banner := Some b'\<rparr>)" using arcade_invD [OF inv] by (simp add: arcade_inv_def arcade_invs)
  then show ?thesis using b' Some by simp
qed (use inv in simp)

lemma conn_Close_dom: "dom (ag_heap (conn_Close g c)) = dom (ag_heap g)"
  by (auto simp: conn_Close_def release_conn_def upd_conn_def Let_def split: if_splits option.splits)

lemma hang_up_inv:
  assumes inv: "arcade_inv a" and c: "ar_conns a c = Some cn"
  shows "arcade_inv (a\<lparr>ar_guard := conn_Close (ar_guard a) c\<rparr>)"
proof (rule guard_step_arcade_inv [OF inv])
  have g: "guard_inv (ar_guard a)" "dom (ar_conns a) \<subseteq> dom (ag_heap (ar_guard a))"
    using arcade_invD(1) [OF inv] by (simp_all add: conns_inv_def)
  then have "ag_heap (ar_guard a) c \<noteq> None" using c by blast
  then show "guard_inv (conn_Close (ar_guard a) c)" by (rule conn_Close_inv [OF g(1)])
  show "dom (ar_conns a) \<subseteq> dom (ag_heap (conn_Close (ar_guard a) c))" using g(2) by (simp add: conn_Close_dom)
qed

lemma push_deadline_inv:
  assumes inv: "arcade_inv a"
  shows "arcade_inv (a\<lparr>ar_guard := SetDeadline (ar_guard a) c t\<rparr>)"
proof (rule guard_step_arcade_inv [OF inv])
  have g: "guard_inv (ar_guard a)" "dom (ar_conns a) \<subseteq> dom (ag_heap (ar_guard a))"
    using arcade_invD(1) [OF inv] by (simp_all add: conns_inv_def)
  show "guard_inv (SetDeadline (ar_guard a) c t)" by (rule SetDeadline_inv [OF g(1)])
  show "dom (ar_conns a) \<subseteq> dom (ag_heap (SetDeadline (ar_guard a) c t))"
    using g(2) by (auto simp: SetDeadline_def upd_conn_def)
qed

section \<open>Runs\<close>

text \<open>A step of a session: it is at its stage, where the lemma for that stage applies, or nothing happens.\<close>

lemma on_session_ok:
  assumes "arcade_inv a" "\<And>s. ar_sessions a n = Some s \<Longrightarrow> \<exists>a'. f s = Some a' \<and> arcade_inv a'"
  shows "\<exists>a'. on_session a n f = Some a' \<and> arcade_inv a'"
  using assms by (auto simp: on_session_def split: option.split)

lemmas session_steps_inv = refuse_terminal_inv touch_store_inv take_seat_inv watch_games_inv show_menu_inv deliver_msg_inv
  draw_inv end_menu_inv stop_watching_inv check_game_inv enter_game_inv end_visit_inv report_visit_inv tell_others_inv
  give_seat_back_inv end_shell_inv

lemma arcade_exec_inv:
  assumes inv: "arcade_inv a" and ok: "arcade_op_ok e"
  shows "\<exists>a'. arcade_exec a e = Some a' \<and> arcade_inv a'"
proof (cases e)
  case (RegistryTask t)
  then show ?thesis using registry_task_inv [OF inv] ok by blast
next
  case (BannerTask t)
  then show ?thesis using banner_task_inv [OF inv] ok by blast
next
  case (TryAuth c att)
  then show ?thesis using try_auth_inv [OF inv, of att c] ok by simp
next
  case (HangUp c)
  then show ?thesis using inv hang_up_inv [OF inv] by auto
qed (simp_all only: arcade_exec.simps, use inv in \<open>auto intro!: on_session_ok session_steps_inv accept_conn_inv start_shell_inv
    push_deadline_inv split: stage.split\<close>)

lemma arcade_run_inv:
  "arcade_inv a \<Longrightarrow> \<forall>e \<in> set es. arcade_op_ok e \<Longrightarrow> \<exists>a'. arcade_run a es = Some a' \<and> arcade_inv a'"
proof (induction es arbitrary: a)
  case (Cons e es)
  then obtain b where b: "arcade_exec a e = Some b" "arcade_inv b" using arcade_exec_inv [of a e] by auto
  with Cons show ?case by simp
qed simp

end
