(* ===== verification/Go_Time.thy ===== *)
theory Go_Time
  imports Complex_Main Go_Json "HOL-Library.Log_Nat"
begin

text \<open>
  What the configuration uses of Go's packages \<^verbatim>\<open>strconv\<close> and \<^verbatim>\<open>time\<close>: \<^verbatim>\<open>Atoi\<close>, \<^verbatim>\<open>ParseBool\<close>, \<^verbatim>\<open>ParseFloat\<close>
  and \<^verbatim>\<open>ParseDuration\<close> with its bounds on 64-bit integers and its binary64 arithmetic on fractions.

  Shown: both number parsers invert decimal printing on the values in range, no result leaves the
  range of a 64-bit integer, and the parsing loop of durations terminates.
\<close>

section \<open>\<^verbatim>\<open>strconv\<close>\<close>

text \<open>The value of a decimal digit, and of a string of them read from the left.\<close>

definition digit_val :: "char \<Rightarrow> int" where
  "digit_val c = int (byte c) - 48"

definition dec_read :: "int \<Rightarrow> string \<Rightarrow> int" where
  "dec_read = foldl (\<lambda>x c. x * 10 + digit_val c)"

definition Atoi :: "string \<Rightarrow> int option" where
  "Atoi s =
     (let neg = (case s of c # _ \<Rightarrow> c = CHR ''-'' | [] \<Rightarrow> False);
          ds = (case s of c # cs \<Rightarrow> if c = CHR ''-'' \<or> c = CHR ''+'' then cs else s | [] \<Rightarrow> [])
      in if ds = [] \<or> \<not> list_all is_digit ds then None
         else
           (let n = dec_read 0 ds; v = (if neg then - n else n)
            in if - (2 ^ 63) \<le> v \<and> v < 2 ^ 63 then Some v else None))"

definition ParseBool :: "string \<Rightarrow> bool option" where
  "ParseBool s =
     (if s \<in> set [''1'', ''t'', ''T'', ''TRUE'', ''true'', ''True''] then Some True
      else if s \<in> set [''0'', ''f'', ''F'', ''FALSE'', ''false'', ''False''] then Some False
      else None)"

section \<open>Binary64\<close>

text \<open>
  Non-negative binary64 numbers: rationals and infinity. \<open>rnd\<close> rounds to the nearest one, ties to
  even; the smallest exponent is that of subnormal numbers.
\<close>

datatype float = Finite rat | Infinite

definition pow2 :: "int \<Rightarrow> rat" where
  "pow2 k = (if 0 \<le> k then 2 ^ nat k else 1 / 2 ^ nat (- k))"

definition half_even :: "rat \<Rightarrow> int" where
  "half_even x =
     (let f = \<lfloor>x\<rfloor>; r = x - of_int f
      in if r < 1 / 2 then f else if 1 / 2 < r then f + 1 else if even f then f else f + 1)"

definition log2_floor :: "rat \<Rightarrow> int" where
  "log2_floor q =
     (case quotient_of q of (a, b) \<Rightarrow>
        (let k = bitlen a - bitlen b in if pow2 k \<le> q then k else k - 1))"

definition rnd :: "rat \<Rightarrow> float" where
  "rnd q =
     (if q \<le> 0 then Finite 0
      else
        (let e = max (log2_floor q - 52) (- 1074); r = of_int (half_even (q / pow2 e)) * pow2 e
         in if 2 ^ 1024 \<le> r then Infinite else Finite r))"

fun f_mul :: "float \<Rightarrow> rat \<Rightarrow> float" where
  "f_mul (Finite a) b = rnd (a * b)"
| "f_mul Infinite b = Infinite"

text \<open>\<^verbatim>\<open>uint64(float64(f) * (float64(unit) / scale))\<close>.\<close>

definition fraction_part :: "int \<Rightarrow> int \<Rightarrow> float \<Rightarrow> int" where
  "fraction_part f unit scale =
     (case scale of
        Infinite \<Rightarrow> 0
      | Finite s \<Rightarrow>
          (case (rnd (of_int f), rnd (of_int unit / s)) of
             (Finite a, Finite b) \<Rightarrow> (case rnd (a * b) of Finite c \<Rightarrow> \<lfloor>c\<rfloor> | Infinite \<Rightarrow> 0)
           | _ \<Rightarrow> 0))"

section \<open>\<^verbatim>\<open>strconv.ParseFloat\<close>\<close>

datatype float64 = F64_NaN | F64_Inf bool | F64 rat

definition hex_char :: "char \<Rightarrow> bool" where
  "hex_char c \<longleftrightarrow> from_hex c \<noteq> None"

text \<open>Underscores stand between digits, or between the base prefix and a digit; \<open>saw\<close> is the last kind of character.\<close>

fun underscore_loop :: "bool \<Rightarrow> char \<Rightarrow> string \<Rightarrow> bool" where
  "underscore_loop hex saw [] = (saw \<noteq> CHR ''_'')"
| "underscore_loop hex saw (c # cs) =
     (if is_digit c \<or> (hex \<and> hex_char c) then underscore_loop hex (CHR ''0'') cs
      else if c = CHR ''_'' then (if saw \<noteq> CHR ''0'' then False else underscore_loop hex (CHR ''_'') cs)
      else if saw = CHR ''_'' then False
      else underscore_loop hex (CHR ''!'') cs)"

definition strip_sign :: "string \<Rightarrow> bool \<times> string" where
  "strip_sign s =
     (case s of
        [] \<Rightarrow> (False, [])
      | c # cs \<Rightarrow> if c = CHR ''-'' then (True, cs) else if c = CHR ''+'' then (False, cs) else (False, s))"

definition underscoreOK :: "string \<Rightarrow> bool" where
  "underscoreOK s =
     (let t = snd (strip_sign s) in
      case t of
        c # d # ds \<Rightarrow>
          if c = CHR ''0'' \<and> d \<in> set ''bBoOxX'' then underscore_loop (d \<in> set ''xX'') (CHR ''0'') ds
          else underscore_loop False (CHR ''^'') t
      | _ \<Rightarrow> underscore_loop False (CHR ''^'') t)"

text \<open>The exponent, a digit string with underscores; it stops growing at five digits.\<close>

definition exponent :: "string \<Rightarrow> int option" where
  "exponent s =
     (let (neg, t) = strip_sign s;
          e = foldl (\<lambda>e c. if c = CHR ''_'' then e else if e < 10000 then e * 10 + digit_val c else e) 0 t
      in if t = [] \<or> \<not> is_digit (hd t) \<or> \<not> list_all (\<lambda>c. is_digit c \<or> c = CHR ''_'') t then None
         else Some (if neg then - e else e))"

definition mantissa :: "int \<Rightarrow> string \<Rightarrow> int" where
  "mantissa base = foldl (\<lambda>x c. x * base + (case from_hex c of Some d \<Rightarrow> int d | None \<Rightarrow> 0)) 0"

text \<open>\<^verbatim>\<open>readFloat\<close>: the sign and the exact value of a well-formed literal.\<close>

definition readFloat :: "string \<Rightarrow> (bool \<times> rat) option" where
  "readFloat s =
     (let (neg, t) = strip_sign s;
          hex = (case t of c # d # e # _ \<Rightarrow> c = CHR ''0'' \<and> (d = CHR ''x'' \<or> d = CHR ''X'') | _ \<Rightarrow> False);
          body = (if hex then drop 2 t else t);
          digit = (if hex then hex_char else is_digit);
          part = takeWhile (\<lambda>c. digit c \<or> c = CHR ''.'' \<or> c = CHR ''_'') body;
          rest = dropWhile (\<lambda>c. digit c \<or> c = CHR ''.'' \<or> c = CHR ''_'') body;
          chars = filter (\<lambda>c. c \<noteq> CHR ''_'') part;
          whole = takeWhile (\<lambda>c. c \<noteq> CHR ''.'') chars;
          frac = drop (length whole + 1) chars;
          base = (if hex then 16 else 10);
          expo = (case rest of
                    [] \<Rightarrow> if hex then None else Some 0
                  | c # cs \<Rightarrow> if c \<in> set (if hex then ''pP'' else ''eE'') then exponent cs else None)
      in if CHR ''.'' \<in> set frac \<or> whole @ frac = [] then None
         else if CHR ''_'' \<in> set s \<and> \<not> underscoreOK s then None
         else
           (case expo of
              None \<Rightarrow> None
            | Some e \<Rightarrow>
                (let m = of_int (mantissa base (whole @ frac)) / of_int base ^ length frac;
                     b = (if hex then 2 else 10)
                 in Some (neg, m * (if 0 \<le> e then b ^ nat e else 1 / b ^ nat (- e))))))"

definition ascii_lower :: "string \<Rightarrow> string" where
  "ascii_lower = map (\<lambda>c. if 65 \<le> byte c \<and> byte c \<le> 90 then chr (byte c + 32) else c)"

text \<open>\<open>None\<close> is an error: a bad literal, or one beyond the largest number.\<close>

definition ParseFloat :: "string \<Rightarrow> float64 option" where
  "ParseFloat s =
     (let l = ascii_lower s in
      if l = ''nan'' then Some F64_NaN
      else if l \<in> set [''inf'', ''+inf'', ''infinity'', ''+infinity''] then Some (F64_Inf False)
      else if l \<in> set [''-inf'', ''-infinity''] then Some (F64_Inf True)
      else
        (case readFloat s of
           None \<Rightarrow> None
         | Some (neg, q) \<Rightarrow>
             (case rnd q of Infinite \<Rightarrow> None | Finite r \<Rightarrow> Some (F64 (if neg then - r else r)))))"

text \<open>\<open>f <= 0\<close>, which does not hold of NaN.\<close>

fun f64_le_0 :: "float64 \<Rightarrow> bool" where
  "f64_le_0 F64_NaN = False"
| "f64_le_0 (F64_Inf neg) = neg"
| "f64_le_0 (F64 q) = (q \<le> 0)"

section \<open>\<^verbatim>\<open>time.ParseDuration\<close>\<close>

fun leadingInt :: "int \<Rightarrow> string \<Rightarrow> (int \<times> string) option" where
  "leadingInt x [] = Some (x, [])"
| "leadingInt x (c # cs) =
     (if \<not> is_digit c then Some (x, c # cs)
      else if 2 ^ 63 div 10 < x then None
      else
        (let y = x * 10 + digit_val c in if 2 ^ 63 < y then None else leadingInt y cs))"

text \<open>After the digits no longer fit they are skipped, and the scale stays.\<close>

fun leadingFraction :: "int \<Rightarrow> float \<Rightarrow> bool \<Rightarrow> string \<Rightarrow> int \<times> float \<times> string" where
  "leadingFraction x scale overflow [] = (x, scale, [])"
| "leadingFraction x scale overflow (c # cs) =
     (if \<not> is_digit c then (x, scale, c # cs)
      else if overflow then leadingFraction x scale True cs
      else if (2 ^ 63 - 1) div 10 < x then leadingFraction x scale True cs
      else
        (let y = x * 10 + digit_val c
         in if 2 ^ 63 < y then leadingFraction x scale True cs
            else leadingFraction y (f_mul scale 10) False cs))"

definition unitMap :: "string \<Rightarrow> int option" where
  "unitMap u = map_of
     [(''ns'', 1), (''us'', 1000), (encode_rune 0xB5 @ ''s'', 1000), (encode_rune 0x3BC @ ''s'', 1000),
      (''ms'', 1000000), (''s'', 1000000000), (''m'', 60000000000), (''h'', 3600000000000)] u"

definition unit_char :: "char \<Rightarrow> bool" where
  "unit_char c \<longleftrightarrow> c \<noteq> CHR ''.'' \<and> \<not> is_digit c"

text \<open>The optional fraction: its digits, its scale, the rest, and whether there were any digits.\<close>

definition fraction_of :: "string \<Rightarrow> int \<times> float \<times> string \<times> bool" where
  "fraction_of s1 =
     (case s1 of
        [] \<Rightarrow> (0, Finite 1, s1, False)
      | d # ds \<Rightarrow>
          if d = CHR ''.'' then
            (let (f, scale, s2) = leadingFraction 0 (Finite 1) False ds in (f, scale, s2, length ds \<noteq> length s2))
          else (0, Finite 1, s1, False))"

text \<open>
  One round of the loop: a number with its unit, as nanoseconds, and what is left of the string.
\<close>

definition duration_part :: "string \<Rightarrow> (int \<times> string) option" where
  "duration_part s =
     (case s of
        [] \<Rightarrow> None
      | c # _ \<Rightarrow>
          if \<not> (c = CHR ''.'' \<or> is_digit c) then None
          else
            (case leadingInt 0 s of
               None \<Rightarrow> None
             | Some (v, s1) \<Rightarrow>
                 (let pre = (length s \<noteq> length s1);
                      (f, scale, s2, post) = fraction_of s1;
                      u = takeWhile unit_char s2; s3 = dropWhile unit_char s2
                  in if \<not> pre \<and> \<not> post then None
                     else if u = [] then None
                     else
                       (case unitMap u of
                          None \<Rightarrow> None
                        | Some unit \<Rightarrow>
                            if 2 ^ 63 div unit < v then None
                            else
                              (let w = v * unit + (if 0 < f then fraction_part f unit scale else 0)
                               in if 0 < f \<and> 2 ^ 63 < w then None else Some (w, s3))))))"

lemma leadingInt_length: "leadingInt x s = Some (v, s') \<Longrightarrow> length s' \<le> length s"
  by (induction x s rule: leadingInt.induct) (auto simp: Let_def split: if_splits)

lemma leadingFraction_length: "length (snd (snd (leadingFraction x scale b s))) \<le> length s"
  by (induction s arbitrary: x scale b) (auto simp: Let_def intro: le_SucI)

lemma fraction_of_length: "fraction_of s = (f, scale, s', post) \<Longrightarrow> length s' \<le> length s"
  using leadingFraction_length [of 0 "Finite 1" False "tl s"]
  by (auto simp: fraction_of_def split_def Let_def split: list.splits if_splits)

lemma dropWhile_shorter: "takeWhile P s \<noteq> [] \<Longrightarrow> length (dropWhile P s) < length s"
  by (cases s) (auto simp: less_Suc_eq_le length_dropWhile_le split: if_splits)

lemma duration_part_shorter: "duration_part s = Some (w, s') \<Longrightarrow> length s' < length s"
proof -
  assume a: "duration_part s = Some (w, s')"
  then obtain v s1 where i: "leadingInt 0 s = Some (v, s1)"
    by (auto simp: duration_part_def split: list.splits if_splits option.splits)
  obtain f scale s2 post where f: "fraction_of s1 = (f, scale, s2, post)" by (metis prod_cases4)
  have "s' = dropWhile unit_char s2 \<and> takeWhile unit_char s2 \<noteq> []"
    using a i f by (auto simp: duration_part_def Let_def split: list.splits if_splits option.splits)
  then show ?thesis using dropWhile_shorter fraction_of_length [OF f] leadingInt_length [OF i] by fastforce
qed

text \<open>The loop adds up in 64 bits.\<close>

function duration_loop :: "int \<Rightarrow> string \<Rightarrow> int option" where
  "duration_loop d s =
     (if s = [] then Some d
      else
        (case duration_part s of
           None \<Rightarrow> None
         | Some (v, s') \<Rightarrow>
             (let d' = (d + v) mod 2 ^ 64 in if 2 ^ 63 < d' then None else duration_loop d' s')))"
  by pat_completeness auto

termination
  by (relation "measure (\<lambda>(d, s). length s)") (auto dest: duration_part_shorter)

declare duration_loop.simps [simp del]

definition ParseDuration :: "string \<Rightarrow> int option" where
  "ParseDuration orig =
     (let neg = (case orig of c # _ \<Rightarrow> c = CHR ''-'' | [] \<Rightarrow> False);
          s = (case orig of c # cs \<Rightarrow> if c = CHR ''-'' \<or> c = CHR ''+'' then cs else orig | [] \<Rightarrow> [])
      in if s = ''0'' then Some 0
         else if s = [] then None
         else
           (case duration_loop 0 s of
              None \<Rightarrow> None
            | Some d \<Rightarrow>
                if neg then Some (- d)
                else if 2 ^ 63 - 1 < d then None
                else Some d))"

section \<open>Lemmas\<close>

lemma Atoi_range: "Atoi s = Some v \<Longrightarrow> - (2 ^ 63) \<le> v \<and> v < 2 ^ 63"
  by (auto simp: Atoi_def Let_def split: if_splits)

lemma duration_loop_bound: "duration_loop d s = Some n \<Longrightarrow> 0 \<le> d \<Longrightarrow> d \<le> 2 ^ 63 \<Longrightarrow> 0 \<le> n \<and> n \<le> 2 ^ 63"
  by (induction d s rule: duration_loop.induct)
    (subst (asm) duration_loop.simps, auto simp: Let_def split: if_splits option.splits)

lemma ParseDuration_range: "ParseDuration s = Some d \<Longrightarrow> - (2 ^ 63) \<le> d \<and> d < 2 ^ 63"
  using duration_loop_bound [of 0 "case s of c # cs \<Rightarrow> if c = CHR ''-'' \<or> c = CHR ''+'' then cs else s | [] \<Rightarrow> []"]
  by (auto simp: ParseDuration_def Let_def split: if_splits option.splits)

subsection \<open>Printing and reading back\<close>

lemma dec_read_dec_string: "dec_read 0 (dec_string n) = int n"
proof (induction n rule: dec_string.induct)
  case (1 n)
  have "int (n div 10) * 10 + int (n mod 10) = int n" by presburger
  with 1 show ?case by (subst dec_string.simps) (auto simp: dec_read_def digit_val_def)
qed

lemma digit_val_nonneg: "is_digit c \<Longrightarrow> 0 \<le> digit_val c"
  by (simp add: is_digit_def digit_val_def)

lemma dec_read_ge: "list_all is_digit ds \<Longrightarrow> 0 \<le> x \<Longrightarrow> x \<le> dec_read x ds"
proof (induction ds arbitrary: x)
  case (Cons d ds)
  have d: "0 \<le> digit_val d" using Cons.prems by (simp add: digit_val_nonneg)
  then have "x \<le> x * 10 + digit_val d" using Cons.prems(2) by linarith
  also have "\<dots> \<le> dec_read (x * 10 + digit_val d) ds" using Cons d by simp
  finally show ?case by (simp add: dec_read_def)
qed (simp add: dec_read_def)

lemma leadingInt_digits:
  "list_all is_digit ds \<Longrightarrow> 0 \<le> x \<Longrightarrow> dec_read x ds \<le> 2 ^ 63 \<Longrightarrow> leadingInt x (ds @ u) = leadingInt (dec_read x ds) u"
proof (induction ds arbitrary: x)
  case (Cons d ds)
  let ?y = "x * 10 + digit_val d"
  have d: "0 \<le> digit_val d" using Cons.prems by (simp add: digit_val_nonneg)
  have y: "?y \<le> 2 ^ 63" "dec_read ?y ds \<le> 2 ^ 63"
    using Cons.prems d dec_read_ge [of ds ?y] by (simp_all add: dec_read_def)
  then have "x \<le> 2 ^ 63 div 10" using d by simp
  with y d Cons show ?case by (simp add: dec_read_def Let_def)
qed (simp add: dec_read_def)

lemma dec_string_nonempty: "dec_string n \<noteq> []"
  by (subst dec_string.simps) simp

lemma dec_string_hd: "\<exists>c cs. dec_string n = c # cs \<and> is_digit c"
  using dec_string_nonempty [of n] dec_string_digits [of n] by (cases "dec_string n") auto

lemma sign_not_digit: "\<not> is_digit (CHR ''-'')" "\<not> is_digit (CHR ''+'')" "\<not> is_digit (CHR ''.'')"
  by (simp_all add: is_digit_def)

lemma Atoi_dec_string: "int n < 2 ^ 63 \<Longrightarrow> Atoi (dec_string n) = Some (int n)"
proof -
  assume n: "int n < 2 ^ 63"
  obtain c cs where c: "dec_string n = c # cs" "is_digit c" using dec_string_hd by blast
  then have "c \<noteq> CHR ''-''" "c \<noteq> CHR ''+''" using sign_not_digit by auto
  then show ?thesis
    using n c dec_string_digits [of n] dec_read_dec_string [of n] by (simp add: Atoi_def)
qed

lemma duration_part_whole:
  assumes "list_all unit_char u" "u \<noteq> []" "unitMap u = Some k" "0 < k" "int n * k \<le> 2 ^ 63"
  shows "duration_part (dec_string n @ u) = Some (int n * k, [])"
proof -
  obtain c cs where c: "dec_string n = c # cs" "is_digit c" using dec_string_hd by blast
  obtain d ds where d: "u = d # ds" using assms(2) by (cases u) auto
  have k: "int n \<le> 2 ^ 63 div k" using zdiv_mono1 [OF assms(5,4)] assms(4) by simp
  have n: "int n \<le> 2 ^ 63" using assms(4,5) by (metis mult_le_cancel_left1 of_nat_0_le_iff order_trans zless_imp_add1_zle add_0 not_le)
  have nd: "\<not> is_digit d" "d \<noteq> CHR ''.''" using assms(1) d by (auto simp: unit_char_def)
  have i: "leadingInt 0 (dec_string n @ u) = Some (int n, u)"
    using leadingInt_digits [OF dec_string_digits, of 0 n u] n nd d by (simp add: dec_read_dec_string)
  have f: "fraction_of u = (0, Finite 1, u, False)" using d nd by (simp add: fraction_of_def)
  have t: "takeWhile unit_char u = u" "dropWhile unit_char u = []" using assms(1) by (auto simp: list_all_iff)
  show ?thesis
    unfolding duration_part_def i option.case prod.case f t Let_def
    using c assms(2,3) k by (simp split: list.split)
qed

text \<open>A number of whole units reads back as that many nanoseconds, as long as they fit.\<close>

lemma ParseDuration_whole:
  assumes "list_all unit_char u" "u \<noteq> []" "unitMap u = Some k" "0 < k" "int n * k < 2 ^ 63"
  shows "ParseDuration (dec_string n @ u) = Some (int n * k)"
proof -
  obtain c cs where c: "dec_string n = c # cs" "is_digit c" using dec_string_hd by blast
  have s: "c \<noteq> CHR ''-''" "c \<noteq> CHR ''+''" using c sign_not_digit by auto
  have "dec_string n @ u \<noteq> ''0''" using c assms(2) by (cases cs) auto
  moreover have "duration_loop 0 (dec_string n @ u) = Some (int n * k)"
    using duration_part_whole [OF assms(1-4)] assms(4,5) dec_string_nonempty [of n]
    by (simp add: duration_loop.simps [of 0] duration_loop.simps [of _ "[]"] Let_def)
  ultimately show ?thesis using c s assms(2,5) by (simp add: ParseDuration_def Let_def)
qed

end
