(* ===== verification/Config.thy ===== *)
theory Config
  imports Go_Time Session_Limits Authguard
begin

text \<open>
  \<^verbatim>\<open>internal/config/config.go\<close>: the settings of the router, read from \<^verbatim>\<open>ARCADE_*\<close> variables. The
  environment is a function that yields the empty string for a variable that is not set, as
  \<^verbatim>\<open>os.Getenv\<close> does. \<open>Load\<close> reads and checks in the order of the code and stops at the first error.

  Shown: exactly which environments are accepted and with which settings, the defaults, that the
  accepted settings keep every bound the rest of the router relies on, and with them that guests
  can never take the last seat from keyed players.
\<close>

section \<open>Settings\<close>

record Config =
  c_AllowGuests :: bool
  c_MaxGuestSessions :: int
  c_MaxGuestSessionsPerIP :: int
  c_MaxPendingAuth :: int
  c_AuthTimeout :: int
  c_ListenHost :: string
  c_ListenPort :: int
  c_HostKeyPath :: string
  c_ProxyKeyPath :: string
  c_GamesPath :: string
  c_BannerPath :: string
  c_DBPath :: string
  c_StatsPath :: string
  c_StatsInterval :: int
  c_LobbyIdleTimeout :: int
  c_ProbeInterval :: int
  c_MaxConnections :: int
  c_MaxSessionsPerKey :: int
  c_RateLimitPerSecond :: float64
  c_RateLimitBurst :: int
  c_RateLimitMaxEntries :: int
  c_LogLevel :: string
  c_LogFormat :: string

datatype config_error =
    BadBool string
  | InvalidInteger string string
  | InvalidFloat string string
  | InvalidDuration string string
  | LimitsNotPositive
  | GuestsNotBelowConnections
  | PortOutOfRange int
  | EmptyPath string
  | NegativeIdleTimeout
  | IntervalTooShort string
  | TooSmall string
  | RateNotPositive

type_synonym 'a result = "config_error + 'a"

type_synonym getenv = "string \<Rightarrow> string"

definition second :: int where "second = 1000000000"

definition envOr :: "getenv \<Rightarrow> string \<Rightarrow> string \<Rightarrow> string" where
  "envOr env key fallback = (if env key \<noteq> [] then env key else fallback)"

definition envIntOr :: "getenv \<Rightarrow> string \<Rightarrow> int \<Rightarrow> int result" where
  "envIntOr env key fallback =
     (if env key = [] then Inr fallback
      else case Atoi (env key) of None \<Rightarrow> Inl (InvalidInteger key (env key)) | Some n \<Rightarrow> Inr n)"

definition envFloatOr :: "getenv \<Rightarrow> string \<Rightarrow> float64 \<Rightarrow> float64 result" where
  "envFloatOr env key fallback =
     (if env key = [] then Inr fallback
      else case ParseFloat (env key) of None \<Rightarrow> Inl (InvalidFloat key (env key)) | Some f \<Rightarrow> Inr f)"

definition envDurationOr :: "getenv \<Rightarrow> string \<Rightarrow> int \<Rightarrow> int result" where
  "envDurationOr env key fallback =
     (if env key = [] then Inr fallback
      else case ParseDuration (env key) of None \<Rightarrow> Inl (InvalidDuration key (env key)) | Some d \<Rightarrow> Inr d)"

definition allowGuestsVar :: "getenv \<Rightarrow> bool result" where
  "allowGuestsVar env =
     (if env ''ARCADE_ALLOW_GUESTS'' = [] then Inr False
      else case ParseBool (env ''ARCADE_ALLOW_GUESTS'') of
          None \<Rightarrow> Inl (BadBool ''ARCADE_ALLOW_GUESTS'') | Some b \<Rightarrow> Inr b)"

text \<open>Go on with the value, or return the error; and return an error unless a condition holds.\<close>

fun on_ok :: "'a result \<Rightarrow> ('a \<Rightarrow> 'b result) \<Rightarrow> 'b result" where
  "on_ok (Inl e) k = Inl e"
| "on_ok (Inr v) k = k v"

definition check :: "bool \<Rightarrow> config_error \<Rightarrow> 'b result \<Rightarrow> 'b result" where
  "check ok e k = (if ok then k else Inl e)"

definition check_config :: "Config \<Rightarrow> Config result" where
  "check_config c =
     check (\<not> (c_MaxGuestSessions c \<le> 0 \<or> c_MaxGuestSessionsPerIP c \<le> 0 \<or> c_MaxPendingAuth c \<le> 0 \<or> c_AuthTimeout c \<le> 0))
       LimitsNotPositive (
     check (\<not> (c_AllowGuests c \<and> c_MaxConnections c \<le> c_MaxGuestSessions c)) GuestsNotBelowConnections (
     check (\<not> (c_ListenPort c < 1 \<or> 65535 < c_ListenPort c)) (PortOutOfRange (c_ListenPort c)) (
     check (c_HostKeyPath c \<noteq> []) (EmptyPath ''ARCADE_HOST_KEY_PATH'') (
     check (c_ProxyKeyPath c \<noteq> []) (EmptyPath ''ARCADE_PROXY_KEY_PATH'') (
     check (c_GamesPath c \<noteq> []) (EmptyPath ''ARCADE_GAMES_PATH'') (
     check (c_BannerPath c \<noteq> []) (EmptyPath ''ARCADE_BANNER_PATH'') (
     check (c_DBPath c \<noteq> []) (EmptyPath ''ARCADE_DB_PATH'') (
     check (\<not> c_LobbyIdleTimeout c < 0) NegativeIdleTimeout (
     check (\<not> c_ProbeInterval c < second) (IntervalTooShort ''ARCADE_PROBE_INTERVAL'') (
     check (\<not> c_StatsInterval c < second) (IntervalTooShort ''ARCADE_STATS_INTERVAL'') (
     check (\<not> c_MaxConnections c < 1) (TooSmall ''ARCADE_MAX_CONNECTIONS'') (
     check (\<not> c_MaxSessionsPerKey c < 1) (TooSmall ''ARCADE_MAX_SESSIONS_PER_KEY'') (
     check (\<not> f64_le_0 (c_RateLimitPerSecond c)) RateNotPositive (
     check (\<not> c_RateLimitBurst c < 1) (TooSmall ''ARCADE_RATE_LIMIT_BURST'') (
     Inr c)))))))))))))))"

definition Load :: "getenv \<Rightarrow> Config result" where
  "Load env =
     on_ok (allowGuestsVar env) (\<lambda>allowGuests.
     on_ok (envIntOr env ''ARCADE_MAX_GUEST_SESSIONS'' 32) (\<lambda>maxGuestSessions.
     on_ok (envIntOr env ''ARCADE_MAX_GUEST_SESSIONS_PER_IP'' 4) (\<lambda>maxGuestSessionsPerIP.
     on_ok (envIntOr env ''ARCADE_MAX_PENDING_AUTH'' 64) (\<lambda>maxPendingAuth.
     on_ok (envDurationOr env ''ARCADE_AUTH_TIMEOUT'' (60 * second)) (\<lambda>authTimeout.
     on_ok (envIntOr env ''ARCADE_LISTEN_PORT'' 22) (\<lambda>listenPort.
     on_ok (envDurationOr env ''ARCADE_LOBBY_IDLE_TIMEOUT'' (300 * second)) (\<lambda>lobbyIdleTimeout.
     on_ok (envDurationOr env ''ARCADE_PROBE_INTERVAL'' (15 * second)) (\<lambda>probeInterval.
     on_ok (envDurationOr env ''ARCADE_STATS_INTERVAL'' (5 * second)) (\<lambda>statsInterval.
     on_ok (envIntOr env ''ARCADE_MAX_CONNECTIONS'' 200) (\<lambda>maxConnections.
     on_ok (envIntOr env ''ARCADE_MAX_SESSIONS_PER_KEY'' 4) (\<lambda>maxSessionsPerKey.
     on_ok (envFloatOr env ''ARCADE_RATE_LIMIT_PER_SECOND'' (F64 2)) (\<lambda>rateLimitPerSecond.
     on_ok (envIntOr env ''ARCADE_RATE_LIMIT_BURST'' 5) (\<lambda>rateLimitBurst.
     on_ok (envIntOr env ''ARCADE_RATE_LIMIT_MAX_IPS'' 1000) (\<lambda>rateLimitMaxEntries.
       check_config
         \<lparr>c_AllowGuests = allowGuests, c_MaxGuestSessions = maxGuestSessions,
          c_MaxGuestSessionsPerIP = maxGuestSessionsPerIP, c_MaxPendingAuth = maxPendingAuth,
          c_AuthTimeout = authTimeout, c_ListenHost = envOr env ''ARCADE_LISTEN_HOST'' ''0.0.0.0'',
          c_ListenPort = listenPort, c_HostKeyPath = envOr env ''ARCADE_HOST_KEY_PATH'' ''var/ssh_host_key'',
          c_ProxyKeyPath = envOr env ''ARCADE_PROXY_KEY_PATH'' ''var/proxy_key'',
          c_GamesPath = envOr env ''ARCADE_GAMES_PATH'' ''games.dev.toml'',
          c_BannerPath = envOr env ''ARCADE_BANNER_PATH'' ''banner.toml'',
          c_DBPath = envOr env ''ARCADE_DB_PATH'' ''var/arcade.db'', c_StatsPath = env ''ARCADE_STATS_PATH'',
          c_StatsInterval = statsInterval, c_LobbyIdleTimeout = lobbyIdleTimeout, c_ProbeInterval = probeInterval,
          c_MaxConnections = maxConnections, c_MaxSessionsPerKey = maxSessionsPerKey,
          c_RateLimitPerSecond = rateLimitPerSecond, c_RateLimitBurst = rateLimitBurst,
          c_RateLimitMaxEntries = rateLimitMaxEntries, c_LogLevel = envOr env ''ARCADE_LOG_LEVEL'' ''info'',
          c_LogFormat = envOr env ''ARCADE_LOG_FORMAT'' ''text''\<rparr>))))))))))))))"

definition ListenAddr :: "Config \<Rightarrow> string" where
  "ListenAddr c = c_ListenHost c @ CHR '':'' # json_int (c_ListenPort c)"

section \<open>What is accepted\<close>

text \<open>The rules the settings have to satisfy.\<close>

definition config_ok :: "Config \<Rightarrow> bool" where
  "config_ok c \<longleftrightarrow>
     0 < c_MaxGuestSessions c \<and> 0 < c_MaxGuestSessionsPerIP c \<and> 0 < c_MaxPendingAuth c \<and> 0 < c_AuthTimeout c
     \<and> (c_AllowGuests c \<longrightarrow> c_MaxGuestSessions c < c_MaxConnections c)
     \<and> 1 \<le> c_ListenPort c \<and> c_ListenPort c \<le> 65535
     \<and> [] \<notin> set [c_HostKeyPath c, c_ProxyKeyPath c, c_GamesPath c, c_BannerPath c, c_DBPath c]
     \<and> 0 \<le> c_LobbyIdleTimeout c \<and> second \<le> c_ProbeInterval c \<and> second \<le> c_StatsInterval c
     \<and> 1 \<le> c_MaxConnections c \<and> 1 \<le> c_MaxSessionsPerKey c \<and> 1 \<le> c_RateLimitBurst c
     \<and> \<not> f64_le_0 (c_RateLimitPerSecond c)"

lemma check_Inr: "check ok e k = Inr c \<longleftrightarrow> ok \<and> k = Inr c"
  by (simp add: check_def)

lemma check_config_Inr: "check_config c = Inr c' \<longleftrightarrow> c' = c \<and> config_ok c"
  unfolding check_config_def check_Inr config_ok_def by auto

text \<open>The environment as the settings it stands for, and whether every variable can be read.\<close>

definition intVars :: "string list" where
  "intVars =
     [''ARCADE_MAX_GUEST_SESSIONS'', ''ARCADE_MAX_GUEST_SESSIONS_PER_IP'', ''ARCADE_MAX_PENDING_AUTH'',
      ''ARCADE_LISTEN_PORT'', ''ARCADE_MAX_CONNECTIONS'', ''ARCADE_MAX_SESSIONS_PER_KEY'',
      ''ARCADE_RATE_LIMIT_BURST'', ''ARCADE_RATE_LIMIT_MAX_IPS'']"

definition durationVars :: "string list" where
  "durationVars =
     [''ARCADE_AUTH_TIMEOUT'', ''ARCADE_LOBBY_IDLE_TIMEOUT'', ''ARCADE_PROBE_INTERVAL'', ''ARCADE_STATS_INTERVAL'']"

definition reads :: "(string \<Rightarrow> 'a option) \<Rightarrow> getenv \<Rightarrow> string \<Rightarrow> bool" where
  "reads parse env key \<longleftrightarrow> env key = [] \<or> parse (env key) \<noteq> None"

definition readable :: "getenv \<Rightarrow> bool" where
  "readable env \<longleftrightarrow>
     reads ParseBool env ''ARCADE_ALLOW_GUESTS'' \<and> list_all (reads Atoi env) intVars
     \<and> list_all (reads ParseDuration env) durationVars \<and> reads ParseFloat env ''ARCADE_RATE_LIMIT_PER_SECOND''"

definition var :: "(string \<Rightarrow> 'a option) \<Rightarrow> getenv \<Rightarrow> string \<Rightarrow> 'a \<Rightarrow> 'a" where
  "var parse env key d = (if env key = [] then d else case parse (env key) of None \<Rightarrow> d | Some v \<Rightarrow> v)"

definition settings :: "getenv \<Rightarrow> Config" where
  "settings env =
     \<lparr>c_AllowGuests = var ParseBool env ''ARCADE_ALLOW_GUESTS'' False,
      c_MaxGuestSessions = var Atoi env ''ARCADE_MAX_GUEST_SESSIONS'' 32,
      c_MaxGuestSessionsPerIP = var Atoi env ''ARCADE_MAX_GUEST_SESSIONS_PER_IP'' 4,
      c_MaxPendingAuth = var Atoi env ''ARCADE_MAX_PENDING_AUTH'' 64,
      c_AuthTimeout = var ParseDuration env ''ARCADE_AUTH_TIMEOUT'' 60000000000,
      c_ListenHost = var Some env ''ARCADE_LISTEN_HOST'' ''0.0.0.0'',
      c_ListenPort = var Atoi env ''ARCADE_LISTEN_PORT'' 22,
      c_HostKeyPath = var Some env ''ARCADE_HOST_KEY_PATH'' ''var/ssh_host_key'',
      c_ProxyKeyPath = var Some env ''ARCADE_PROXY_KEY_PATH'' ''var/proxy_key'',
      c_GamesPath = var Some env ''ARCADE_GAMES_PATH'' ''games.dev.toml'',
      c_BannerPath = var Some env ''ARCADE_BANNER_PATH'' ''banner.toml'',
      c_DBPath = var Some env ''ARCADE_DB_PATH'' ''var/arcade.db'',
      c_StatsPath = env ''ARCADE_STATS_PATH'',
      c_StatsInterval = var ParseDuration env ''ARCADE_STATS_INTERVAL'' 5000000000,
      c_LobbyIdleTimeout = var ParseDuration env ''ARCADE_LOBBY_IDLE_TIMEOUT'' 300000000000,
      c_ProbeInterval = var ParseDuration env ''ARCADE_PROBE_INTERVAL'' 15000000000,
      c_MaxConnections = var Atoi env ''ARCADE_MAX_CONNECTIONS'' 200,
      c_MaxSessionsPerKey = var Atoi env ''ARCADE_MAX_SESSIONS_PER_KEY'' 4,
      c_RateLimitPerSecond = var ParseFloat env ''ARCADE_RATE_LIMIT_PER_SECOND'' (F64 2),
      c_RateLimitBurst = var Atoi env ''ARCADE_RATE_LIMIT_BURST'' 5,
      c_RateLimitMaxEntries = var Atoi env ''ARCADE_RATE_LIMIT_MAX_IPS'' 1000,
      c_LogLevel = var Some env ''ARCADE_LOG_LEVEL'' ''info'',
      c_LogFormat = var Some env ''ARCADE_LOG_FORMAT'' ''text''\<rparr>"

lemma envOr_var: "envOr env key d = var Some env key d"
  by (simp add: envOr_def var_def)

lemma on_env_Inr:
  "on_ok (envIntOr env key d) k = Inr c \<longleftrightarrow> reads Atoi env key \<and> k (var Atoi env key d) = Inr c"
  "on_ok (envDurationOr env key d) k = Inr c \<longleftrightarrow> reads ParseDuration env key \<and> k (var ParseDuration env key d) = Inr c"
  "on_ok (envFloatOr env key f) l = Inr c \<longleftrightarrow> reads ParseFloat env key \<and> l (var ParseFloat env key f) = Inr c"
  "on_ok (allowGuestsVar env) b = Inr c \<longleftrightarrow>
     reads ParseBool env ''ARCADE_ALLOW_GUESTS'' \<and> b (var ParseBool env ''ARCADE_ALLOW_GUESTS'' False) = Inr c"
  by (auto simp: envIntOr_def envDurationOr_def envFloatOr_def allowGuestsVar_def var_def reads_def split: option.splits)

lemma seconds: "60 * second = 60000000000" "300 * second = 300000000000" "15 * second = 15000000000" "5 * second = 5000000000"
  by (simp_all add: second_def)

lemma Load_check: "Load env = Inr c \<longleftrightarrow> readable env \<and> check_config (settings env) = Inr c"
  unfolding Load_def on_env_Inr envOr_var seconds readable_def intVars_def durationVars_def settings_def
    list.pred_inject conj_assoc
  by (rule iffI; elim conjE; intro conjI list.pred_inject(1); assumption)

lemma Load_Inr: "Load env = Inr c \<longleftrightarrow> readable env \<and> config_ok (settings env) \<and> c = settings env"
  by (auto simp: Load_check check_config_Inr)

lemma Load_settings: "readable env \<Longrightarrow> config_ok (settings env) \<Longrightarrow> Load env = Inr (settings env)"
  by (simp add: Load_Inr)

lemma Load_config_ok: "Load env = Inr c \<Longrightarrow> config_ok c"
  by (auto simp: Load_Inr)

section \<open>Properties\<close>

text \<open>
  (C23) Exactly which environments are accepted: \<open>Load\<close> succeeds if and only if every variable that is
  set can be read and the resulting settings satisfy every rule, and then it returns exactly these
  settings, a variable that is not set standing for its default.
\<close>

theorem Load_exact: "Load env = Inr c \<longleftrightarrow> readable env \<and> config_ok (settings env) \<and> c = settings env"
  by (rule Load_Inr)

definition default_env :: getenv where
  "default_env = (\<lambda>_. [])"

lemma default_reads:
  "reads parse default_env key"
  "reads parse (env(k := v)) key \<longleftrightarrow> (if key = k then v = [] \<or> parse v \<noteq> None else reads parse env key)"
  by (auto simp: reads_def default_env_def)

lemmas default_readable = readable_def intVars_def durationVars_def default_reads

text \<open>
  A port reads back: with any port from 1 to 65535 in the environment and nothing else set, the
  router comes up with that port and the documented defaults, and the address it listens on splits
  into the wildcard host and that very port.
\<close>

theorem Load_port:
  assumes "1 \<le> p" "p \<le> 65535"
  shows "\<exists>c. Load (default_env(''ARCADE_LISTEN_PORT'' := dec_string p)) = Inr c \<and> c_ListenPort c = int p
    \<and> SplitHostPort (ListenAddr c) = Inr (''0.0.0.0'', dec_string p)
    \<and> c_MaxConnections c = 200 \<and> c_MaxGuestSessions c = 32 \<and> c_MaxSessionsPerKey c = 4 \<and> \<not> c_AllowGuests c"
proof -
  let ?env = "default_env(''ARCADE_LISTEN_PORT'' := dec_string p)" and ?c = "settings (default_env(''ARCADE_LISTEN_PORT'' := dec_string p))"
  have a: "Atoi (dec_string p) = Some (int p)" using assms by (intro Atoi_dec_string) simp
  have "readable ?env" using a by (simp add: default_readable)
  moreover have s: "c_ListenPort ?c = int p" "c_ListenHost ?c = ''0.0.0.0''" "c_MaxConnections ?c = 200"
    "c_MaxGuestSessions ?c = 32" "c_MaxSessionsPerKey ?c = 4" "\<not> c_AllowGuests ?c"
    using a dec_string_nonempty [of p] by (simp_all add: settings_def var_def default_env_def)
  moreover have "config_ok ?c"
    using assms s by (simp add: config_ok_def) (simp add: settings_def var_def default_env_def second_def)
  moreover have "SplitHostPort (ListenAddr ?c) = Inr (''0.0.0.0'', dec_string p)"
  proof -
    have "CHR '':'' \<notin> set (dec_string p)" "CHR ''['' \<notin> set (dec_string p)" "CHR '']'' \<notin> set (dec_string p)"
      using dec_string_digits [of p] by (auto simp: list_all_iff is_digit_def dest!: bspec)
    then show ?thesis
      using SplitHostPort_plain [of "''0.0.0.0''" "dec_string p"] s(1,2) by (simp add: ListenAddr_def json_int_def plain_def)
  qed
  ultimately show ?thesis using Load_settings by blast
qed

theorem Load_port_witness:
  "\<exists>c. Load (default_env(''ARCADE_LISTEN_PORT'' := dec_string 2222)) = Inr c \<and> c_ListenPort c = 2222"
  using Load_port [of 2222] by auto

text \<open>
  (C30) Guests cannot fill the router. Whatever accepted environment the session budgets are built
  from, in every state they can reach a keyed player is refused only when its own key already holds
  its full allowance, or when at least as many keyed sessions are live as the two caps leave
  between them, which is at least one if guests are allowed at all.
\<close>

theorem configured_keyed_capacity:
  assumes "Load env = Inr c" and "c_AllowGuests c"
    and "limits_step\<^sup>*\<^sup>* (NewSessionLimits (c_MaxConnections c) (c_MaxSessionsPerKey c) (c_MaxGuestSessions c)
           (c_MaxGuestSessionsPerIP c), {#}) (l, A)"
    and "Validate i = None" "id_Kind i = Keyed" and "\<not> fst (acquire l i ip)"
  shows "c_MaxSessionsPerKey c \<le> int (count (live A) (SKey (id_Fingerprint i)))
    \<or> (1 \<le> c_MaxConnections c - c_MaxGuestSessions c
       \<and> c_MaxConnections c - c_MaxGuestSessions c \<le> int (size (filter_mset (\<lambda>x. \<not> is_guest x) (live A))))"
proof -
  have "0 < c_MaxGuestSessions c" "c_MaxGuestSessions c < c_MaxConnections c"
    using Load_config_ok [OF assms(1)] assms(2) by (auto simp: config_ok_def)
  then show ?thesis using keyed_refused [OF assms(3-5) _ _ assms(6)] by auto
qed

definition example_setup :: getenv where
  "example_setup = default_env(''ARCADE_ALLOW_GUESTS'' := ''true'', ''ARCADE_MAX_SESSIONS_PER_KEY'' := ''1'')"

lemma example_setup_loads:
  "\<exists>c. Load example_setup = Inr c \<and> c_AllowGuests c \<and> c_MaxSessionsPerKey c = 1 \<and> c_MaxConnections c = 200
     \<and> c_MaxGuestSessions c = 32 \<and> c_MaxGuestSessionsPerIP c = 4"
proof -
  have p: "ParseBool ''true'' = Some True" "Atoi ''1'' = Some 1" by code_simp+
  have "readable example_setup" using p by (simp add: example_setup_def default_readable)
  moreover have "config_ok (settings example_setup)"
    using p by (simp add: config_ok_def example_setup_def settings_def var_def default_env_def second_def)
  moreover have "c_AllowGuests (settings example_setup)" "c_MaxSessionsPerKey (settings example_setup) = 1"
    "c_MaxConnections (settings example_setup) = 200" "c_MaxGuestSessions (settings example_setup) = 32"
    "c_MaxGuestSessionsPerIP (settings example_setup) = 4"
    using p by (simp_all add: example_setup_def settings_def var_def default_env_def)
  ultimately show ?thesis using Load_settings by blast
qed

theorem configured_keyed_capacity_witness:
  "\<exists>c l A. Load example_setup = Inr c
     \<and> \<not> fst (acquire l (NewKeyed (Some \<lparr>key_Type = ''ssh-ed25519'', key_Marshal = ''k''\<rparr>) ''scout'') ''ip'')
     \<and> (c_MaxSessionsPerKey c \<le> int (count (live A) (SKey (id_Fingerprint (NewKeyed (Some \<lparr>key_Type = ''ssh-ed25519'', key_Marshal = ''k''\<rparr>) ''scout''))))
       \<or> 1 \<le> c_MaxConnections c - c_MaxGuestSessions c)"
proof -
  define i where "i = NewKeyed (Some \<lparr>key_Type = ''ssh-ed25519'', key_Marshal = ''k''\<rparr>) ''scout''"
  obtain c where c: "Load example_setup = Inr c" "c_AllowGuests c" "c_MaxSessionsPerKey c = 1" "c_MaxConnections c = 200"
    using example_setup_loads by blast
  let ?l = "NewSessionLimits (c_MaxConnections c) (c_MaxSessionsPerKey c) (c_MaxGuestSessions c) (c_MaxGuestSessionsPerIP c)"
  define l where "l = snd (acquire ?l i ''ip'')"
  have v: "Validate i = None" unfolding i_def by (rule Validate_NewKeyed)
  have k: "id_Kind i = Keyed" by (simp add: i_def NewKeyed_def Let_def)
  have acq: "acquire ?l i ''ip'' = (True, l)" using v k c by (simp add: l_def acquire_def NewSessionLimits_def getd_def)
  then have st: "limits_step\<^sup>*\<^sup>* (?l, {#}) (l, {#(i, ''ip'')#})" using limits_step.admit [of ?l i "''ip''" l "{#}"] by auto
  have r: "\<not> fst (acquire l i ''ip'')"
    using v k c by (simp add: l_def acquire_def NewSessionLimits_def getd_def incr_def)
  from configured_keyed_capacity [OF c(1,2) st v k r] r c(1) show ?thesis unfolding i_def by blast
qed

text \<open>A rate that is not a number passes the check that it be positive.\<close>

lemma Load_accepts_NaN:
  "\<exists>c. Load (default_env(''ARCADE_RATE_LIMIT_PER_SECOND'' := ''NaN'')) = Inr c \<and> c_RateLimitPerSecond c = F64_NaN"
proof -
  let ?env = "default_env(''ARCADE_RATE_LIMIT_PER_SECOND'' := ''NaN'')"
  have p: "ParseFloat ''NaN'' = Some F64_NaN" by code_simp
  have "readable ?env" using p by (simp add: default_readable)
  moreover have "c_RateLimitPerSecond (settings ?env) = F64_NaN" using p by (simp add: settings_def var_def)
  moreover from this have "config_ok (settings ?env)"
    by (simp add: config_ok_def) (simp add: settings_def var_def default_env_def second_def)
  ultimately show ?thesis using Load_settings by blast
qed

text \<open>A bare IPv6 host is not an address that can be listened on.\<close>

lemma ListenAddr_ipv6:
  "c_ListenHost c = ''::'' \<Longrightarrow> c_ListenPort c = 22 \<Longrightarrow> \<exists>e. SplitHostPort (ListenAddr c) = Inl e"
proof -
  assume "c_ListenHost c = ''::''" "c_ListenPort c = 22"
  moreover have "json_int 22 = ''22''" by code_simp
  moreover have "isl (SplitHostPort '':::22'')" by code_simp
  ultimately show ?thesis by (auto simp: ListenAddr_def isl_def)
qed

end
