(* ===== verification/Startup.thy ===== *)
theory Startup
  imports Server Config
begin

text \<open>
  How the router comes up: the key directories and the proxy key of
  \<^verbatim>\<open>internal/server/server.go\<close>, the state \<^verbatim>\<open>server.New\<close> builds from the configuration, the logger of
  \<^verbatim>\<open>internal/log/log.go\<close>. Files are a map from paths to contents and modes; the key formats of the SSH
  library are arguments, and so is whether its server can be made.

  Shown: a proxy key that exists is never replaced, one that was created is found again; and a
  configured router takes its first connection.
\<close>

section \<open>Paths\<close>

fun split_slash :: "string \<Rightarrow> string list" where
  "split_slash [] = [[]]"
| "split_slash (c # cs) =
     (if c = CHR ''/'' then [] # split_slash cs
      else case split_slash cs of p # ps \<Rightarrow> (c # p) # ps | [] \<Rightarrow> [[c]])"

text \<open>\<^verbatim>\<open>filepath.Clean\<close> and \<^verbatim>\<open>filepath.Dir\<close> on Unix; \<open>acc\<close> holds the elements kept so far, last first.\<close>

fun clean_parts :: "bool \<Rightarrow> string list \<Rightarrow> string list \<Rightarrow> string list" where
  "clean_parts rooted acc [] = rev acc"
| "clean_parts rooted acc (p # ps) =
     (if p = [] \<or> p = ''.'' then clean_parts rooted acc ps
      else if p = ''..'' then
        (case acc of
           [] \<Rightarrow> if rooted then clean_parts rooted [] ps else clean_parts rooted [''..''] ps
         | q # qs \<Rightarrow> if q = ''..'' then clean_parts rooted (''..'' # acc) ps else clean_parts rooted qs ps)
      else clean_parts rooted (p # acc) ps)"

definition Clean :: "string \<Rightarrow> string" where
  "Clean path =
     (case path of
        [] \<Rightarrow> ''.''
      | c # _ \<Rightarrow>
          (let rooted = (c = CHR ''/''); out = clean_parts rooted [] (split_slash path)
           in if rooted then CHR ''/'' # join ''/'' out else if out = [] then ''.'' else join ''/'' out))"

definition Dir :: "string \<Rightarrow> string" where
  "Dir path = Clean (rev (dropWhile (\<lambda>c. c \<noteq> CHR ''/'') (rev path)))"

section \<open>Keys\<close>

text \<open>\<open>mkdir\<close> is \<^verbatim>\<open>os.MkdirAll\<close> with mode 0700; it yields the new state, or \<open>None\<close> for an error.\<close>

definition ensureKeyDir :: "(string \<Rightarrow> 's \<Rightarrow> 's option) \<Rightarrow> string \<Rightarrow> 's \<Rightarrow> 's option" where
  "ensureKeyDir mkdir path s =
     (let dir = Dir path in if dir = ''.'' \<or> dir = [] then Some s else mkdir dir s)"

text \<open>The functions of the SSH library on keys of type \<open>'k\<close> and signers of type \<open>'s\<close>; \<open>None\<close> is an error.\<close>

record ('k, 's) keylib =
  kl_ParsePrivateKey :: "string \<Rightarrow> 's option"
  kl_MarshalPrivateKey :: "'k \<Rightarrow> string option"
  kl_NewPublicKey :: "'k \<Rightarrow> string option"
  kl_NewSignerFromKey :: "'k \<Rightarrow> 's option"

text \<open>What the operating system answers: reading fails, the key generated, and how far each write gets.\<close>

record 'k key_os =
  ko_readError :: bool
  ko_generated :: "'k option"
  ko_write :: "nat option"
  ko_writePub :: "nat option"

datatype key_error =
  ParseProxyKey | ReadProxyKey | GenerateProxyKey | MarshalProxyKey | WriteProxyKey | ProxyPublicKey | WriteProxyPublicKey | ProxySigner

type_synonym files = "string \<rightharpoonup> string \<times> nat"

text \<open>\<^verbatim>\<open>os.WriteFile\<close>: the whole content, or some of it and an error; an existing file keeps its mode.\<close>

definition WriteFile :: "nat option \<Rightarrow> string \<Rightarrow> string \<Rightarrow> nat \<Rightarrow> files \<Rightarrow> bool \<times> files" where
  "WriteFile fault path data mode fs =
     (let mode' = (case fs path of Some (_, md) \<Rightarrow> md | None \<Rightarrow> mode) in
      case fault of None \<Rightarrow> (True, fs(path \<mapsto> (data, mode'))) | Some n \<Rightarrow> (False, fs(path \<mapsto> (take n data, mode'))))"

definition loadOrCreateProxyKey ::
    "('k, 's) keylib \<Rightarrow> 'k key_os \<Rightarrow> string \<Rightarrow> files \<Rightarrow> (key_error + 's) \<times> files" where
  "loadOrCreateProxyKey lib os path fs =
     (if ko_readError os then (Inl ReadProxyKey, fs)
      else
        (case fs path of
           Some (raw, _) \<Rightarrow>
             (case kl_ParsePrivateKey lib raw of None \<Rightarrow> (Inl ParseProxyKey, fs) | Some s \<Rightarrow> (Inr s, fs))
         | None \<Rightarrow>
             (case ko_generated os of
                None \<Rightarrow> (Inl GenerateProxyKey, fs)
              | Some priv \<Rightarrow>
                  (case kl_MarshalPrivateKey lib priv of
                     None \<Rightarrow> (Inl MarshalProxyKey, fs)
                   | Some pem \<Rightarrow>
                       (let (ok, fs1) = WriteFile (ko_write os) path pem mode_0600 fs in
                        if \<not> ok then (Inl WriteProxyKey, fs1)
                        else
                          (case kl_NewPublicKey lib priv of
                             None \<Rightarrow> (Inl ProxyPublicKey, fs1)
                           | Some pub \<Rightarrow>
                               (let (ok2, fs2) = WriteFile (ko_writePub os) (path @ ''.pub'') pub mode_0644 fs1 in
                                if \<not> ok2 then (Inl WriteProxyPublicKey, fs2)
                                else
                                  (case kl_NewSignerFromKey lib priv of
                                     None \<Rightarrow> (Inl ProxySigner, fs2)
                                   | Some s \<Rightarrow> (Inr s, fs2)))))))))"

section \<open>The server\<close>

text \<open>
  What \<^verbatim>\<open>New\<close> sets up: budgets, guard, tracker and key. \<open>created\<close> is whether the SSH library could make its
  server from the options, the host key among them.
\<close>

record 's server_state =
  sv_limits :: SessionLimits
  sv_guard :: authGuard
  sv_presence :: Tracker
  sv_proxyKey :: 's

datatype new_error = KeyDirError | ProxyKeyError key_error | CreateServerError

definition NewServer ::
    "(string \<Rightarrow> files \<Rightarrow> files option) \<Rightarrow> ('k, 's) keylib \<Rightarrow> 'k key_os \<Rightarrow> bool \<Rightarrow> Config \<Rightarrow> files \<Rightarrow> (new_error + 's server_state) \<times> files" where
  "NewServer mkdir lib os created c fs =
     (case ensureKeyDir mkdir (c_HostKeyPath c) fs of
        None \<Rightarrow> (Inl KeyDirError, fs)
      | Some fs1 \<Rightarrow>
          (case ensureKeyDir mkdir (c_ProxyKeyPath c) fs1 of
             None \<Rightarrow> (Inl KeyDirError, fs1)
           | Some fs2 \<Rightarrow>
               (case loadOrCreateProxyKey lib os (c_ProxyKeyPath c) fs2 of
                  (Inl e, fs3) \<Rightarrow> (Inl (ProxyKeyError e), fs3)
                | (Inr key, fs3) \<Rightarrow>
                    (if \<not> created then Inl CreateServerError
                     else Inr \<lparr>sv_limits = NewSessionLimits (c_MaxConnections c) (c_MaxSessionsPerKey c) (c_MaxGuestSessions c)
                            (c_MaxGuestSessionsPerIP c),
                          sv_guard = server_guard (c_MaxPendingAuth c) (c_MaxConnections c) (c_AuthTimeout c)
                            (c_MaxGuestSessions c) (c_MaxGuestSessionsPerIP c),
                          sv_presence = NewTracker, sv_proxyKey = key\<rparr>, fs3))))"

section \<open>Logging\<close>

datatype log_level = LevelDebugL | LevelInfoL | LevelWarnL | LevelErrorL

datatype log_format = JSONFormat | TextFormat

definition log_New :: "string \<Rightarrow> string \<Rightarrow> log_level \<times> log_format" where
  "log_New level format =
     (let l = ToLower level in
      (if l = ''debug'' then LevelDebugL
       else if l = ''warn'' \<or> l = ''warning'' then LevelWarnL
       else if l = ''error'' then LevelErrorL
       else LevelInfoL,
       if ToLower format = ''json'' then JSONFormat else TextFormat))"

section \<open>Properties\<close>

lemma WriteFile_ok: "WriteFile fault path data mode fs = (True, fs') \<Longrightarrow> fs path = None \<Longrightarrow> fs' = fs(path \<mapsto> (data, mode))"
  by (auto simp: WriteFile_def Let_def split: option.splits)

lemma WriteFile_other: "WriteFile fault path data mode fs = (ok, fs') \<Longrightarrow> p \<noteq> path \<Longrightarrow> fs' p = fs p"
  by (auto simp: WriteFile_def Let_def split: option.splits)

lemma pub_path [simp]: "path @ ''.pub'' \<noteq> path" "path \<noteq> path @ ''.pub''"
  by simp_all

lemma loadOrCreate_created:
  assumes "loadOrCreateProxyKey lib os path fs = (Inr s, fs')" "fs path = None"
  shows "\<exists>k pem. ko_generated os = Some k \<and> kl_MarshalPrivateKey lib k = Some pem \<and> kl_NewSignerFromKey lib k = Some s
    \<and> fs' path = Some (pem, mode_0600)"
proof -
  obtain k pem where k: "ko_generated os = Some k" "kl_MarshalPrivateKey lib k = Some pem" "kl_NewSignerFromKey lib k = Some s"
    using assms by (auto simp: loadOrCreateProxyKey_def split_def Let_def split: option.splits if_splits)
  obtain ok fs1 where w: "WriteFile (ko_write os) path pem mode_0600 fs = (ok, fs1)" by force
  obtain pub where "ok" "kl_NewPublicKey lib k = Some pub" "fs' = snd (WriteFile (ko_writePub os) (path @ ''.pub'') pub mode_0644 fs1)"
    using assms k w by (auto simp: loadOrCreateProxyKey_def split_def Let_def split: option.splits if_splits)
  moreover from this have "fs' path = fs1 path" by (metis WriteFile_other pub_path(2) prod.collapse)
  moreover have "fs1 path = Some (pem, mode_0600)" if ok
    using WriteFile_ok [of "ko_write os" path pem mode_0600 fs fs1] w that assms(2) by simp
  ultimately show ?thesis using k by simp
qed

text \<open>
  (C32) The proxy key is stable. A key file that exists is never written, whatever its content; other
  files than the key and its public half never change. If starting succeeds, starting again finds
  the same key and writes nothing, provided the SSH library reads back the private keys it writes;
  and a key file that was created is readable by its owner only.
\<close>

theorem proxy_key_stable:
  fixes os :: "'k key_os"
  assumes "loadOrCreateProxyKey lib os path fs = (res, fs')"
    and roundtrip: "\<And>k pem. kl_MarshalPrivateKey lib k = Some pem \<Longrightarrow> kl_ParsePrivateKey lib pem = kl_NewSignerFromKey lib k"
  shows "(fs path \<noteq> None \<longrightarrow> fs' = fs) \<and> (\<forall>p. p \<noteq> path \<and> p \<noteq> path @ ''.pub'' \<longrightarrow> fs' p = fs p)
    \<and> (\<forall>s os'. res = Inr s \<and> \<not> ko_readError os' \<longrightarrow> loadOrCreateProxyKey lib os' path fs' = (Inr s, fs'))
    \<and> (fs path = None \<and> (\<exists>s. res = Inr s) \<longrightarrow> (\<exists>pem. fs' path = Some (pem, mode_0600)))"
proof (cases "fs path")
  case None
  have other: "fs' p = fs p" if "p \<noteq> path" "p \<noteq> path @ ''.pub''" for p
    using assms(1) None that WriteFile_other [of _ path _ _ fs _ _ p] WriteFile_other [of _ "path @ ''.pub''" _ _ _ _ _ p]
    by (auto simp: loadOrCreateProxyKey_def Let_def split: option.splits if_splits prod.splits)
  have again: "loadOrCreateProxyKey lib os' path fs' = (Inr s, fs') \<and> (\<exists>pem. fs' path = Some (pem, mode_0600))"
    if res: "res = Inr s" and os': "\<not> ko_readError os'" for s and os' :: "'k key_os"
  proof -
    obtain k pem where "kl_MarshalPrivateKey lib k = Some pem" "kl_NewSignerFromKey lib k = Some s" "fs' path = Some (pem, mode_0600)"
      using loadOrCreate_created [OF assms(1) [unfolded res] None] by blast
    with roundtrip os' show ?thesis by (simp add: loadOrCreateProxyKey_def)
  qed
  have "\<exists>os'. \<not> ko_readError (os' :: 'k key_os)" by (rule exI [of _ "os\<lparr>ko_readError := False\<rparr>"]) simp
  then show ?thesis using None other again by blast
next
  case (Some f)
  obtain raw md where f: "fs path = Some (raw, md)" using Some by (cases f) simp
  have "fs' = fs" "\<And>s. res = Inr s \<Longrightarrow> kl_ParsePrivateKey lib raw = Some s"
    using assms(1) f by (auto simp: loadOrCreateProxyKey_def split: option.splits if_splits)
  then show ?thesis using f by (auto simp: loadOrCreateProxyKey_def)
qed

theorem proxy_key_stable_witness:
  "let lib = \<lparr>kl_ParsePrivateKey = Some, kl_MarshalPrivateKey = Some, kl_NewPublicKey = Some, kl_NewSignerFromKey = Some\<rparr>;
       os = \<lparr>ko_readError = False, ko_generated = Some ''key'', ko_write = None, ko_writePub = None\<rparr>;
       fs = snd (loadOrCreateProxyKey lib os ''k'' Map.empty)
   in loadOrCreateProxyKey lib os ''k'' fs = (Inr ''key'', fs)"
proof -
  let ?lib = "\<lparr>kl_ParsePrivateKey = Some, kl_MarshalPrivateKey = Some, kl_NewPublicKey = Some, kl_NewSignerFromKey = Some\<rparr>"
  let ?os = "\<lparr>ko_readError = False, ko_generated = Some ''key'', ko_write = None, ko_writePub = None\<rparr>"
  obtain fs where fs: "loadOrCreateProxyKey ?lib ?os ''k'' Map.empty = (Inr ''key'', fs)"
    by (simp add: loadOrCreateProxyKey_def WriteFile_def Let_def)
  have "kl_ParsePrivateKey ?lib pem = kl_NewSignerFromKey ?lib k" if "kl_MarshalPrivateKey ?lib k = Some pem" for k pem
    using that by simp
  from proxy_key_stable [OF fs this] fs show ?thesis by (simp add: Let_def)
qed

text \<open>
  A configured router serves. Whatever accepted environment and proxy key it starts from, it
  takes the first connection, and gives the first player with a valid identity a seat: a guest too,
  if guests are allowed.
\<close>

theorem configured_router_serves:
  assumes "Load env = Inr c" and "NewServer mkdir lib os created c fs = (Inr sv, fs')" and "Validate i = None"
    and "id_Kind i = Keyed \<or> c_AllowGuests c"
  shows "fst (wrap (sv_guard sv) remote now) \<noteq> None \<and> fst (acquire (sv_limits sv) i ip)
    \<and> guard_inv (sv_guard sv) \<and> Counts (sv_presence sv) = Counts NewTracker"
proof -
  have ok: "config_ok c" by (rule Load_config_ok [OF assms(1)])
  have sv: "sv_limits sv = NewSessionLimits (c_MaxConnections c) (c_MaxSessionsPerKey c) (c_MaxGuestSessions c) (c_MaxGuestSessionsPerIP c)"
    "sv_guard sv = server_guard (c_MaxPendingAuth c) (c_MaxConnections c) (c_AuthTimeout c) (c_MaxGuestSessions c) (c_MaxGuestSessionsPerIP c)"
    "sv_presence sv = NewTracker"
    using assms(2) by (auto simp: NewServer_def split: option.splits sum.splits prod.splits if_splits)
  have "fst (wrap (sv_guard sv) remote now) \<noteq> None"
    using ok by (auto simp: sv wrap_def server_guard_def newAuthGuard_def config_ok_def Let_def)
  moreover have "fst (acquire (sv_limits sv) i ip)"
    using ok assms(3,4) by (auto simp: sv acquire_def NewSessionLimits_def config_ok_def getd_def)
  moreover have "guard_inv (sv_guard sv)" unfolding sv by (intro guard_init_inv guard_init.intros)
  ultimately show ?thesis by (simp add: sv)
qed

lemma ensureKeyDir_plain: "ensureKeyDir (\<lambda>_. Some) path fs = Some fs"
  by (simp add: ensureKeyDir_def Let_def)

theorem configured_router_serves_witness:
  "\<exists>c sv fs. Load example_setup = Inr c
     \<and> NewServer (\<lambda>_. Some) \<lparr>kl_ParsePrivateKey = Some, kl_MarshalPrivateKey = Some, kl_NewPublicKey = Some, kl_NewSignerFromKey = Some\<rparr>
         \<lparr>ko_readError = False, ko_generated = Some ''key'', ko_write = None, ko_writePub = None\<rparr> True c Map.empty = (Inr sv, fs)
     \<and> fst (wrap (sv_guard sv) ''10.0.0.1:5000'' 0) \<noteq> None \<and> fst (acquire (sv_limits sv) (NewGuest (replicate 16 (CHR ''x''))) ''10.0.0.1'')"
proof -
  let ?lib = "\<lparr>kl_ParsePrivateKey = Some, kl_MarshalPrivateKey = Some, kl_NewPublicKey = Some, kl_NewSignerFromKey = Some\<rparr>"
  let ?os = "\<lparr>ko_readError = False, ko_generated = Some ''key'', ko_write = None, ko_writePub = None\<rparr>"
  obtain c where c: "Load example_setup = Inr c" "c_AllowGuests c" using example_setup_loads by blast
  obtain sv fs where sv: "NewServer (\<lambda>_. Some) ?lib ?os True c Map.empty = (Inr sv, fs)"
    by (simp add: NewServer_def ensureKeyDir_plain loadOrCreateProxyKey_def WriteFile_def Let_def)
  have "Validate (NewGuest (replicate 16 (CHR ''x''))) = None" by (rule Validate_NewGuest) simp
  from configured_router_serves [OF c(1) sv this, of "''10.0.0.1:5000''" 0 "''10.0.0.1''"] c sv show ?thesis by blast
qed

end
