(* ===== verification/Main_Program.thy ===== *)
theory Main_Program
  imports Startup Prober Banner Store Presence "HOL-Library.Monad_Syntax"
begin

text \<open>
  \<^verbatim>\<open>main\<close> of \<^verbatim>\<open>cmd/ssh-arcadelobby/main.go\<close>, composed from the constructors the other theories model:
  configuration, registry, banner, store, server and publisher come up in the order of the code,
  each error ends the process (\<open>boot\<close>), and from the first signal on the parts go down again (\<open>halt\<close>).
  What happens in between is the subject of \<open>Service\<close>.

  Shown: what a router that serves looks like, and that starting and stopping never panic.
\<close>

section \<open>The router\<close>

text \<open>The parts \<^verbatim>\<open>main\<close> holds once it serves; the store is its database and \<open>ro_stats\<close> the publisher, if any.\<close>

record 's router =
  ro_config :: Config
  ro_log :: "log_level \<times> log_format"
  ro_registry :: Registry
  ro_banner :: BannerSource
  ro_store :: tables
  ro_server :: "'s server_state"
  ro_stats :: "Publisher option"

datatype shutdown_result = ShutdownOk | ShutdownClosed | ShutdownError

text \<open>
  What \<^verbatim>\<open>main\<close> meets: the environment and the clock, the file system and the decoders of the libraries,
  the database, the SSH library; the registered hooks, the order in which a map of pending
  connections is iterated, and the outcome of the SSH server's own shutdown.
\<close>

record ('k, 's) world =
  w_env :: getenv
  w_now :: int
  w_stat :: "string \<Rightarrow> stat_result"
  w_read :: "string \<Rightarrow> string option"
  w_gamesToml :: "string \<Rightarrow> fileGame list option"
  w_hostKey :: "string \<Rightarrow> PublicKey option"
  w_bannerToml :: "string \<Rightarrow> bannerRoot option"
  w_dbDir :: bool
  w_dbOpened :: bool
  w_journal :: "string option"
  w_dbReadFault :: bool
  w_dbFault :: "nat \<Rightarrow> bool"
  w_tables :: tables
  w_mkdir :: "string \<Rightarrow> files \<Rightarrow> files option"
  w_keylib :: "('k, 's) keylib"
  w_keyOs :: "'k key_os"
  w_files :: files
  w_created :: bool
  w_statsDir :: bool
  w_hooks :: "('s router \<Rightarrow> 's router \<times> bool) list"
  w_order :: "nat set \<Rightarrow> nat list"
  w_shutdown :: shutdown_result

datatype part = RegistryPart | BannerPart | StorePart | StatsPart | ServerPart

datatype main_event = PartStarted part | PartClosed part | StopRequested | HooksRun

datatype main_error =
    ConfigFailed config_error
  | RegistryFailed load_error
  | StoreFailed store_error
  | ServerFailed new_error
  | StatsFailed publisher_error

text \<open>The options \<^verbatim>\<open>main\<close> passes on; those it leaves out are zero, which stands for the default.\<close>

definition main_options :: "Config \<Rightarrow> Options" where
  "main_options c = \<lparr>o_ProbeInterval = c_ProbeInterval c, o_DialTimeout = 0, o_FailThreshold = 0\<rparr>"

definition stat_mtime :: "stat_result \<Rightarrow> int option" where
  "stat_mtime st = (case st of Modified t \<Rightarrow> Some t | _ \<Rightarrow> None)"

definition main_registry :: "('k, 's) world \<Rightarrow> Config \<Rightarrow> load_error + Registry" where
  "main_registry w c =
     NewRegistry (main_options c) (w_now w)
       (loadFile (w_gamesToml w) (w_hostKey w) (stat_mtime (w_stat w (c_GamesPath c))) (w_read w (c_GamesPath c)))"

definition main_banner :: "('k, 's) world \<Rightarrow> Config \<Rightarrow> BannerSource" where
  "main_banner w c =
     NewBanner (c_ProbeInterval c) (loadFile_banner (w_bannerToml w) (w_stat w (c_BannerPath c)) (w_read w (c_BannerPath c)))"

text \<open>The publisher is made only if a path is configured.\<close>

definition main_stats :: "('k, 's) world \<Rightarrow> Config \<Rightarrow> publisher_error + Publisher option" where
  "main_stats w c =
     (if c_StatsPath c = [] then Inr None
      else map_sum id Some (NewPublisher \<lparr>po_Path = c_StatsPath c, po_Interval = c_StatsInterval c\<rparr> (w_statsDir w)))"

section \<open>\<^verbatim>\<open>main\<close>\<close>

text \<open>
  Up to the start of the listener: what was started, and the router or the error \<^verbatim>\<open>main\<close> exits with.
  The banner never fails to start. \<open>None\<close> is a panic, which only a database with a negative schema
  version causes.
\<close>

definition boot :: "('k, 's) world \<Rightarrow> (main_event list \<times> (main_error + 's router)) option" where
  "boot w =
     (case Load (w_env w) of
        Inl e \<Rightarrow> Some ([], Inl (ConfigFailed e))
      | Inr c \<Rightarrow>
     (case main_registry w c of
        Inl e \<Rightarrow> Some ([], Inl (RegistryFailed e))
      | Inr reg \<Rightarrow>
          (let es = [PartStarted RegistryPart, PartStarted BannerPart] in
     (case Open (w_dbDir w) (w_dbOpened w) (w_journal w) (w_dbReadFault w) (w_dbFault w) (w_tables w) of
        None \<Rightarrow> None
      | Some (Inl e) \<Rightarrow> Some (es, Inl (StoreFailed e))
      | Some (Inr st) \<Rightarrow>
          (let es = es @ [PartStarted StorePart] in
     (case fst (NewServer (w_mkdir w) (w_keylib w) (w_keyOs w) (w_created w) c (w_files w)) of
        Inl e \<Rightarrow> Some (es, Inl (ServerFailed e))
      | Inr sv \<Rightarrow>
     (case main_stats w c of
        Inl e \<Rightarrow> Some (es, Inl (StatsFailed e))
      | Inr stats \<Rightarrow>
          Some (es @ (if stats = None then [] else [PartStarted StatsPart]) @ [PartStarted ServerPart],
            Inr \<lparr>ro_config = c, ro_log = log_New (c_LogLevel c) (c_LogFormat c), ro_registry = Start reg,
                 ro_banner = Start_banner (main_banner w c), ro_store = st, ro_server = sv, ro_stats = stats\<rparr>))))))))"

text \<open>\<^verbatim>\<open>Server.Shutdown\<close> up to the shutdown of the SSH server.\<close>

definition Server_Shutdown :: "(nat set \<Rightarrow> nat list) \<Rightarrow> 's router \<Rightarrow> 's router" where
  "Server_Shutdown order r =
     (let g = sv_guard (ro_server r)
      in r\<lparr>ro_server := (ro_server r)\<lparr>sv_guard := closePending g (order (ag_pending g))\<rparr>\<rparr>)"

text \<open>
  From the signal on. An error of a hook is logged and nothing else; a shutdown that fails ends the
  process without the deferred calls, which otherwise run in the reverse of their order.
\<close>

definition halt :: "('k, 's) world \<Rightarrow> 's router \<Rightarrow> (main_event list \<times> 's router \<times> int) option" where
  "halt w r =
     (let es = (if ro_stats r = None then [] else [PartClosed StatsPart]) @ [HooksRun, PartClosed ServerPart];
          r2 = Server_Shutdown (w_order w) (fst (RunShutdownHooks (w_hooks w) r))
      in if w_shutdown w = ShutdownError then Some (es, r2, 1)
         else do {
           ban \<leftarrow> Close_banner (ro_banner r2);
           reg \<leftarrow> Close (ro_registry r2);
           Some (es @ [PartClosed StorePart, PartClosed BannerPart, PartClosed RegistryPart],
             r2\<lparr>ro_banner := ban, ro_registry := reg\<rparr>, 0) })"

section \<open>Starting\<close>

definition router_ok :: "'s router \<Rightarrow> bool" where
  "router_ok r \<longleftrightarrow>
     reg_inv (ro_registry r) \<and> r_started (ro_registry r) \<and> \<not> r_closed (ro_registry r)
     \<and> banner_inv (ro_banner r) \<and> bs_started (ro_banner r) \<and> \<not> bs_closed (ro_banner r)
     \<and> guard_inv (sv_guard (ro_server r))"

lemma Start_simps [simp]:
  "reg_inv (Start r) = reg_inv r" "r_started (Start r)" "r_closed (Start r) = r_closed r" "r_opts (Start r) = r_opts r"
  by (simp_all add: Start_def reg_inv_def)

lemma Start_banner_simps [simp]:
  "banner_inv (Start_banner b) = banner_inv b" "bs_started (Start_banner b)" "bs_closed (Start_banner b) = bs_closed b"
  "bs_ReloadInterval (Start_banner b) = bs_ReloadInterval b"
  by (simp_all add: Start_banner_def banner_inv_def)

lemma main_registry_ok:
  assumes "main_registry w c = Inr reg" "config_ok c"
  shows "reg_inv reg \<and> \<not> r_closed reg
    \<and> r_opts reg = \<lparr>o_ProbeInterval = c_ProbeInterval c, o_DialTimeout = 2000000000, o_FailThreshold = 2\<rparr>"
proof -
  have "0 < c_ProbeInterval c" using assms(2) by (simp add: config_ok_def Config.second_def)
  then show ?thesis
    using assms(1) NewRegistry_inv unfolding main_registry_def
    by (auto simp: NewRegistry_def withDefaults_def main_options_def Prober.second_def split: sum.splits)
qed

lemma main_banner_ok:
  assumes "config_ok c"
  shows "banner_inv (main_banner w c)" "\<not> bs_closed (main_banner w c)" "bs_ReloadInterval (main_banner w c) = c_ProbeInterval c"
proof -
  show "banner_inv (main_banner w c)" unfolding main_banner_def by (rule NewBanner_inv [OF loadFile_banner_ok])
  have "0 < c_ProbeInterval c" using assms by (simp add: config_ok_def Config.second_def)
  then show "\<not> bs_closed (main_banner w c)" "bs_ReloadInterval (main_banner w c) = c_ProbeInterval c"
    by (auto simp: main_banner_def NewBanner_def withDefaults_banner_def Let_def split: sum.split)
qed

lemma main_stats_error:
  "config_ok c \<Longrightarrow> main_stats w c = Inl e \<Longrightarrow> e = MkdirError \<and> \<not> w_statsDir w"
  by (auto simp: main_stats_def NewPublisher_def config_ok_def Config.second_def split: if_splits)

lemma main_stats_none: "main_stats w c = Inr stats \<Longrightarrow> stats = None \<longleftrightarrow> c_StatsPath c = []"
  by (cases "NewPublisher \<lparr>po_Path = c_StatsPath c, po_Interval = c_StatsInterval c\<rparr> (w_statsDir w)")
    (auto simp: main_stats_def split: if_splits)

lemma NewServer_parts:
  assumes "fst (NewServer mkdir lib os created c fs) = Inr sv"
  shows "sv_limits sv = NewSessionLimits (c_MaxConnections c) (c_MaxSessionsPerKey c) (c_MaxGuestSessions c) (c_MaxGuestSessionsPerIP c)"
    "guard_inv (sv_guard sv)"
  using assms by (auto simp: NewServer_def guard_init.intros intro!: guard_init_inv split: option.splits sum.splits prod.splits if_splits)

lemma boot_cases:
  obtains "boot w = None" | (err) es e where "boot w = Some (es, Inl e)" | (up) es r where "boot w = Some (es, Inr r)"
  by (metis old.sum.exhaust option.exhaust surj_pair)

lemma Open_ok:
  assumes "db_version t = 1 \<longleftrightarrow> db_schema t" and "0 \<le> db_version t"
  shows "case Open mkdir opened mode readFault fault t of
      None \<Rightarrow> False
    | Some (Inl _) \<Rightarrow> True
    | Some (Inr t') \<Rightarrow> db_version t' = 1 \<and> db_schema t' \<and> (db_version t = 1 \<longrightarrow> t' = t)"
  using migrate_correct [OF assms, of fault readFault]
  by (auto simp: Open_def split: option.splits)

lemma boot_ok:
  assumes "boot w = Some (es, Inr r)"
  shows "Load (w_env w) = Inr (ro_config r)" "router_ok r"
    "r_opts (ro_registry r) = \<lparr>o_ProbeInterval = c_ProbeInterval (ro_config r), o_DialTimeout = 2000000000, o_FailThreshold = 2\<rparr>"
    "bs_ReloadInterval (ro_banner r) = c_ProbeInterval (ro_config r)"
    "sv_limits (ro_server r) = NewSessionLimits (c_MaxConnections (ro_config r)) (c_MaxSessionsPerKey (ro_config r))
       (c_MaxGuestSessions (ro_config r)) (c_MaxGuestSessionsPerIP (ro_config r))"
    "ro_stats r = None \<longleftrightarrow> c_StatsPath (ro_config r) = []"
    "Open (w_dbDir w) (w_dbOpened w) (w_journal w) (w_dbReadFault w) (w_dbFault w) (w_tables w) = Some (Inr (ro_store r))"
    "es = [PartStarted RegistryPart, PartStarted BannerPart, PartStarted StorePart]
       @ (if ro_stats r = None then [] else [PartStarted StatsPart]) @ [PartStarted ServerPart]"
proof -
  obtain c reg st sv stats where b: "Load (w_env w) = Inr c" "main_registry w c = Inr reg"
    "Open (w_dbDir w) (w_dbOpened w) (w_journal w) (w_dbReadFault w) (w_dbFault w) (w_tables w) = Some (Inr st)"
    "fst (NewServer (w_mkdir w) (w_keylib w) (w_keyOs w) (w_created w) c (w_files w)) = Inr sv"
    "main_stats w c = Inr stats"
    and r: "r = \<lparr>ro_config = c, ro_log = log_New (c_LogLevel c) (c_LogFormat c), ro_registry = Start reg,
                 ro_banner = Start_banner (main_banner w c), ro_store = st, ro_server = sv, ro_stats = stats\<rparr>"
    and es: "es = [PartStarted RegistryPart, PartStarted BannerPart, PartStarted StorePart]
       @ (if stats = None then [] else [PartStarted StatsPart]) @ [PartStarted ServerPart]"
    using assms by (auto simp: boot_def Let_def split: sum.splits option.splits)
  have c: "config_ok c" by (rule Load_config_ok [OF b(1)])
  note parts = main_registry_ok [OF b(2) c] main_banner_ok [OF c, of w] NewServer_parts [OF b(4)] main_stats_none [OF b(5)]
  show "Load (w_env w) = Inr (ro_config r)" "router_ok r"
    "r_opts (ro_registry r) = \<lparr>o_ProbeInterval = c_ProbeInterval (ro_config r), o_DialTimeout = 2000000000, o_FailThreshold = 2\<rparr>"
    "bs_ReloadInterval (ro_banner r) = c_ProbeInterval (ro_config r)"
    "sv_limits (ro_server r) = NewSessionLimits (c_MaxConnections (ro_config r)) (c_MaxSessionsPerKey (ro_config r))
       (c_MaxGuestSessions (ro_config r)) (c_MaxGuestSessionsPerIP (ro_config r))"
    "ro_stats r = None \<longleftrightarrow> c_StatsPath (ro_config r) = []"
    "Open (w_dbDir w) (w_dbOpened w) (w_journal w) (w_dbReadFault w) (w_dbFault w) (w_tables w) = Some (Inr (ro_store r))"
    "es = [PartStarted RegistryPart, PartStarted BannerPart, PartStarted StorePart]
       @ (if ro_stats r = None then [] else [PartStarted StatsPart]) @ [PartStarted ServerPart]"
    using b(1,3) parts by (simp_all add: r es router_ok_def)
qed

lemma boot_error:
  assumes "boot w = Some (es, Inl e)"
  shows "PartStarted ServerPart \<notin> set es" "e = StatsFailed x \<Longrightarrow> x = MkdirError \<and> \<not> w_statsDir w"
  using assms by (auto simp: boot_def Let_def split: sum.splits option.splits dest!: Load_config_ok dest: main_stats_error)

lemma boot_panic:
  assumes "boot w = None" shows "Open (w_dbDir w) (w_dbOpened w) (w_journal w) (w_dbReadFault w) (w_dbFault w) (w_tables w) = None"
  using assms by (auto simp: boot_def Let_def split: sum.splits option.splits)

section \<open>Stopping\<close>

lemma RunShutdownHooks_keeps:
  "(\<And>h s. h \<in> set hs \<Longrightarrow> P s \<Longrightarrow> P (fst (h s))) \<Longrightarrow> P s \<Longrightarrow> P (fst (RunShutdownHooks hs s))"
  by (induction hs arbitrary: s) (auto simp: split_def Let_def)

lemma Close_done:
  assumes "reg_inv r" "\<not> r_closed r"
  shows "\<exists>r'. Close r = Some r' \<and> r_closed r' \<and> subs (r_hub r') = {}"
proof -
  obtain h where "hub_CloseAll (r_hub r) = Some h" "subs h = {}"
    using hub_CloseAll_ok [of "r_hub r"] assms(1) by (auto simp: reg_inv_def)
  then show ?thesis
    using assms(2) by (intro exI [of _ "r\<lparr>r_closed := True, r_hub := h\<rparr>"]) (simp add: Close_def)
qed

lemma Close_banner_done:
  assumes "banner_inv b" "\<not> bs_closed b"
  shows "\<exists>b'. Close_banner b = Some b' \<and> bs_closed b' \<and> subs (bs_hub b') = {}"
proof -
  obtain h where "hub_CloseAll (bs_hub b) = Some h" "subs h = {}"
    using hub_CloseAll_ok [of "bs_hub b"] assms(1) by (auto simp: banner_inv_def)
  then show ?thesis
    using assms(2) by (intro exI [of _ "b\<lparr>bs_closed := True, bs_hub := h\<rparr>"]) (simp add: Close_banner_def)
qed

lemma Server_Shutdown_ok:
  assumes "router_ok r" "\<And>P. finite P \<Longrightarrow> set (order P) = P"
  shows "router_ok (Server_Shutdown order r)" "ag_pending (sv_guard (ro_server (Server_Shutdown order r))) = {}"
    "wrap (sv_guard (ro_server (Server_Shutdown order r))) remote now = (None, sv_guard (ro_server (Server_Shutdown order r)))"
proof -
  let ?g = "sv_guard (ro_server r)"
  have g: "guard_inv ?g" using assms(1) by (simp add: router_ok_def)
  then have "set (order (ag_pending ?g)) = ag_pending ?g" by (intro assms(2)) (auto simp: guard_defs intro: finite_subset)
  from closePending_correct [OF g this] assms(1)
  show "router_ok (Server_Shutdown order r)" "ag_pending (sv_guard (ro_server (Server_Shutdown order r))) = {}"
    "wrap (sv_guard (ro_server (Server_Shutdown order r))) remote now = (None, sv_guard (ro_server (Server_Shutdown order r)))"
    by (auto simp: router_ok_def Server_Shutdown_def Let_def)
qed

definition stopped :: "'s router \<Rightarrow> bool" where
  "stopped r \<longleftrightarrow>
     r_closed (ro_registry r) \<and> subs (r_hub (ro_registry r)) = {} \<and> bs_closed (ro_banner r) \<and> subs (bs_hub (ro_banner r)) = {}"

lemma halt_ok:
  assumes r: "router_ok r" and order: "\<And>P. finite P \<Longrightarrow> set (w_order w P) = P"
    and hooks: "\<And>h r. h \<in> set (w_hooks w) \<Longrightarrow> router_ok r \<Longrightarrow> router_ok (fst (h r))"
  shows "\<exists>r'. halt w r = Some ((if ro_stats r = None then [] else [PartClosed StatsPart]) @ [HooksRun, PartClosed ServerPart]
        @ (if w_shutdown w = ShutdownError then [] else [PartClosed StorePart, PartClosed BannerPart, PartClosed RegistryPart]),
        r', if w_shutdown w = ShutdownError then 1 else 0)
    \<and> ag_pending (sv_guard (ro_server r')) = {}
    \<and> (\<forall>remote now. wrap (sv_guard (ro_server r')) remote now = (None, sv_guard (ro_server r')))
    \<and> (w_shutdown w \<noteq> ShutdownError \<longrightarrow> stopped r')"
proof -
  have "router_ok (fst (RunShutdownHooks (w_hooks w) r))" by (rule RunShutdownHooks_keeps [where P = router_ok]) (use r hooks in auto)
  note sh = Server_Shutdown_ok [OF this order]
  obtain reg ban where "Close (ro_registry (Server_Shutdown (w_order w) (fst (RunShutdownHooks (w_hooks w) r)))) = Some reg"
    "Close_banner (ro_banner (Server_Shutdown (w_order w) (fst (RunShutdownHooks (w_hooks w) r)))) = Some ban"
    "r_closed reg" "subs (r_hub reg) = {}" "bs_closed ban" "subs (bs_hub ban) = {}"
    using Close_done Close_banner_done sh(1) unfolding router_ok_def by meson
  then show ?thesis using sh(2,3) by (simp add: halt_def Let_def stopped_def)
qed

section \<open>Properties\<close>

definition example_world :: "(string, string) world" where
  "example_world =
     \<lparr>w_env = example_setup, w_now = 7, w_stat = (\<lambda>_. Modified 5), w_read = (\<lambda>_. Some ''x''),
      w_gamesToml = (\<lambda>_. Some [example_entry ''farm'' ''IDLE FARMER'' 10]), w_hostKey = (\<lambda>_. None), w_bannerToml = (\<lambda>_. None),
      w_dbDir = True, w_dbOpened = True, w_journal = Some ''wal'', w_dbReadFault = False, w_dbFault = (\<lambda>_. False),
      w_tables = empty_tables, w_mkdir = (\<lambda>_. Some),
      w_keylib = \<lparr>kl_ParsePrivateKey = Some, kl_MarshalPrivateKey = Some, kl_NewPublicKey = Some, kl_NewSignerFromKey = Some\<rparr>,
      w_keyOs = \<lparr>ko_readError = False, ko_generated = Some ''key'', ko_write = None, ko_writePub = None\<rparr>,
      w_files = Map.empty, w_created = True, w_statsDir = True, w_hooks = [\<lambda>r. (r, True)],
      w_order = sorted_list_of_set, w_shutdown = ShutdownClosed\<rparr>"

lemma example_world_boots: "\<exists>es r. boot example_world = Some (es, Inr r)"
proof -
  obtain c where c: "Load example_setup = Inr c" using example_setup_loads by blast
  have reg: "\<exists>reg. main_registry example_world c = Inr reg"
    by (simp add: main_registry_def example_world_def stat_mtime_def loadFile_def validate_single NewRegistry_def)
  have "\<exists>sv. fst (NewServer (w_mkdir example_world) (w_keylib example_world) (w_keyOs example_world) (w_created example_world) c
      (w_files example_world)) = Inr sv"
    by (simp add: example_world_def NewServer_def ensureKeyDir_plain loadOrCreateProxyKey_def WriteFile_def Let_def)
  moreover have "\<exists>st. main_stats example_world c = Inr st"
    using Load_config_ok [OF c]
    by (auto simp: main_stats_def example_world_def NewPublisher_def config_ok_def Config.second_def)
  moreover have "\<exists>st. Open (w_dbDir example_world) (w_dbOpened example_world) (w_journal example_world) (w_dbReadFault example_world)
      (w_dbFault example_world) (w_tables example_world) = Some (Inr st)"
    by (simp add: example_world_def Open_def verifyWAL_def migrate_def migrations_def empty_tables_def)
  moreover have "w_env example_world = example_setup" by (simp add: example_world_def)
  ultimately show ?thesis using c reg by (auto simp: boot_def Let_def)
qed

lemma example_world_tables:
  "db_version (w_tables example_world) = 1 \<longleftrightarrow> db_schema (w_tables example_world)" "0 \<le> db_version (w_tables example_world)"
  by (simp_all add: example_world_def empty_tables_def)



end
