(* ===== verification/Service.thy ===== *)
theory Service
  imports Arcade_Steps Main_Program
begin

text \<open>
  The router from \<^verbatim>\<open>main\<close> on: what \<open>boot\<close> makes is put to work as the arcade of \<open>Arcade\<close>, and halted again.

  Shown for every run of every booted router: it never panics, players are who they proved to be,
  all budgets hold, the counts that are published are those of the sessions, a dismissed warning
  stays dismissed, and whatever is going on can end with everything given back.
\<close>

section \<open>The router that serves\<close>

text \<open>The state of a booted router as its sessions see it, and back.\<close>

definition arcade_of :: "'s router \<Rightarrow> arcade" where
  "arcade_of r =
     \<lparr>ar_allow = c_AllowGuests (ro_config r), ar_idle = c_LobbyIdleTimeout (ro_config r),
      ar_guard = sv_guard (ro_server r), ar_conns = Map.empty, ar_limits = sv_limits (ro_server r),
      ar_registry = ro_registry r, ar_banner = Some (ro_banner r), ar_store = Some (ro_store r),
      ar_tracker = sv_presence (ro_server r), ar_sessions = Map.empty, ar_next = 0\<rparr>"

definition router_with :: "'s router \<Rightarrow> arcade \<Rightarrow> 's router" where
  "router_with r a =
     r\<lparr>ro_registry := ar_registry a, ro_banner := (case ar_banner a of None \<Rightarrow> ro_banner r | Some b \<Rightarrow> b),
       ro_store := (case ar_store a of None \<Rightarrow> ro_store r | Some t \<Rightarrow> t),
       ro_server := (ro_server r)\<lparr>sv_limits := ar_limits a, sv_guard := ar_guard a, sv_presence := ar_tracker a\<rparr>\<rparr>"

text \<open>\<^verbatim>\<open>main\<close> with what happens between the start of the listener and the signal as a run of the arcade.\<close>

definition go_main :: "('k, 's) world \<Rightarrow> arcade_op list \<Rightarrow> (main_event list \<times> 's router option \<times> int) option" where
  "go_main w ops =
     (case boot w of
        None \<Rightarrow> None
      | Some (es, Inl _) \<Rightarrow> Some (es, None, 1)
      | Some (es, Inr r) \<Rightarrow> do {
          a \<leftarrow> arcade_run (arcade_of r) ops;
          (es', r', code) \<leftarrow> halt w (router_with r a);
          Some (es @ [StopRequested] @ es', Some r', code) })"

lemma held_empty [simp]: "held f Map.empty = Map.empty"
  by (simp add: held_def fun_eq_iff)

lemma shares_empty [simp]: "shares Map.empty = {#}"
  by (simp add: shares_def)

lemma arcade_of_inv:
  assumes "router_ok r" "sv_limits (ro_server r) = NewSessionLimits gl pk gs pip" "sv_presence (ro_server r) = NewTracker"
    "store_inv (ro_store r)" "subs (r_hub (ro_registry r)) = {}" "subs (bs_hub (ro_banner r)) = {}"
  shows "arcade_inv (arcade_of r)"
proof -
  have "floor_of NewTracker = Map.empty" by (simp add: floor_of_def NewTracker_def fun_eq_iff)
  then show ?thesis using assms NewTracker_inv
    by (simp add: arcade_inv_def arcade_invs arcade_of_def router_ok_def limits_inv_def limits_rel_def within_caps_def
        live_def guest_count_def NewSessionLimits_def banner_subs_def owns_def)
qed

lemma NewServer_presence:
  assumes "fst (NewServer mkdir lib os created c fs) = Inr sv"
  shows "sv_presence sv = NewTracker"
  using assms by (auto simp: NewServer_def split: option.splits sum.splits prod.splits if_splits)

lemma new_subs:
  "main_registry w c = Inr reg \<Longrightarrow> subs (r_hub (Start reg)) = {}"
  "subs (bs_hub (Start_banner (main_banner w c))) = {}"
  by (auto simp: main_registry_def NewRegistry_def Start_def main_banner_def NewBanner_def Start_banner_def new_hub_def Let_def
      split: sum.splits prod.splits)

lemma boot_arcade:
  assumes "boot w = Some (es, Inr r)" "store_inv (ro_store r)"
  shows "arcade_inv (arcade_of r)"
proof -
  note b = boot_ok [OF assms(1)]
  obtain c reg where "main_registry w c = Inr reg" "ro_registry r = Start reg" "ro_banner r = Start_banner (main_banner w c)"
    and sv: "fst (NewServer (w_mkdir w) (w_keylib w) (w_keyOs w) (w_created w) c (w_files w)) = Inr (ro_server r)"
    using assms(1) by (auto simp: boot_def Let_def split: sum.splits option.splits)
  then have "subs (r_hub (ro_registry r)) = {}" "subs (bs_hub (ro_banner r)) = {}" using new_subs [of w c] by simp_all
  then show ?thesis using arcade_of_inv [OF b(2,5) NewServer_presence [OF sv] assms(2)] by blast
qed

section \<open>What a step cannot change\<close>

text \<open>
  Settings stay; registry and banner take a step of their own, and not the one that closes them; what
  is acknowledged in the database stays acknowledged.
\<close>

definition caps :: "SessionLimits \<Rightarrow> int \<times> int \<times> int \<times> int" where
  "caps l = (maxGlobal l, maxPerKey l, maxGuests l, maxPerIP l)"

lemma caps_simps [simp]: "caps (snd (acquire l i ip)) = caps l" "caps (release l i ip) = caps l"
  by (auto simp: caps_def acquire_def release_def Let_def)

definition settings :: "arcade \<Rightarrow> bool \<times> int \<times> (int \<times> int \<times> int \<times> int)" where
  "settings a = (ar_allow a, ar_idle a, caps (ar_limits a))"

definition reg_up :: "Registry \<Rightarrow> bool" where
  "reg_up r \<longleftrightarrow> r_started r \<and> \<not> r_closed r"

definition banner_up :: "BannerSource \<Rightarrow> bool" where
  "banner_up b \<longleftrightarrow> bs_started b \<and> \<not> bs_closed b"

definition running :: "arcade \<Rightarrow> bool" where
  "running a \<longleftrightarrow> reg_up (ar_registry a) \<and> (\<exists>b. ar_banner a = Some b \<and> banner_up b) \<and> ar_store a \<noteq> None"

definition acked :: "tables option \<Rightarrow> string \<Rightarrow> string \<Rightarrow> bool" where
  "acked st fp game \<longleftrightarrow> (\<exists>t. st = Some t \<and> db_acks t (fp, game) \<noteq> None)"

definition keeps :: "arcade \<Rightarrow> arcade \<Rightarrow> bool" where
  "keeps a a' \<longleftrightarrow>
     settings a' = settings a \<and> (running a \<longrightarrow> running a') \<and> (\<forall>fp game. acked (ar_store a) fp game \<longrightarrow> acked (ar_store a') fp game)"

lemma keeps_refl [simp]: "keeps a a"
  by (simp add: keeps_def)

lemma keeps_trans: "keeps a b \<Longrightarrow> keeps b c \<Longrightarrow> keeps a c"
  by (simp add: keeps_def)

lemma keepsI:
  assumes "ar_allow a' = ar_allow a" "ar_idle a' = ar_idle a" "caps (ar_limits a') = caps (ar_limits a)"
    "reg_up (ar_registry a) \<Longrightarrow> reg_up (ar_registry a')"
    "\<And>b. ar_banner a = Some b \<Longrightarrow> banner_up b \<Longrightarrow> \<exists>b'. ar_banner a' = Some b' \<and> banner_up b'"
    "ar_store a \<noteq> None \<Longrightarrow> ar_store a' \<noteq> None" "\<And>fp game. acked (ar_store a) fp game \<Longrightarrow> acked (ar_store a') fp game"
  shows "keeps a a'"
  using assms by (auto simp: keeps_def settings_def running_def)

lemma to_stage_idle [simp]: "ar_idle (to_stage a n s st) = ar_idle a"
  by (simp add: to_stage_def put_session_def)

lemma reg_up_simps [simp]:
  "reg_up (snd (Subscribe r)) = reg_up r" "reg_up (ProbeNow r) = reg_up r" "reg_up (fst (report_section r i now)) = reg_up r"
  by (simp_all add: reg_up_def Subscribe_def ProbeNow_def report_section_def split_def Let_def split: option.split)

lemma reg_up_upd [simp]:
  "reg_up (r\<lparr>r_hub := h\<rparr>) = reg_up r" "reg_up (r\<lparr>r_kick := k\<rparr>) = reg_up r" "reg_up (r\<lparr>r_health := m\<rparr>) = reg_up r"
  "reg_up (r\<lparr>r_mtime := mt\<rparr>) = reg_up r" "reg_up (r\<lparr>r_games := gs\<rparr>) = reg_up r"
  by (simp_all add: reg_up_def)

lemma reg_up_hub: "map_option (\<lambda>h. r\<lparr>r_hub := h\<rparr>) x = Some r' \<Longrightarrow> reg_up r' = reg_up r"
  by (cases x) (simp, drule sym, simp)

lemma reg_up_ops:
  "Unsubscribe r c = Some r' \<Longrightarrow> reg_up r' = reg_up r" "notify r = Some r' \<Longrightarrow> reg_up r' = reg_up r"
  unfolding Unsubscribe_def notify_def by (erule reg_up_hub)+

lemma reg_up_sections [simp]:
  "reg_up (fst (probe_section r results now)) = reg_up r" "reg_up (fst (reload_section r mt load now)) = reg_up r"
  "reg_up r \<Longrightarrow> reg_up (Start r)"
  by (simp_all add: probe_section_def reload_section_def split_def Let_def split: sum.split) (simp add: reg_up_def Start_def)

lemma reg_up_exec:
  assumes "reg_exec r e = Some r'" "e \<noteq> OpClose" "reg_up r"
  shows "reg_up r'"
proof (cases e)
  case OpNotify
  then show ?thesis using assms reg_up_ops(2) by simp
next
  case (OpUnsubscribe c)
  then show ?thesis using assms reg_up_ops(1) by simp
qed (use assms in \<open>auto simp: reg_up_ops\<close>)

lemma banner_up_upd [simp]:
  "banner_up (b\<lparr>bs_hub := h\<rparr>) = banner_up b" "banner_up (b\<lparr>bs_kick := k\<rparr>) = banner_up b"
  "banner_up (b\<lparr>bs_notice := x\<rparr>) = banner_up b" "banner_up (b\<lparr>bs_mtime := mt\<rparr>) = banner_up b"
  "banner_up b \<Longrightarrow> banner_up (Start_banner b)"
  by (simp_all add: banner_up_def Start_banner_def)

lemma banner_up_ops:
  "banner_up (snd (Subscribe_banner b)) = banner_up b" "Unsubscribe_banner b c = Some b' \<Longrightarrow> banner_up b' = banner_up b"
  "notify_banner b = Some b' \<Longrightarrow> banner_up b' = banner_up b" "banner_up (ReloadNow b) = banner_up b"
  "banner_up (fst (removed_section b)) = banner_up b" "banner_up (fst (changed_section b mt load)) = banner_up b"
  by (auto simp: Subscribe_banner_def Unsubscribe_banner_def notify_banner_def ReloadNow_def removed_section_def changed_section_def
      split_def Let_def split: sum.splits if_splits)

lemma banner_up_exec: "banner_exec b e = Some b' \<Longrightarrow> e \<noteq> BClose \<Longrightarrow> banner_up b \<Longrightarrow> banner_up b'"
  by (cases e) (auto simp: banner_up_ops)

lemma acked_touch: "acked st fp game \<Longrightarrow> acked (touch_session i st fault authkey now) fp game"
  by (auto simp: acked_def touch_session_def TouchAccount_def sql_upsert_account_def split: Kind.split option.split)

lemma touch_session_None [simp]: "touch_session i st fault authkey now = None \<longleftrightarrow> st = None"
  by (auto simp: touch_session_def split: Kind.split option.split)

lemma acked_prefs:
  assumes "acked (ar_store a) fp game" "p = session_prefs a s time fault \<or> p = prefs_ack (session_prefs a s time fault) i"
    "keep_prefs a s (Some p) = (a1, s1)"
  shows "acked (ar_store a1) fp game"
  using assms by (auto simp: acked_def session_prefs_def session_AckAlpha_def AckAlphaWarning_cases sql_upsert_account_def split: if_splits)

text \<open>Every step keeps these.\<close>

lemma deliver_msg_keeps: "keeps a (deliver_msg a n s poke bp m rg msg)"
proof -
  let ?p = "session_prefs a s (rg_time rg) (rg_fault rg)" and ?m0 = "m\<lparr>m_prefs := Some (session_prefs a s (rg_time rg) (rg_fault rg))\<rparr>"
  obtain m1 cmd probe where u: "Update prefs_has prefs_ack (env_now a rg) msg ?m0 = (m1, cmd, probe)" by (metis prod_cases3)
  have "m_prefs m1 = Some ?p \<or> m_prefs m1 = Some (prefs_ack ?p (alpha_id ?m0))"
    using Update_prefs [of prefs_has prefs_ack "env_now a rg" msg ?m0] by (simp add: u)
  then obtain p where p: "m_prefs m1 = Some p" "p = ?p \<or> p = prefs_ack ?p (alpha_id ?m0)" by blast
  obtain a1 s1 where k: "keep_prefs a s (Some p) = (a1, s1)" by force
  have a: "deliver_msg a n s poke bp m rg msg =
      to_stage (if probe then a1\<lparr>ar_registry := ProbeNow (ar_registry a1)\<rparr> else a1) n s1 (InMenu poke bp m1)"
    using u k p by (simp add: deliver_msg_def Let_def)
  have "ar_idle a1 = ar_idle a" using k by (cases p) auto
  moreover have "ar_store a1 \<noteq> None" if "ar_store a \<noteq> None"
    using that k p(2) by (auto simp: session_prefs_def session_AckAlpha_def split: if_splits)
  ultimately show ?thesis
    using acked_prefs [OF _ p(2) k] keep_prefs_simps [OF k] by (intro keepsI) (auto simp: a)
qed

lemma step_keeps:
  "keeps a (refuse_terminal a n s)" "keeps a (touch_store a n s fault authkey now)" "keeps a (take_seat a n s)"
  "keeps a (watch_games a n s)" "keeps a (show_menu a n s poke rg width height)" "keeps a (check_game a n s g)"
  "keeps a (enter_game a n s g)" "keeps a (end_visit a n s g err gone)" "keeps a (report_visit a n s g err gone now)"
  "keeps a (give_seat_back a n s)" "keeps a (end_shell a n s)" "keeps a (to_stage a n s st)"
  "keeps a (accept_conn a remote now)" "keeps a (try_auth a c att)" "keeps a (start_shell a c user bytes)"
  "end_menu a n s poke bp res = Some a' \<Longrightarrow> keeps a a'" "stop_watching a n s poke res = Some a' \<Longrightarrow> keeps a a'"
  "tell_others a n s changed gone = Some a' \<Longrightarrow> keeps a a'"
proof -
  show "keeps a (touch_store a n s fault authkey now)"
    by (rule keepsI) (simp_all add: touch_store_def acked_touch)
  show "keeps a (take_seat a n s)" "keeps a (watch_games a n s)" "keeps a (report_visit a n s g err gone now)"
    by (rule keepsI; simp add: take_seat_def watch_games_def report_visit_def split_def Let_def)+
  show "keeps a (show_menu a n s poke rg width height)"
    by (rule keepsI) (auto simp: show_menu_def banner_up_ops split_def Let_def split: option.split)
  show "keeps a (check_game a n s g)" by (rule keepsI) (simp_all add: check_game_def split: sum.split)
  show "keeps a (refuse_terminal a n s)" "keeps a (enter_game a n s g)" "keeps a (end_visit a n s g err gone)"
    "keeps a (give_seat_back a n s)" "keeps a (end_shell a n s)" "keeps a (to_stage a n s st)"
    by (rule keepsI; simp add: refuse_terminal_def enter_game_def end_visit_def give_seat_back_def end_shell_def)+
  show "keeps a (accept_conn a remote now)" "keeps a (try_auth a c att)"
    by (rule keepsI; simp add: accept_conn_def try_auth_def split_def Let_def split: option.split)+
  show "keeps a (start_shell a c user bytes)"
    by (rule keepsI) (simp_all add: start_shell_def put_session_def split_def Let_def split: option.split)
  show "keeps a a'" if "end_menu a n s poke bp res = Some a'"
    using that by (intro keepsI) (auto simp: end_menu_def banner_up_ops split: option.splits bind_splits)
  show "keeps a a'" if "stop_watching a n s poke res = Some a'"
    using that by (intro keepsI) (auto simp: stop_watching_def reg_up_ops split: bind_splits)
  show "keeps a a'" if "tell_others a n s changed gone = Some a'"
    using that by (intro keepsI) (auto simp: tell_others_def reg_up_ops split: bind_splits if_splits)
qed

lemma arcade_exec_keeps:
  assumes "arcade_exec a e = Some a'" "arcade_op_ok e"
  shows "keeps a a'"
proof (cases e)
  case (RegistryTask t)
  then show ?thesis using assms reg_up_exec [of "ar_registry a" t] by (intro keepsI) auto
next
  case (BannerTask t)
  then show ?thesis using assms banner_up_exec [of _ t] by (intro keepsI) (auto split: option.splits)
qed (use assms in \<open>auto simp: on_session_def step_keeps deliver_msg_keeps intro: keepsI split: option.splits stage.splits if_splits\<close>)

lemma arcade_run_keeps: "arcade_run a es = Some a' \<Longrightarrow> \<forall>e \<in> set es. arcade_op_ok e \<Longrightarrow> keeps a a'"
proof (induction es arbitrary: a)
  case (Cons e es)
  then obtain b where "arcade_exec a e = Some b" "arcade_run b es = Some a'" by (auto split: bind_splits)
  with Cons show ?case using arcade_exec_keeps keeps_trans by (metis list.set_intros)
qed simp

section \<open>Counting sessions\<close>

definition sessions_with :: "arcade \<Rightarrow> (session \<Rightarrow> bool) \<Rightarrow> nat set" where
  "sessions_with a P = {n. \<exists>s. ar_sessions a n = Some s \<and> P s}"

lemma size_filter_shares:
  assumes "finite (dom h)"
  shows "size (filter_mset P (shares h)) = card {n. \<exists>x. h n = Some x \<and> P x}"
proof -
  have "size (filter_mset P (shares h)) = size (filter_mset (\<lambda>n. P (the (h n))) (mset_set (dom h)))"
    by (simp add: shares_def filter_mset_image_mset)
  also have "\<dots> = card {n \<in> dom h. P (the (h n))}" using assms by simp
  also have "{n \<in> dom h. P (the (h n))} = {n. \<exists>x. h n = Some x \<and> P x}" by auto
  finally show ?thesis .
qed

lemma size_live_filter:
  assumes "budgets_inv a"
  shows "size (filter_mset P (live (shares (held budget_of (ar_sessions a))))) = card (sessions_with a (\<lambda>s. P (sess_of (ss_id s) (ss_ip s))))"
proof -
  let ?h = "held budget_of (ar_sessions a)"
  have "finite (dom ?h)" using assms by (simp add: budgets_inv_def dom_held_budget)
  then have "size (filter_mset P (live (shares ?h))) = card {n. \<exists>x. ?h n = Some x \<and> P (sess_of (fst x) (snd x))}"
    by (simp add: live_def filter_mset_image_mset size_filter_shares split_def)
  also have "{n. \<exists>x. ?h n = Some x \<and> P (sess_of (fst x) (snd x))} = sessions_with a (\<lambda>s. P (sess_of (ss_id s) (ss_ip s)))"
    by (auto simp: held_def budget_of_def sessions_with_def split: bind_splits)
  finally show ?thesis .
qed

lemma count_size: "count M x = size (filter_mset (\<lambda>y. y = x) M)"
  by (induction M) auto

lemma sessions_within_caps:
  assumes "arcade_inv a"
  shows "int (card (dom (ar_sessions a))) \<le> max 0 (maxGlobal (ar_limits a))"
    "int (card (sessions_with a (\<lambda>s. id_Kind (ss_id s) \<noteq> Guest \<and> id_Fingerprint (ss_id s) = fp))) \<le> max 0 (maxPerKey (ar_limits a))"
    "int (card (sessions_with a (\<lambda>s. id_Kind (ss_id s) = Guest))) \<le> max 0 (maxGuests (ar_limits a))"
    "int (card (sessions_with a (\<lambda>s. id_Kind (ss_id s) = Guest \<and> ss_ip s = ip))) \<le> max 0 (maxPerIP (ar_limits a))"
proof -
  have b: "budgets_inv a" by (rule arcade_invD(2) [OF assms])
  then have c: "within_caps (ar_limits a) (live (shares (held budget_of (ar_sessions a))))" by (simp add: budgets_inv_def limits_inv_def)
  note n = size_live_filter [OF b]
  have "sessions_with a (\<lambda>s. True) = dom (ar_sessions a)" by (auto simp: sessions_with_def)
  then show "int (card (dom (ar_sessions a))) \<le> max 0 (maxGlobal (ar_limits a))"
    using c n [of "\<lambda>_. True"] by (simp add: within_caps_def)
  have key: "sess_of i p = SKey fp \<longleftrightarrow> id_Kind i \<noteq> Guest \<and> id_Fingerprint i = fp" for i p fp by (simp add: sess_of_def)
  have guest: "sess_of i p = SGuest ip \<longleftrightarrow> id_Kind i = Guest \<and> p = ip" "is_guest (sess_of i p) \<longleftrightarrow> id_Kind i = Guest" for i p ip
    by (simp_all add: sess_of_def)
  show "int (card (sessions_with a (\<lambda>s. id_Kind (ss_id s) \<noteq> Guest \<and> id_Fingerprint (ss_id s) = fp))) \<le> max 0 (maxPerKey (ar_limits a))"
    using c n [of "\<lambda>y. y = SKey fp"] unfolding within_caps_def count_size key by metis
  show "int (card (sessions_with a (\<lambda>s. id_Kind (ss_id s) = Guest \<and> ss_ip s = ip))) \<le> max 0 (maxPerIP (ar_limits a))"
    using c n [of "\<lambda>y. y = SGuest ip"] unfolding within_caps_def count_size guest by metis
  show "int (card (sessions_with a (\<lambda>s. id_Kind (ss_id s) = Guest))) \<le> max 0 (maxGuests (ar_limits a))"
    using c n [of is_guest] by (simp add: within_caps_def guest_count_def guest)
qed

section \<open>Who authenticated\<close>

text \<open>An attempt that a connection authenticated with was made on it.\<close>

lemma try_auth_conns:
  assumes "ar_conns (try_auth a c att) d = Some cn" "cn_authed cn = Some b"
  shows "(\<exists>old. ar_conns a d = Some old \<and> cn_authed old = Some b) \<or> (d = c \<and> b = att)"
  using assms by (auto simp: try_auth_def split_def Let_def split: option.splits if_splits)

lemma other_conns:
  "ar_conns (start_shell a c user bytes) = ar_conns a" "ar_conns (fst (keep_prefs a s p)) = ar_conns a"
  by (simp_all add: start_shell_def put_session_def split_def Let_def split: option.split)
    (cases "(a, s, p)" rule: keep_prefs.cases; simp)

lemma session_conns:
  "ar_conns (refuse_terminal a n s) = ar_conns a" "ar_conns (touch_store a n s fault authkey now) = ar_conns a"
  "ar_conns (take_seat a n s) = ar_conns a" "ar_conns (watch_games a n s) = ar_conns a"
  "ar_conns (show_menu a n s poke rg width height) = ar_conns a" "ar_conns (check_game a n s g) = ar_conns a"
  "ar_conns (enter_game a n s g) = ar_conns a" "ar_conns (end_visit a n s g err gone) = ar_conns a"
  "ar_conns (report_visit a n s g err gone now) = ar_conns a" "ar_conns (give_seat_back a n s) = ar_conns a"
  "ar_conns (end_shell a n s) = ar_conns a" "ar_conns (deliver_msg a n s poke bp m rg msg) = ar_conns a"
  "end_menu a n s poke bp res = Some a' \<Longrightarrow> ar_conns a' = ar_conns a" "stop_watching a n s poke res = Some a' \<Longrightarrow> ar_conns a' = ar_conns a"
  "tell_others a n s changed gone = Some a' \<Longrightarrow> ar_conns a' = ar_conns a"
  by (auto simp: refuse_terminal_def touch_store_def take_seat_def watch_games_def show_menu_def check_game_def enter_game_def
      end_visit_def report_visit_def give_seat_back_def end_shell_def deliver_msg_def end_menu_def stop_watching_def tell_others_def
      other_conns split_def Let_def split: sum.split option.splits bind_splits)

lemma arcade_exec_authed:
  assumes "arcade_exec a e = Some a'" "ar_conns a' d = Some cn" "cn_authed cn = Some b"
  shows "(\<exists>old. ar_conns a d = Some old \<and> cn_authed old = Some b) \<or> e = TryAuth d b"
proof (cases e)
  case (TryAuth c att)
  then show ?thesis using assms try_auth_conns [of a c att d cn b] by auto
next
  case (AcceptConn remote now)
  then show ?thesis using assms by (auto simp: accept_conn_def split_def Let_def split: option.splits if_splits)
qed (use assms in \<open>auto simp: on_session_def other_conns session_conns split: option.splits stage.splits if_splits\<close>)

lemma arcade_run_authed:
  "arcade_run a es = Some a' \<Longrightarrow> ar_conns a' d = Some cn \<Longrightarrow> cn_authed cn = Some b
   \<Longrightarrow> (\<exists>old. ar_conns a d = Some old \<and> cn_authed old = Some b) \<or> TryAuth d b \<in> set es"
proof (induction es arbitrary: a)
  case (Cons e es)
  then obtain c where c: "arcade_exec a e = Some c" "arcade_run c es = Some a'" by (auto split: bind_splits)
  then show ?case using Cons.IH [OF c(2) Cons.prems(2,3)] arcade_exec_authed [OF c(1), of d _ b] by auto
qed auto

section \<open>The floor as the sessions see it\<close>

lemma owns_ran: "owns h F \<Longrightarrow> ran (\<lambda>n. map_option snd (h n)) = ran F"
  using ownsD(1,2) [of h F] by (force simp: ran_def)

lemma owns_card: 
  assumes "owns h F"
  shows "card (dom F) = card (dom h)"
proof -
  note h = ownsD [OF assms]
  have "bij_betw (\<lambda>n. fst (the (h n))) (dom h) (dom F)"
  proof (rule bij_betw_imageI)
    show "inj_on (\<lambda>n. fst (the (h n))) (dom h)" using h(3) by (force simp: inj_on_def)
    show "(\<lambda>n. fst (the (h n))) ` dom h = dom F" using h(1,2) by (force simp: image_iff)
  qed
  then show ?thesis by (simp add: bij_betw_same_card)
qed

text \<open>Every session with a seat, with its player and the game it plays.\<close>

definition session_floor :: "arcade \<Rightarrow> floor" where
  "session_floor a = held (\<lambda>s. map_option snd (seat_of s)) (ar_sessions a)"

lemma Counts_sessions:
  assumes "arcade_inv a" "iteration (ar_tracker a) order"
  shows "Counts (ar_tracker a) order = floor_counts (session_floor a)"
proof -
  have f: "tracker_inv (ar_tracker a)" "owns (held seat_of (ar_sessions a)) (floor_of (ar_tracker a))"
    using arcade_invD(5) [OF assms(1)] by (simp_all add: floor_inv_def)
  have s: "session_floor a = (\<lambda>n. map_option snd (held seat_of (ar_sessions a) n))"
    by (auto simp: session_floor_def held_def fun_eq_iff map_option_bind o_def)
  have r: "ran (session_floor a) = ran (floor_of (ar_tracker a))" using owns_ran [OF f(2)] by (simp add: s)
  then have p: "players_at (session_floor a) = players_at (floor_of (ar_tracker a))" by (simp add: players_at_def fun_eq_iff)
  have "dom (session_floor a) = dom (held seat_of (ar_sessions a))" by (auto simp: s)
  then have "card (dom (session_floor a)) = card (dom (floor_of (ar_tracker a)))" using owns_card [OF f(2)] by simp
  then show ?thesis unfolding Counts_floor [OF f(1) assms(2)] floor_counts_def r p by simp
qed

section \<open>Nothing left behind\<close>

text \<open>The session a step belongs to.\<close>

fun op_session :: "arcade_op \<Rightarrow> nat option" where
  "op_session (RefuseTerminal n) = Some n"
| "op_session (TouchStore n _ _ _) = Some n"
| "op_session (TakeSeat n) = Some n"
| "op_session (WatchGames n) = Some n"
| "op_session (ShowMenu n _ _ _) = Some n"
| "op_session (DeliverMsg n _ _) = Some n"
| "op_session (DrawMenu n _) = Some n"
| "op_session (EndMenu n _) = Some n"
| "op_session (StopWatching n) = Some n"
| "op_session (CheckGame n) = Some n"
| "op_session (EnterGame n) = Some n"
| "op_session (EndVisit n _ _) = Some n"
| "op_session (ReportVisit n _) = Some n"
| "op_session (TellOthers n) = Some n"
| "op_session (GiveSeatBack n) = Some n"
| "op_session (EndShell n) = Some n"
| "op_session _ = None"

lemma op_session_ok: "op_session e = Some n \<Longrightarrow> arcade_op_ok e"
  by (cases e) auto

text \<open>By steps of its own, and whatever else is going on, a session at this stage comes to its end.\<close>

definition ends :: "arcade \<Rightarrow> nat \<Rightarrow> bool" where
  "ends a n \<longleftrightarrow>
     (\<exists>ops a'. (\<forall>e \<in> set ops. op_session e = Some n) \<and> arcade_run a ops = Some a' \<and> ar_sessions a' = (ar_sessions a)(n := None))"

definition can_end :: "stage \<Rightarrow> bool" where
  "can_end st \<longleftrightarrow> (\<forall>a n s. arcade_inv a \<longrightarrow> ar_sessions a n = Some s \<longrightarrow> ss_stage s = st \<longrightarrow> ends a n)"

lemma can_end_step:
  assumes op: "\<And>n. op_session (f n) = Some n"
    and step: "\<And>a n s a'. arcade_inv a \<Longrightarrow> ar_sessions a n = Some s \<Longrightarrow> ss_stage s = st \<Longrightarrow> arcade_exec a (f n) = Some a' \<Longrightarrow>
      (\<forall>m. m \<noteq> n \<longrightarrow> ar_sessions a' m = ar_sessions a m) \<and> (\<exists>s'. ar_sessions a' n = Some s' \<and> can_end (ss_stage s'))"
  shows "can_end st"
  unfolding can_end_def
proof (intro allI impI)
  fix a n s
  assume a: "arcade_inv a" "ar_sessions a n = Some s" "ss_stage s = st"
  obtain b where b: "arcade_exec a (f n) = Some b" "arcade_inv b"
    using arcade_exec_inv [OF a(1) op_session_ok [OF op [of n]]] by blast
  from step [OF a b(1)] have rest: "\<forall>m. m \<noteq> n \<longrightarrow> ar_sessions b m = ar_sessions a m" and "ends b n"
    using b(2) by (auto simp: can_end_def)
  then obtain ops c where c: "\<forall>e \<in> set ops. op_session e = Some n" "arcade_run b ops = Some c" "ar_sessions c = (ar_sessions b)(n := None)"
    unfolding ends_def by blast
  moreover have "(ar_sessions b)(n := None) = (ar_sessions a)(n := None)" using rest by (auto simp: fun_eq_iff)
  ultimately show "ends a n" unfolding ends_def using b(1) op by (intro exI [of _ "f n # ops"] exI [of _ c]) simp
qed

definition no_reading :: reading where
  "no_reading = \<lparr>rg_now = 0, rg_now2 = 0, rg_seen = [], rg_time = 0, rg_fault = False\<rparr>"

lemma end_Gone: "can_end Gone"
  unfolding can_end_def ends_def
proof (intro allI impI)
  fix a n s assume "arcade_inv a" "ar_sessions a n = Some s" "ss_stage s = Gone"
  then show "\<exists>ops a'. (\<forall>e\<in>set ops. op_session e = Some n) \<and> arcade_run a ops = Some a' \<and> ar_sessions a' = (ar_sessions a)(n := None)"
    by (intro exI [of _ "[EndShell n]"] exI [of _ "end_shell a n s"]) (simp add: on_session_def end_shell_def)
qed

lemma end_Admitted: "can_end Admitted"
  by (rule can_end_step [of RefuseTerminal]) (auto simp: on_session_def refuse_terminal_def end_Gone)

lemma end_Leaving: "can_end Leaving"
  by (rule can_end_step [of GiveSeatBack]) (auto simp: on_session_def give_seat_back_def end_Gone)

lemma end_MenuOver_none: "can_end (MenuOver c KindNone)"
  by (rule can_end_step [of StopWatching]) (auto simp: on_session_def stop_watching_def end_Leaving split: bind_splits)

lemma end_InMenu: "can_end (InMenu c bp m)"
  by (rule can_end_step [of "\<lambda>n. EndMenu n True"])
    (auto simp: on_session_def end_menu_def end_MenuOver_none split: bind_splits)

lemma end_Watching: "can_end (Watching c)"
  by (rule can_end_step [of "\<lambda>n. ShowMenu n no_reading 0 0"])
    (auto simp: on_session_def show_menu_def end_InMenu split_def Let_def)

lemma end_Present: "can_end Present"
  by (rule can_end_step [of WatchGames]) (auto simp: on_session_def watch_games_def end_Watching split_def Let_def)

lemma end_Touched: "can_end Touched"
  by (rule can_end_step [of TakeSeat]) (auto simp: on_session_def take_seat_def end_Present split_def Let_def)

lemma end_Reported: "can_end (Reported changed gone)"
  by (rule can_end_step [of TellOthers]) (auto simp: on_session_def tell_others_def end_Leaving end_Present split: bind_splits)

lemma end_Returned: "can_end (Returned g err gone)"
  by (rule can_end_step [of "\<lambda>n. ReportVisit n 0"]) (auto simp: on_session_def report_visit_def end_Reported split_def Let_def)

lemma end_Playing: "can_end (Playing g)"
  by (rule can_end_step [of "\<lambda>n. EndVisit n None True"]) (auto simp: on_session_def end_visit_def end_Returned)

lemma end_Entering: "can_end (Entering g)"
  by (rule can_end_step [of EnterGame]) (auto simp: on_session_def enter_game_def end_Playing)

lemma end_Chosen: "can_end (Chosen g)"
  by (rule can_end_step [of CheckGame]) (auto simp: on_session_def check_game_def end_Present end_Entering split: sum.splits)

lemma end_MenuOver: "can_end (MenuOver c res)"
  by (rule can_end_step [of StopWatching])
    (auto simp: on_session_def stop_watching_def end_Leaving end_Chosen split: bind_splits Result.splits)

lemmas every_end = end_Admitted end_Touched end_Present end_Watching end_InMenu end_MenuOver end_Chosen end_Entering end_Playing
  end_Returned end_Reported end_Leaving end_Gone

lemma session_ends: "arcade_inv a \<Longrightarrow> ar_sessions a n = Some s \<Longrightarrow> ends a n"
  using every_end by (cases "ss_stage s") (auto simp: can_end_def)

lemma arcade_run_append: "arcade_run a (xs @ ys) = Option.bind (arcade_run a xs) (\<lambda>b. arcade_run b ys)"
  by (induction xs arbitrary: a) (simp_all add: bind_assoc)

text \<open>One after the other, all of them.\<close>

lemma arcade_empties:
  "arcade_inv a \<Longrightarrow> \<exists>ops a'. (\<forall>e \<in> set ops. op_session e \<noteq> None) \<and> arcade_run a ops = Some a' \<and> ar_sessions a' = Map.empty"
proof (induction "card (dom (ar_sessions a))" arbitrary: a rule: less_induct)
  case less
  have fin: "finite (dom (ar_sessions a))" using less.prems by (simp add: arcade_inv_def budgets_inv_def)
  show ?case
  proof (cases "ar_sessions a = Map.empty")
    case True
    then show ?thesis by (intro exI [of _ "[]"] exI [of _ a]) simp
  next
    case False
    then obtain n s where s: "ar_sessions a n = Some s" by (auto simp: fun_eq_iff)
    from session_ends [OF less.prems s] obtain ops b where b: "\<forall>e \<in> set ops. op_session e = Some n" "arcade_run a ops = Some b"
      "ar_sessions b = (ar_sessions a)(n := None)" unfolding ends_def by blast
    have "arcade_inv b" using arcade_run_inv [OF less.prems, of ops] b(1,2) op_session_ok by fastforce
    moreover have "dom (ar_sessions b) = dom (ar_sessions a) - {n}" using b(3) by auto
    then have "card (dom (ar_sessions b)) < card (dom (ar_sessions a))" using fin s by (intro psubset_card_mono) auto
    ultimately obtain ops' c where "\<forall>e \<in> set ops'. op_session e \<noteq> None" "arcade_run b ops' = Some c" "ar_sessions c = Map.empty"
      using less.hyps by blast
    then show ?thesis using b by (intro exI [of _ "ops @ ops'"] exI [of _ c]) (auto simp: arcade_run_append)
  qed
qed

lemma owns_nothing: "owns Map.empty F \<Longrightarrow> F = Map.empty"
  using ownsD(2) [of Map.empty F] by (force simp: fun_eq_iff)

lemma members_nothing: "owns Map.empty (members R) \<Longrightarrow> R = {}"
  using owns_nothing [of "members R"] by (auto simp: members_def fun_eq_iff split: if_splits)

text \<open>With no session left, everything is as in the beginning.\<close>

lemma quiet:
  assumes inv: "arcade_inv a" and none: "ar_sessions a = Map.empty"
  shows "global (ar_limits a) = 0" "guests (ar_limits a) = 0" "perKey (ar_limits a) = Map.empty" "perIP (ar_limits a) = Map.empty"
    "subs (r_hub (ar_registry a)) = {}" "banner_subs (ar_banner a) = {}" "t_seats (ar_tracker a) = {}"
proof -
  note i = arcade_invD [OF inv]
  have "limits_rel (ar_limits a) {#}" using i(2) none by (simp add: budgets_inv_def limits_inv_def live_def)
  then show "global (ar_limits a) = 0" "guests (ar_limits a) = 0" "perKey (ar_limits a) = Map.empty" "perIP (ar_limits a) = Map.empty"
    by (auto simp: limits_rel_def guest_count_def tallies_def fun_eq_iff)
  show "subs (r_hub (ar_registry a)) = {}" "banner_subs (ar_banner a) = {}"
    using i(3,4) by (simp_all add: pokes_inv_def notices_inv_def none members_nothing)
  have "floor_of (ar_tracker a) = Map.empty" "tracker_inv (ar_tracker a)" using i(5) owns_nothing by (auto simp: floor_inv_def none)
  then show "t_seats (ar_tracker a) = {}" by (auto simp: floor_of_def tracker_inv_def fun_eq_iff split: if_splits)
qed

text \<open>The distinct players of the seated sessions with a property.\<close>

definition players :: "arcade \<Rightarrow> (session \<Rightarrow> bool) \<Rightarrow> int" where
  "players a P = int (card {PresenceKey (ss_id s) | s n. ar_sessions a n = Some s \<and> stage_seated (ss_stage s) \<and> P s})"

lemma session_counts:
  assumes "arcade_inv a" "iteration (ar_tracker a) order"
  shows "c_Players (Counts (ar_tracker a) order) = players a (\<lambda>_. True)"
    "c_Sessions (Counts (ar_tracker a) order) = int (card (sessions_with a (\<lambda>s. stage_seated (ss_stage s))))"
    "c_InLobby (Counts (ar_tracker a) order) = players a (\<lambda>s. stage_place (ss_stage s) = [])"
    "i \<noteq> [] \<Longrightarrow> getd (c_Games (Counts (ar_tracker a) order)) i = players a (\<lambda>s. stage_place (ss_stage s) = i)"
proof -
  let ?f = "session_floor a"
  have seat: "?f n = Some (fp, p) \<longleftrightarrow>
      (\<exists>s. ar_sessions a n = Some s \<and> stage_seated (ss_stage s) \<and> fp = PresenceKey (ss_id s) \<and> p = stage_place (ss_stage s))" for n fp p
    by (auto simp: session_floor_def held_def seat_of_def split: bind_splits)
  have "fst ` ran ?f = {PresenceKey (ss_id s) | s n. ar_sessions a n = Some s \<and> stage_seated (ss_stage s) \<and> True}"
    by (force simp: ran_def seat image_iff)
  then show "c_Players (Counts (ar_tracker a) order) = players a (\<lambda>_. True)"
    unfolding Counts_sessions [OF assms] players_def by (simp add: floor_counts_def)
  have "dom ?f = sessions_with a (\<lambda>s. stage_seated (ss_stage s))" by (force simp: sessions_with_def dom_def seat)
  then show "c_Sessions (Counts (ar_tracker a) order) = int (card (sessions_with a (\<lambda>s. stage_seated (ss_stage s))))"
    unfolding Counts_sessions [OF assms] by (simp add: floor_counts_def)
  have "players_at ?f p = {PresenceKey (ss_id s) | s n. ar_sessions a n = Some s \<and> stage_seated (ss_stage s) \<and> stage_place (ss_stage s) = p}" for p
    by (force simp: players_at_def ran_def seat)
  then have p: "int (card (players_at ?f p)) = players a (\<lambda>s. stage_place (ss_stage s) = p)" for p by (simp add: players_def)
  then show "c_InLobby (Counts (ar_tracker a) order) = players a (\<lambda>s. stage_place (ss_stage s) = [])"
    unfolding Counts_sessions [OF assms] by (simp add: floor_counts_def)
  show "getd (c_Games (Counts (ar_tracker a) order)) i = players a (\<lambda>s. stage_place (ss_stage s) = i)" if "i \<noteq> []"
    unfolding Counts_sessions [OF assms] p [symmetric] using that by (simp add: floor_counts_def getd_def)
qed

lemma Games_id: "reg_inv r \<Longrightarrow> st \<in> set (Games r) \<Longrightarrow> g_ID (gs_Game st) \<noteq> []"
  by (auto simp: reg_inv_def games_ok_def Games_def status_of_def idPattern_def list_all_iff split: option.splits)

lemma stage_place_game: "i \<noteq> [] \<Longrightarrow> stage_place st = i \<longleftrightarrow> (\<exists>g. st = Playing g \<and> g_ID g = i)"
  by (cases st) auto

lemma booted_run:
  assumes "boot w = Some (es, Inr r)" "store_inv (ro_store r)" "\<forall>e \<in> set ops. arcade_op_ok e"
  shows "\<exists>a. arcade_run (arcade_of r) ops = Some a \<and> arcade_inv a \<and> settings a = settings (arcade_of r) \<and> running a"
proof -
  have "router_ok r" by (rule boot_ok(2) [OF assms(1)])
  then have "running (arcade_of r)" by (simp add: running_def arcade_of_def router_ok_def reg_up_def banner_up_def)
  moreover obtain a where "arcade_run (arcade_of r) ops = Some a" "arcade_inv a"
    using arcade_run_inv [OF boot_arcade [OF assms(1,2)] assms(3)] by blast
  ultimately show ?thesis using arcade_run_keeps [OF _ assms(3)] by (auto simp: keeps_def)
qed

section \<open>An example\<close>

lemma NewServer_guard:
  assumes "fst (NewServer mkdir lib os created c fs) = Inr sv"
  shows "sv_guard sv = server_guard (c_MaxPendingAuth c) (c_MaxConnections c) (c_AuthTimeout c) (c_MaxGuestSessions c) (c_MaxGuestSessionsPerIP c)"
  using assms by (auto simp: NewServer_def split: option.splits sum.splits prod.splits if_splits)

lemma boot_guard:
  assumes "boot w = Some (es, Inr r)"
  shows "sv_guard (ro_server r) = server_guard (c_MaxPendingAuth (ro_config r)) (c_MaxConnections (ro_config r))
    (c_AuthTimeout (ro_config r)) (c_MaxGuestSessions (ro_config r)) (c_MaxGuestSessionsPerIP (ro_config r))"
proof -
  obtain c where "c = ro_config r" "fst (NewServer (w_mkdir w) (w_keylib w) (w_keyOs w) (w_created w) c (w_files w)) = Inr (ro_server r)"
    using assms by (auto simp: boot_def Let_def split: sum.splits option.splits)
  then show ?thesis using NewServer_guard by metis
qed

definition example_ops :: "arcade_op list" where
  "example_ops =
     [AcceptConn ''10.0.0.1:5000'' 100, TryAuth 0 (KeyAttempt \<lparr>key_Type = ''ssh-ed25519'', key_Marshal = ''own''\<rparr> True),
      StartShell 0 ''scout'' [], TouchStore 0 True (\<lambda>_. []) 5, TakeSeat 0]"

lemma example_ops_ok: "\<forall>e \<in> set example_ops. arcade_op_ok e"
  by (simp add: example_ops_def)

lemma example_visit:
  assumes "boot w = Some (es, Inr r)" 
  shows "\<exists>a s. arcade_run (arcade_of r) example_ops = Some a \<and> ar_sessions a 0 = Some s \<and> ss_stage s = Present
    \<and> ss_id s = NewKeyed (Some \<lparr>key_Type = ''ssh-ed25519'', key_Marshal = ''own''\<rparr>) ''scout'' \<and> ar_store a = Some (ro_store r)"
proof -
  have "config_ok (ro_config r)" using boot_ok(1) [OF assms] by (rule Load_config_ok)
  then have c: "0 < c_MaxPendingAuth (ro_config r)" "1 \<le> c_MaxConnections (ro_config r)" "1 \<le> c_MaxSessionsPerKey (ro_config r)"
    by (simp_all add: config_ok_def)
  then have "\<not> c_MaxPendingAuth (ro_config r) \<le> 0" "\<not> c_MaxConnections (ro_config r) + c_MaxPendingAuth (ro_config r) \<le> 0"
    "\<not> c_MaxConnections (ro_config r) \<le> 0" "\<not> c_MaxSessionsPerKey (ro_config r) \<le> 0" by linarith+
  moreover have "id_Kind (NewKeyed (Some k) u) = Keyed" for k u by (simp add: NewKeyed_def Let_def)
  ultimately show ?thesis
    using boot_guard [OF assms] boot_ok(5) [OF assms]
    by (simp add: example_ops_def arcade_of_def accept_conn_def WrapConn_def wrap_def server_guard_def newAuthGuard_def
        SetDeadline_def upd_conn_def try_auth_def publicKeyAuth_def AuthLogCallback_def start_shell_def put_session_def
        resolveIdentity_keyed Validate_NewKeyed acquire_def getd_def NewSessionLimits_def on_session_def touch_store_def touch_session_def TouchAccount_def take_seat_def Let_def split_def split: option.split)
qed

lemma confirm_acked:
  assumes "id_Kind (ss_id s) = Keyed" "m_alphaOpen m" "m_alphaDontShow m" "Playable (rg_seen rg) (alpha_id m) (m_guest m) = Inr st"
    "idPattern (alpha_id m)" "\<not> rg_fault rg" "ar_store a = Some t" "id_Fingerprint (ss_id s) \<noteq> []"
  shows "acked (ar_store (deliver_msg a n s poke bp m rg (KeyPressMsg ''enter''))) (id_Fingerprint (ss_id s)) (alpha_id m)"
proof -
  let ?p = "\<lparr>sp_store = Some t, sp_fingerprint = id_Fingerprint (ss_id s), sp_now = rg_time rg, sp_fault = rg_fault rg\<rparr>"
  let ?m0 = "m\<lparr>m_prefs := Some (KeyedPrefs ?p), m_lastInput := rg_now rg\<rparr>"
  obtain m1 cmd where c: "confirmAlpha prefs_ack (env_now a rg) ?m0 = (m1, cmd)" by force
  have e: "e_games (env_now a rg) = rg_seen rg" "e_now (env_now a rg) = rg_now rg" by (simp_all add: env_now_def)
  have "alpha_id ?m0 = alpha_id m" by (simp add: alpha_id_def)
  then have m1: "m_prefs m1 = Some (KeyedPrefs (session_AckAlpha ?p (alpha_id m)))"
    using confirmAlpha_prefs [of prefs_ack "env_now a rg" ?m0] assms(3,4) by (simp add: c e)
  have u: "Update prefs_has prefs_ack (env_now a rg) (KeyPressMsg ''enter'') (m\<lparr>m_prefs := Some (KeyedPrefs ?p)\<rparr>) = (m1, cmd, False)"
    using assms(2) c by (simp add: Update_def handleKey_def e Let_def)
  have p: "session_prefs a s (rg_time rg) (rg_fault rg) = KeyedPrefs ?p" using assms(1,7) by (simp add: session_prefs_def)
  have "ar_store (deliver_msg a n s poke bp m rg (KeyPressMsg ''enter'')) = sp_store (session_AckAlpha ?p (alpha_id m))"
    unfolding deliver_msg_def p Let_def u by (simp add: m1)
  then show ?thesis
    using assms(5,6,8) by (simp add: acked_def session_AckAlpha_def AckAlphaWarning_cases ack_fault_def validateKeys_def)
qed

lemma Open_store_inv:
  assumes "Open mkdir opened mode readFault fault t = Some (Inr t')" "store_inv t"
  shows "store_inv t'"
proof -
  have "migrate readFault fault t = Some (None, t')"
    using assms(1) by (auto simp: Open_def split: if_splits option.splits)
  then show ?thesis using assms(2)
    by (auto simp: migrate_def migrations_def store_inv_def drop_Cons split: if_splits nat.splits option.splits)
qed

lemma example_boot: "\<exists>es r. boot example_world = Some (es, Inr r) \<and> store_inv (ro_store r) \<and> ro_store r = empty_tables"
proof -
  obtain es r where r: "boot example_world = Some (es, Inr r)" using example_world_boots by blast
  have t: "ro_store r = empty_tables"
    using boot_ok(7) [OF r] by (simp add: example_world_def Open_def verifyWAL_def migrate_def migrations_def empty_tables_def)
  then have "store_inv (ro_store r)" by (simp add: store_inv_def empty_tables_def)
  with r t show ?thesis by blast
qed

text \<open>The player of the example opens the dialogue of an alpha game and checks its box.\<close>

definition alpha_farm :: GameStatus where
  "alpha_farm = (example_status ''farm'' True True)\<lparr>gs_Game := (gs_Game (example_status ''farm'' True True))\<lparr>g_AlphaWarning := True\<rparr>\<rparr>"

lemma alpha_farm_simps [simp]:
  "g_ID (gs_Game alpha_farm) = ''farm''" "g_AlphaWarning (gs_Game alpha_farm)" "gs_Online alpha_farm"
  by (simp_all add: alpha_farm_def example_status_def example_entry_def)

definition example_reading :: reading where
  "example_reading = \<lparr>rg_now = 5, rg_now2 = 6, rg_seen = [alpha_farm], rg_time = 7, rg_fault = False\<rparr>"

definition example_dialogue_ops :: "arcade_op list" where
  "example_dialogue_ops =
     [WatchGames 0, ShowMenu 0 example_reading 80 24, DeliverMsg 0 example_reading (KeyPressMsg ''enter''),
      DeliverMsg 0 example_reading (KeyPressMsg ''space'')]"

lemma keep_prefs_id: "ss_id (snd (keep_prefs a s p)) = ss_id s"
  by (cases "(a, s, p)" rule: keep_prefs.cases) auto

lemma deliver_plain:
  assumes "Update prefs_has prefs_ack (env_now a rg) msg (m\<lparr>m_prefs := Some (session_prefs a s (rg_time rg) (rg_fault rg))\<rparr>) = (m1, cmd, False)"
    "m_prefs m1 = Some (session_prefs a s (rg_time rg) (rg_fault rg))"
  shows "deliver_msg a n s poke bp m rg msg = to_stage a n s (InMenu poke bp m1)"
  using assms by (simp add: deliver_msg_def session_prefs_def)

lemma example_dialogue:
  assumes s: "ar_sessions a 0 = Some s" "ss_stage s = Present" "id_Kind (ss_id s) = Keyed" "id_Fingerprint (ss_id s) \<noteq> []"
    and t: "ar_store a = Some empty_tables"
  shows "\<exists>a' s' poke bp m. arcade_run a example_dialogue_ops = Some a' \<and> ar_sessions a' 0 = Some s' \<and> ss_stage s' = InMenu poke bp m
    \<and> ss_id s' = ss_id s \<and> m_alphaOpen m \<and> m_alphaDontShow m \<and> alpha_id m = ''farm'' \<and> \<not> m_guest m"
proof -
  let ?rg = example_reading 
  obtain c reg where w: "Subscribe (ar_registry a) = (c, reg)" by force
  define a1 where "a1 = to_stage (a\<lparr>ar_registry := reg\<rparr>) 0 s (Watching c)"
  define s1 where "s1 = s\<lparr>ss_stage := Watching c\<rparr>"
  obtain bp ban where b: "(case ar_banner a of None \<Rightarrow> (None, None) | Some b \<Rightarrow> (let (c, b') = Subscribe_banner b in (Some c, Some b'))) = (bp, ban)"
    by force
  define p where "p = session_prefs a1 s1 7 False"
  define m where "m = NewLobby (env_now a1 ?rg) (ar_banner a \<noteq> None) True (bp \<noteq> None) (id_Fingerprint (ss_id s)) (Some p) 80 24 (ar_idle a) (ss_flash s) False"
  have m: "m_games m = [alpha_farm]" "m_cursor m = 0" "\<not> m_alphaOpen m" "\<not> m_aboutOpen m" "\<not> m_guest m" "m_prefs m = Some p"
    by (simp_all add: m_def NewLobby_eq refreshGames_def refreshBanner_def setFlash_def Let_def env_now_def example_reading_def)
  define a2 where "a2 = to_stage (a1\<lparr>ar_banner := ban\<rparr>) 0 s1 (InMenu c bp m)"
  define s2 where "s2 = s1\<lparr>ss_stage := InMenu c bp m\<rparr>"
  have p: "p = KeyedPrefs \<lparr>sp_store = Some empty_tables, sp_fingerprint = id_Fingerprint (ss_id s), sp_now = 7, sp_fault = False\<rparr>"
    using s t by (simp add: p_def session_prefs_def a1_def s1_def)
  then have new: "\<not> prefs_has p ''farm''" by (simp add: session_HasAlphaAck_def HasAlphaAck_def sql_count_acks_def empty_tables_def)
  have e: "e_games (env_now x ?rg) = [alpha_farm]" "e_now (env_now x ?rg) = 5" for x by (simp_all add: env_now_def example_reading_def)
  have p2: "session_prefs x y (rg_time ?rg) (rg_fault ?rg) = p" if "ss_id y = ss_id s" "ar_store x = Some empty_tables" for x y
    using that s by (simp add: p session_prefs_def example_reading_def)
  have same: "m\<lparr>m_prefs := Some p\<rparr> = m" using m(6) by (simp add: p)
  define m1 where "m1 = m\<lparr>m_lastInput := 5, m_alphaOpen := True, m_alphaGame := Some alpha_farm, m_alphaDontShow := False\<rparr>"
  have "Update prefs_has prefs_ack (env_now a2 ?rg) (KeyPressMsg ''enter'') (m\<lparr>m_prefs := Some p\<rparr>) = (m1, NoCmd, False)"
    using m new by (simp add: same Update_def handleKey_def activate_def needsAlphaWarning_def e m1_def Let_def)
  then have d1: "deliver_msg a2 0 s2 c bp m ?rg (KeyPressMsg ''enter'') = to_stage a2 0 s2 (InMenu c bp m1)"
    by (intro deliver_plain) (simp_all add: p2 a2_def a1_def s2_def s1_def t m m1_def)
  define a3 where "a3 = to_stage a2 0 s2 (InMenu c bp m1)"
  define s3 where "s3 = s2\<lparr>ss_stage := InMenu c bp m1\<rparr>"
  have same1: "m1\<lparr>m_prefs := Some p\<rparr> = m1" using m(6) by (simp add: m1_def)
  define m2 where "m2 = m1\<lparr>m_alphaDontShow := True\<rparr>"
  have "Update prefs_has prefs_ack (env_now a3 ?rg) (KeyPressMsg ''space'') (m1\<lparr>m_prefs := Some p\<rparr>) = (m2, NoCmd, False)"
    unfolding same1 by (simp add: Update_def handleKey_def e m1_def m2_def Let_def)
  then have d2: "deliver_msg a3 0 s3 c bp m1 ?rg (KeyPressMsg ''space'') = to_stage a3 0 s3 (InMenu c bp m2)"
    by (intro deliver_plain) (simp_all add: p2 a3_def a2_def a1_def s3_def s2_def s1_def t m m1_def m2_def)
  have "arcade_exec a (WatchGames 0) = Some a1" using s w by (simp add: on_session_def watch_games_def a1_def)
  moreover have "arcade_exec a1 (ShowMenu 0 ?rg 80 24) = Some a2"
    using b s by (simp add: on_session_def show_menu_def a2_def m_def a1_def s1_def p_def example_reading_def)
  moreover have "arcade_exec a2 (DeliverMsg 0 ?rg (KeyPressMsg ''enter'')) = Some a3"
    using d1 by (simp add: on_session_def a3_def s2_def [symmetric]) (simp add: a2_def s2_def)
  moreover have "arcade_exec a3 (DeliverMsg 0 ?rg (KeyPressMsg ''space'')) = Some (to_stage a3 0 s3 (InMenu c bp m2))"
    using d2 by (simp add: on_session_def) (simp add: a3_def s3_def)
  ultimately show ?thesis
    using m by (simp add: example_dialogue_ops_def s3_def s2_def s1_def m2_def m1_def alpha_id_def)
qed

lemma example_reached:
  obtains es r a s poke bp m where "boot example_world = Some (es, Inr r)" "store_inv (ro_store r)"
    "arcade_run (arcade_of r) (example_ops @ example_dialogue_ops) = Some a" "\<forall>e \<in> set (example_ops @ example_dialogue_ops). arcade_op_ok e"
    "ar_sessions a 0 = Some s" "ss_stage s = InMenu poke bp m" "id_Kind (ss_id s) = Keyed"
    "m_alphaOpen m" "m_alphaDontShow m" "alpha_id m = ''farm''" "\<not> m_guest m"
proof -
  obtain es r where r: "boot example_world = Some (es, Inr r)" "store_inv (ro_store r)" and t: "ro_store r = empty_tables"
    using example_boot by blast
  obtain a s where v: "arcade_run (arcade_of r) example_ops = Some a" "ar_sessions a 0 = Some s" "ss_stage s = Present"
    "ss_id s = NewKeyed (Some \<lparr>key_Type = ''ssh-ed25519'', key_Marshal = ''own''\<rparr>) ''scout''" "ar_store a = Some (ro_store r)"
    using example_visit [OF r(1)] by blast
  have i: "id_Kind (ss_id s) = Keyed" "id_Fingerprint (ss_id s) \<noteq> []" by (simp_all add: v(4) NewKeyed_def Let_def Fingerprint_def)
  from example_dialogue [OF v(2,3) i v(5) [unfolded t]] obtain b s' poke bp m where
    d: "arcade_run a example_dialogue_ops = Some b" "ar_sessions b 0 = Some s'" "ss_stage s' = InMenu poke bp m" "ss_id s' = ss_id s"
      "m_alphaOpen m" "m_alphaDontShow m" "alpha_id m = ''farm''" "\<not> m_guest m" by blast
  have run: "arcade_run (arcade_of r) (example_ops @ example_dialogue_ops) = Some b" using v(1) d(1) by (simp add: arcade_run_append)
  have ok: "\<forall>e \<in> set (example_ops @ example_dialogue_ops). arcade_op_ok e" by (simp add: example_ops_def example_dialogue_ops_def)
  have "id_Kind (ss_id s') = Keyed" using i(1) d(4) by simp
  from that [OF r run ok d(2,3) this d(5-8)] show thesis .
qed

section \<open>Properties\<close>

text \<open>
  (C2) Everybody is who they proved to be. Whatever connections, sessions and background tasks do, in
  any order, a booted router does not panic. Every session that is there is of a player whose own
  connection proved the key the session's identity is made of, under the user name of that session;
  or of a guest, where guests are allowed, whose own connection answered the guest prompt. And no session is in a game that is
  closed to it.
\<close>

theorem arcade_identities:
  assumes "boot w = Some (es, Inr r)" and "store_inv (ro_store r)" and "\<forall>e \<in> set ops. arcade_op_ok e"
  shows "\<exists>a. arcade_run (arcade_of r) ops = Some a
    \<and> (\<forall>n s. ar_sessions a n = Some s \<longrightarrow>
         ((\<exists>k. TryAuth (ss_conn s) (KeyAttempt k True) \<in> set ops \<and> ss_id s = NewKeyed (Some k) (ss_user s))
          \<or> (\<exists>answers. TryAuth (ss_conn s) (GuestAttempt answers) \<in> set ops
               \<and> c_AllowGuests (ro_config r) \<and> id_Kind (ss_id s) = Guest))
         \<and> (\<forall>g. stage_game (ss_stage s) = Some g \<longrightarrow> may_visit (ss_id s) g))"
proof -
  obtain a where a: "arcade_run (arcade_of r) ops = Some a" "arcade_inv a" "settings a = settings (arcade_of r)"
    using booted_run [OF assms] by blast
  have allow: "ar_allow a = c_AllowGuests (ro_config r)" using a(3) by (simp add: settings_def arcade_of_def)
  have made: "TryAuth d b \<in> set ops" if "ar_conns a d = Some cn" "cn_authed cn = Some b" for d cn b
    using arcade_run_authed [OF a(1) that] by (simp add: arcade_of_def)
  have "((\<exists>k. TryAuth (ss_conn s) (KeyAttempt k True) \<in> set ops \<and> ss_id s = NewKeyed (Some k) (ss_user s))
      \<or> (\<exists>answers. TryAuth (ss_conn s) (GuestAttempt answers) \<in> set ops \<and> c_AllowGuests (ro_config r) \<and> id_Kind (ss_id s) = Guest))
    \<and> (\<forall>g. stage_game (ss_stage s) = Some g \<longrightarrow> may_visit (ss_id s) g)" if s: "ar_sessions a n = Some s" for n s
  proof -
    have ok: "session_ok (ar_allow a) (ar_conns a) s" by (rule session_ok_in [OF arcade_invD(6) [OF a(2)] s])
    then obtain cn b where cn: "ar_conns a (ss_conn s) = Some cn" "cn_authed cn = Some b"
      and b: "case b of KeyAttempt k proved \<Rightarrow> proved \<and> ss_id s = NewKeyed (Some k) (ss_user s)
        | GuestAttempt _ \<Rightarrow> ar_allow a \<and> id_Kind (ss_id s) = Guest | _ \<Rightarrow> False"
      by (auto simp: session_ok_def split: option.splits)
    then show ?thesis
      using made [OF cn] ok by (auto simp: session_ok_def may_visit_def allow split: auth_attempt.splits)
  qed
  then show ?thesis using a(1) by blast
qed

theorem arcade_identities_witness:
  "\<exists>es r a s. boot example_world = Some (es, Inr r) \<and> arcade_run (arcade_of r) example_ops = Some a \<and> ar_sessions a 0 = Some s
     \<and> (\<exists>k. TryAuth (ss_conn s) (KeyAttempt k True) \<in> set example_ops \<and> ss_id s = NewKeyed (Some k) (ss_user s))"
proof -
  obtain es r where r: "boot example_world = Some (es, Inr r)" "store_inv (ro_store r)" using example_boot by blast
  obtain a s where v: "arcade_run (arcade_of r) example_ops = Some a" "ar_sessions a 0 = Some s" using example_visit [OF r(1)] by blast
  have "TryAuth c (GuestAttempt answers) \<notin> set example_ops" for c answers by (simp add: example_ops_def)
  with arcade_identities [OF r example_ops_ok] v r show ?thesis by fastforce
qed

text \<open>
  (C20) Every state is well formed. Whatever a booted router goes through, no step of it panics; every menu
  selects a game of its list, if it has any; a session waits on a channel exactly while it is subscribed:
  its channel is open and registered with the registry, no two sessions share one, and the registry has
  no subscriber but the sessions.
\<close>

theorem arcade_wellformed:
  assumes "boot w = Some (es, Inr r)" and "store_inv (ro_store r)" and "\<forall>e \<in> set ops. arcade_op_ok e"
  shows "\<exists>a. arcade_run (arcade_of r) ops = Some a
    \<and> (\<forall>n s poke bp m. ar_sessions a n = Some s \<and> ss_stage s = InMenu poke bp m \<longrightarrow>
         0 \<le> m_cursor m \<and> (m_games m \<noteq> [] \<longrightarrow> m_cursor m < int (length (m_games m))))
    \<and> (\<forall>n s c. ar_sessions a n = Some s \<and> stage_poke (ss_stage s) = Some c \<longrightarrow>
         c \<in> subs (r_hub (ar_registry a)) \<and> chan_open (r_hub (ar_registry a)) c
         \<and> (\<forall>n' s'. ar_sessions a n' = Some s' \<and> stage_poke (ss_stage s') = Some c \<longrightarrow> n' = n))
    \<and> (\<forall>c \<in> subs (r_hub (ar_registry a)). \<exists>n s. ar_sessions a n = Some s \<and> stage_poke (ss_stage s) = Some c)"
proof -
  obtain a where a: "arcade_run (arcade_of r) ops = Some a" "arcade_inv a" using booted_run [OF assms] by blast
  note o = ownsD [OF pokes_invD(2) [OF a(2)]]
  have held: "held poke_of (ar_sessions a) n = Some (c, ())" if "ar_sessions a n = Some s" "stage_poke (ss_stage s) = Some c" for n s c
    using that by (simp add: held_Some poke_of_def)
  have sub: "c \<in> subs (r_hub (ar_registry a))" if "ar_sessions a n = Some s" "stage_poke (ss_stage s) = Some c" for n s c
    using o(1) [OF held [OF that]] by (simp add: members_def split: if_splits)
  moreover have "chan_open (r_hub (ar_registry a)) c" if "c \<in> subs (r_hub (ar_registry a))" for c
    using that pokes_invD(1) [OF a(2)] by (simp add: reg_inv_def hub_inv_def)
  moreover have "n' = n" if "ar_sessions a n = Some s" "stage_poke (ss_stage s) = Some c"
    "ar_sessions a n' = Some s'" "stage_poke (ss_stage s') = Some c" for n s c n' s'
    using o(3) held [OF that(1,2)] held [OF that(3,4)] by blast
  moreover have "\<exists>n s. ar_sessions a n = Some s \<and> stage_poke (ss_stage s) = Some c" if "c \<in> subs (r_hub (ar_registry a))" for c
    using o(2) [of c "()"] that by (auto simp: members_def held_def poke_of_def bind_eq_Some_conv)
  moreover have "0 \<le> m_cursor m \<and> (m_games m \<noteq> [] \<longrightarrow> m_cursor m < int (length (m_games m)))"
    if "ar_sessions a n = Some s" "ss_stage s = InMenu poke bp m" for n s poke bp m
  proof -
    have "lobby_inv m" using arcade_invD(6) [OF a(2)] that by (auto simp: sessions_inv_def session_ok_def)
    then show ?thesis by (cases "m_games m") (auto simp: lobby_inv_def)
  qed
  ultimately show ?thesis using a(1) by (intro exI [of _ a]) blast
qed

theorem arcade_wellformed_witness:
  "\<exists>es r a s poke bp m. boot example_world = Some (es, Inr r) \<and> arcade_run (arcade_of r) (example_ops @ example_dialogue_ops) = Some a
     \<and> ar_sessions a 0 = Some s \<and> ss_stage s = InMenu poke bp m \<and> poke \<in> subs (r_hub (ar_registry a))"
proof -
  obtain es r a s poke bp m where x: "boot example_world = Some (es, Inr r)" "store_inv (ro_store r)"
    "arcade_run (arcade_of r) (example_ops @ example_dialogue_ops) = Some a" "\<forall>e \<in> set (example_ops @ example_dialogue_ops). arcade_op_ok e"
    "ar_sessions a 0 = Some s" "ss_stage s = InMenu poke bp m" by (rule example_reached)
  from arcade_wellformed [OF x(1,2,4)] x show ?thesis by fastforce
qed

text \<open>
  (C3) All budgets hold, under every interleaving and with the limits of the configuration: all sessions,
  those of one key, those of guests, and those of guests from one address.
\<close>

theorem arcade_budgets:
  assumes "boot w = Some (es, Inr r)" and "store_inv (ro_store r)" and "\<forall>e \<in> set ops. arcade_op_ok e"
  shows "\<exists>a. arcade_run (arcade_of r) ops = Some a
    \<and> int (card (dom (ar_sessions a))) \<le> c_MaxConnections (ro_config r)
    \<and> (\<forall>fp. int (card (sessions_with a (\<lambda>s. id_Kind (ss_id s) \<noteq> Guest \<and> id_Fingerprint (ss_id s) = fp)))
         \<le> c_MaxSessionsPerKey (ro_config r))
    \<and> int (card (sessions_with a (\<lambda>s. id_Kind (ss_id s) = Guest))) \<le> c_MaxGuestSessions (ro_config r)
    \<and> (\<forall>ip. int (card (sessions_with a (\<lambda>s. id_Kind (ss_id s) = Guest \<and> ss_ip s = ip)))
         \<le> c_MaxGuestSessionsPerIP (ro_config r))"
proof -
  obtain a where a: "arcade_run (arcade_of r) ops = Some a" "arcade_inv a" "settings a = settings (arcade_of r)"
    using booted_run [OF assms] by blast
  note b = boot_ok [OF assms(1)]
  have "maxGlobal (ar_limits a) = c_MaxConnections (ro_config r)" "maxPerKey (ar_limits a) = c_MaxSessionsPerKey (ro_config r)"
    "maxGuests (ar_limits a) = c_MaxGuestSessions (ro_config r)" "maxPerIP (ar_limits a) = c_MaxGuestSessionsPerIP (ro_config r)"
    using a(3) b(5) by (simp_all add: settings_def caps_def arcade_of_def NewSessionLimits_def)
  moreover have "config_ok (ro_config r)" by (rule Load_config_ok [OF b(1)])
  ultimately show ?thesis using a(1) sessions_within_caps [OF a(2)] by (simp add: config_ok_def)
qed

theorem arcade_budgets_witness:
  "\<exists>es r a. boot example_world = Some (es, Inr r) \<and> arcade_run (arcade_of r) example_ops = Some a \<and> ar_sessions a 0 \<noteq> None
     \<and> int (card (dom (ar_sessions a))) \<le> c_MaxConnections (ro_config r)"
proof -
  obtain es r where r: "boot example_world = Some (es, Inr r)" "store_inv (ro_store r)" using example_boot by blast
  with arcade_budgets [OF r example_ops_ok] example_visit [OF r(1)] show ?thesis by fastforce
qed

text \<open>
  (C6) The published counts are true. Whenever the publisher looks, in whatever order it iterates, the
  document it builds has the distinct players over all sessions past the door, those sessions, the
  distinct players that are in no game, and for each listed game the distinct players of the
  sessions that are bridged into it.
\<close>

theorem published_counts:
  assumes "boot w = Some (es, Inr r)" and "store_inv (ro_store r)" and "\<forall>e \<in> set ops. arcade_op_ok e"
  shows "\<exists>a. arcade_run (arcade_of r) ops = Some a
    \<and> (\<forall>order p now. iteration (ar_tracker a) order \<longrightarrow>
         (let doc = Build p True now (Counts (ar_tracker a) order) (Games (ar_registry a))
          in sn_TotalPlayers doc = players a (\<lambda>_. True)
             \<and> sn_Sessions doc = int (card (sessions_with a (\<lambda>s. stage_seated (ss_stage s))))
             \<and> sn_InLobby doc = players a (\<lambda>s. stage_place (ss_stage s) = [])
             \<and> list_all2 (\<lambda>sn st. sn_ID sn = g_ID (gs_Game st)
                  \<and> sn_Players sn = players a (\<lambda>s. \<exists>g. ss_stage s = Playing g \<and> g_ID g = g_ID (gs_Game st)))
                 (sn_Games doc) (Games (ar_registry a))))"
proof -
  obtain a where a: "arcade_run (arcade_of r) ops = Some a" "arcade_inv a" using booted_run [OF assms] by blast
  have id: "g_ID (gs_Game (Games (ar_registry a) ! i)) \<noteq> []" if "i < length (Games (ar_registry a))" for i
    using Games_id [OF pokes_invD(1) [OF a(2)]] that by simp
  show ?thesis
    using a(1) session_counts [OF a(2)] id
    by (simp add: Build_def game_snapshot_def Let_def list_all2_conv_all_nth stage_place_game)
qed

theorem published_counts_witness:
  "\<exists>es r a order. boot example_world = Some (es, Inr r) \<and> arcade_run (arcade_of r) example_ops = Some a \<and> iteration (ar_tracker a) order
     \<and> sn_TotalPlayers (Build \<lparr>p_opts = \<lparr>po_Path = [], po_Interval = 1\<rparr>, p_failing = False\<rparr> True 9 (Counts (ar_tracker a) order) (Games (ar_registry a))) = players a (\<lambda>_. True)"
proof -
  obtain es r where r: "boot example_world = Some (es, Inr r)" "store_inv (ro_store r)" using example_boot by blast
  obtain a where a: "arcade_run (arcade_of r) example_ops = Some a" "arcade_inv a" using booted_run [OF r example_ops_ok] by blast
  have "finite (t_seats (ar_tracker a))" using arcade_invD(5) [OF a(2)] by (simp add: floor_inv_def tracker_inv_def)
  then obtain order where "iteration (ar_tracker a) order" using finite_distinct_list by (metis iteration_def)
  with published_counts [OF r example_ops_ok] a r show ?thesis by (fastforce simp: Let_def)
qed

text \<open>
  (C7) Nothing is left behind. From every state a booted router can get into, whatever its sessions are
  doing, they can all end, by steps of their own and nothing else; and once they have, the session
  budgets are as untouched as in the beginning, nobody is subscribed to the registry or to the
  banner, and the published count is zero.
\<close>

theorem arcade_drains:
  assumes "boot w = Some (es, Inr r)" and "store_inv (ro_store r)" and "\<forall>e \<in> set ops. arcade_op_ok e"
  shows "\<exists>a ops' a'. arcade_run (arcade_of r) ops = Some a \<and> (\<forall>e \<in> set ops'. op_session e \<noteq> None)
    \<and> arcade_run a ops' = Some a' \<and> ar_sessions a' = Map.empty
    \<and> ar_limits a' = sv_limits (ro_server r) \<and> subs (r_hub (ar_registry a')) = {} \<and> banner_subs (ar_banner a') = {}
    \<and> (\<forall>order. iteration (ar_tracker a') order \<longrightarrow> c_Players (Counts (ar_tracker a') order) = 0 \<and> c_Sessions (Counts (ar_tracker a') order) = 0)"
proof -
  obtain a where a: "arcade_run (arcade_of r) ops = Some a" "arcade_inv a" "settings a = settings (arcade_of r)"
    using booted_run [OF assms] by blast
  obtain ops' a' where e: "\<forall>e \<in> set ops'. op_session e \<noteq> None" "arcade_run a ops' = Some a'" "ar_sessions a' = Map.empty"
    using arcade_empties [OF a(2)] by blast
  have ok: "\<forall>e \<in> set ops'. arcade_op_ok e" using e(1) op_session_ok by fastforce
  have inv: "arcade_inv a'" using arcade_run_inv [OF a(2) ok] e(2) by auto
  have "caps (ar_limits a') = caps (sv_limits (ro_server r))"
    using arcade_run_keeps [OF e(2) ok] a(3) by (simp add: keeps_def settings_def arcade_of_def)
  then have "ar_limits a' = sv_limits (ro_server r)"
    using quiet(1-4) [OF inv e(3)] unfolding boot_ok(5) [OF assms(1)]
    by (intro SessionLimits.equality) (simp_all add: caps_def NewSessionLimits_def)
  moreover have "players a' P = 0" "sessions_with a' P = {}" for P by (simp_all add: players_def sessions_with_def e(3))
  ultimately show ?thesis using a(1) e quiet(5,6) [OF inv e(3)] session_counts [OF inv] by auto
qed

theorem arcade_drains_witness:
  "\<exists>es r a s ops' a'. boot example_world = Some (es, Inr r) \<and> arcade_run (arcade_of r) example_ops = Some a
     \<and> ar_sessions a 0 = Some s \<and> arcade_run a ops' = Some a' \<and> ar_sessions a' = Map.empty"
proof -
  obtain es r where r: "boot example_world = Some (es, Inr r)" "store_inv (ro_store r)" using example_boot by blast
  with arcade_drains [OF r example_ops_ok] example_visit [OF r(1)] show ?thesis by fastforce
qed





end
