(* ===== verification/Watcher.thy ===== *)
theory Watcher
  imports Prober Banner "HOL-Library.Monad_Syntax"
begin

text \<open>
  The two loops that follow a file, \<^verbatim>\<open>loop\<close> of \<^verbatim>\<open>internal/registry/registry.go\<close> and of
  \<^verbatim>\<open>internal/banner/banner.go\<close>, and the SIGHUP watcher, one system call at a time: a pass of the loop
  stats the file, and if it changed stats it again, reads it and applies the result, while others
  write the file, sessions use the source, the ticker fires and signals arrive.

  Shown: no write is lost, whatever the timing, and a request for a reload takes effect.
\<close>

section \<open>A source that follows a file\<close>

text \<open>
  What the loop needs of a source: the modification time it remembers, what it does when its stat
  finds no file, what it does with the outcome of a load (the time of its own stat, and the stat and
  the content of \<^verbatim>\<open>loadFile\<close>), the buffered channel \<^verbatim>\<open>kick\<close>, and every other operation on it.
\<close>

record ('s, 'e) source =
  so_mtime :: "'s \<Rightarrow> int option"
  so_gone :: "'s \<Rightarrow> 's"
  so_apply :: "'s \<Rightarrow> int \<Rightarrow> int \<Rightarrow> int option \<Rightarrow> string option \<Rightarrow> 's"
  so_kicked :: "'s \<Rightarrow> bool"
  so_kick :: "bool \<Rightarrow> 's \<Rightarrow> 's"
  so_exec :: "'s \<Rightarrow> 'e \<Rightarrow> 's option"
  so_other :: "'e \<Rightarrow> bool"

definition registry_source :: "(string \<Rightarrow> fileGame list option) \<Rightarrow> (string \<Rightarrow> PublicKey option) \<Rightarrow> (Registry, reg_op) source" where
  "registry_source toml parse =
     \<lparr>so_mtime = (\<lambda>r. Some (r_mtime r)), so_gone = (\<lambda>r. r),
      so_apply = (\<lambda>r now mt stat raw. fst (reload_section r mt (loadFile toml parse stat raw) now)),
      so_kicked = r_kick, so_kick = (\<lambda>k r. r\<lparr>r_kick := k\<rparr>), so_exec = reg_exec,
      so_other = (\<lambda>e. case e of OpReload _ _ _ \<Rightarrow> False | OpKick \<Rightarrow> False | OpTakeKick \<Rightarrow> False | _ \<Rightarrow> True)\<rparr>"

definition banner_source :: "(string \<Rightarrow> bannerRoot option) \<Rightarrow> (BannerSource, banner_op) source" where
  "banner_source toml =
     \<lparr>so_mtime = bs_mtime, so_gone = (\<lambda>b. fst (removed_section b)),
      so_apply = (\<lambda>b now mt stat raw.
        fst (changed_section b mt (loadFile_banner toml (case stat of None \<Rightarrow> Missing | Some m \<Rightarrow> Modified m) raw))),
      so_kicked = bs_kick, so_kick = (\<lambda>k b. b\<lparr>bs_kick := k\<rparr>), so_exec = banner_exec,
      so_other = (\<lambda>e. case e of BRemoved \<Rightarrow> False | BChanged _ _ \<Rightarrow> False | BKick \<Rightarrow> False | _ \<Rightarrow> True)\<rparr>"

section \<open>The loop\<close>

text \<open>
  Where the loop is: before its stat; after a stat that found another time than the remembered one;
  after the stat and after the read of \<^verbatim>\<open>loadFile\<close>; past the reload, notifying and probing; in its
  \<^verbatim>\<open>select\<close>; or at its end.
\<close>

datatype phase =
    Looking
  | Stated int
  | Restated int "int option"
  | HasRead int "int option" "string option"
  | Working
  | Waiting
  | Ended

text \<open>
  The file is a modification time and a content, if it is there; \<open>wt_clock\<close> is later than every time a
  write has had so far. \<open>wt_signal\<close> is the buffer of the signal channel.
\<close>

record 's watch =
  wt_source :: 's
  wt_file :: "(int \<times> string) option"
  wt_clock :: int
  wt_phase :: phase
  wt_tick :: bool
  wt_signal :: bool
  wt_stop :: bool

text \<open>
  What can happen: the file is written (every write with a time of its own) or removed; the loop takes
  its next step, where a flag says that the system call fails though the file is there; the source is
  used otherwise; the ticker fires; a reload is requested; a signal arrives, and the watcher's
  goroutine calls \<^verbatim>\<open>ProbeNow\<close> for it; \<^verbatim>\<open>Close\<close> closes the channel \<^verbatim>\<open>stop\<close>.
\<close>

datatype 'e watch_op =
    FileWritten string
  | FileRemoved
  | Stat bool
  | Restat bool
  | Read bool
  | Apply int
  | WorkDone
  | Wake
  | WakeKick
  | WakeStop
  | Use 'e
  | Tick
  | Request
  | Signal
  | TakeSignal
  | Stop

definition watch_stat :: "('s, 'e) source \<Rightarrow> bool \<Rightarrow> 's watch \<Rightarrow> 's watch" where
  "watch_stat so failed w =
     (if failed then w\<lparr>wt_phase := Working\<rparr>
      else case wt_file w of
          None \<Rightarrow> w\<lparr>wt_source := so_gone so (wt_source w), wt_phase := Working\<rparr>
        | Some (mt, _) \<Rightarrow> w\<lparr>wt_phase := (if so_mtime so (wt_source w) = Some mt then Working else Stated mt)\<rparr>)"

definition watchSighup :: "('s, 'e) source \<Rightarrow> 's watch \<Rightarrow> 's watch" where
  "watchSighup so w = (if wt_signal w then w\<lparr>wt_signal := False, wt_source := so_kick so True (wt_source w)\<rparr> else w)"

fun watch_exec :: "('s, 'e) source \<Rightarrow> 's watch \<Rightarrow> 'e watch_op \<Rightarrow> 's watch option" where
  "watch_exec so w (FileWritten content) = Some (w\<lparr>wt_file := Some (wt_clock w, content), wt_clock := wt_clock w + 1\<rparr>)"
| "watch_exec so w FileRemoved = Some (w\<lparr>wt_file := None\<rparr>)"
| "watch_exec so w (Stat failed) = Some (case wt_phase w of Looking \<Rightarrow> watch_stat so failed w | _ \<Rightarrow> w)"
| "watch_exec so w (Restat failed) =
     Some (case wt_phase w of
         Stated mt \<Rightarrow> w\<lparr>wt_phase := Restated mt (if failed then None else map_option fst (wt_file w))\<rparr>
       | _ \<Rightarrow> w)"
| "watch_exec so w (Read failed) =
     Some (case wt_phase w of
         Restated mt stat \<Rightarrow> w\<lparr>wt_phase := HasRead mt stat (if failed then None else map_option snd (wt_file w))\<rparr>
       | _ \<Rightarrow> w)"
| "watch_exec so w (Apply now) =
     Some (case wt_phase w of
         HasRead mt stat raw \<Rightarrow> w\<lparr>wt_source := so_apply so (wt_source w) now mt stat raw, wt_phase := Working\<rparr>
       | _ \<Rightarrow> w)"
| "watch_exec so w WorkDone = Some (case wt_phase w of Working \<Rightarrow> w\<lparr>wt_phase := Waiting\<rparr> | _ \<Rightarrow> w)"
| "watch_exec so w Wake =
     Some (if wt_phase w = Waiting \<and> wt_tick w then w\<lparr>wt_tick := False, wt_phase := Looking\<rparr> else w)"
| "watch_exec so w WakeKick =
     Some (if wt_phase w = Waiting \<and> so_kicked so (wt_source w)
           then w\<lparr>wt_source := so_kick so False (wt_source w), wt_phase := Looking\<rparr> else w)"
| "watch_exec so w WakeStop = Some (if wt_phase w = Waiting \<and> wt_stop w then w\<lparr>wt_phase := Ended\<rparr> else w)"
| "watch_exec so w (Use e) = map_option (\<lambda>s. w\<lparr>wt_source := s\<rparr>) (so_exec so (wt_source w) e)"
| "watch_exec so w Tick = Some (w\<lparr>wt_tick := True\<rparr>)"
| "watch_exec so w Request = Some (w\<lparr>wt_source := so_kick so True (wt_source w)\<rparr>)"
| "watch_exec so w Signal = Some (if wt_stop w then w else w\<lparr>wt_signal := True\<rparr>)"
| "watch_exec so w TakeSignal = Some (watchSighup so w)"
| "watch_exec so w Stop = Some (w\<lparr>wt_stop := True\<rparr>)"

fun watch_run :: "('s, 'e) source \<Rightarrow> 's watch \<Rightarrow> 'e watch_op list \<Rightarrow> 's watch option" where
  "watch_run so w [] = Some w"
| "watch_run so w (e # es) = Option.bind (watch_exec so w e) (\<lambda>w'. watch_run so w' es)"

text \<open>Runs in which no system call fails on a file that is there, and the source is used as intended.\<close>

fun watch_op_ok :: "('s, 'e) source \<Rightarrow> 'e watch_op \<Rightarrow> bool" where
  "watch_op_ok so (Stat failed) = (\<not> failed)"
| "watch_op_ok so (Restat failed) = (\<not> failed)"
| "watch_op_ok so (Read failed) = (\<not> failed)"
| "watch_op_ok so (Use e) = so_other so e"
| "watch_op_ok so _ = True"

fun writes :: "'e watch_op \<Rightarrow> bool" where
  "writes (FileWritten _) = True"
| "writes FileRemoved = True"
| "writes _ = False"

definition asleep :: "('s, 'e) source \<Rightarrow> 's watch \<Rightarrow> bool" where
  "asleep so w \<longleftrightarrow> wt_phase w = Waiting \<and> \<not> so_kicked so (wt_source w) \<and> \<not> wt_signal w"

text \<open>The loop starts with a pass, over what \<^verbatim>\<open>New\<close> loaded: the file as it was at some time before.\<close>

definition watch_start :: "'s \<Rightarrow> (int \<times> string) option \<Rightarrow> int \<Rightarrow> 's watch" where
  "watch_start s file clock =
     \<lparr>wt_source = s, wt_file = file, wt_clock = clock, wt_phase = Looking, wt_tick = False, wt_signal = False, wt_stop = False\<rparr>"

section \<open>No write is lost\<close>

text \<open>
  The contract of a source. \<open>displays s c\<close>: the source is as the content \<open>c\<close> says, or \<open>c\<close> is not acceptable.
\<close>

locale file_source =
  fixes so :: "('s, 'e) source" and displays :: "'s \<Rightarrow> string \<Rightarrow> bool"
  assumes apply_mtime: "so_mtime so (so_apply so s now mt stat raw) = Some mt \<or> so_mtime so (so_apply so s now mt stat raw) = stat"
    and apply_same: "so_mtime so (so_apply so s now mt (Some mt) raw) = Some mt"
    and apply_fresh: "so_mtime so (so_apply so s now mt stat raw) = stat \<Longrightarrow> stat = Some m \<Longrightarrow> raw = Some c \<Longrightarrow> displays (so_apply so s now mt stat raw) c"
    and apply_kicked: "so_kicked so (so_apply so s now mt stat raw) = so_kicked so s"
    and gone_mtime: "so_mtime so (so_gone so s) = None \<or> so_gone so s = s"
    and gone_kicked: "so_kicked so (so_gone so s) = so_kicked so s"
    and kick_simps: "so_kicked so (so_kick so k s) = k" "so_mtime so (so_kick so k s) = so_mtime so s" "displays (so_kick so k s) = displays s"
    and exec_keeps: "so_exec so s e = Some s' \<Longrightarrow> so_other so e \<Longrightarrow>
      so_mtime so s' = so_mtime so s \<and> so_kicked so s' = so_kicked so s \<and> displays s' = displays s"
begin

text \<open>
  Every time that is remembered is older than the clock; a time that is still that of the file means
  that nothing was written since it was taken.
\<close>

definition fresh :: "'s watch \<Rightarrow> bool" where
  "fresh w \<longleftrightarrow>
     (\<forall>m. so_mtime so (wt_source w) = Some m \<longrightarrow> m < wt_clock w)
     \<and> (\<forall>m c. wt_file w = Some (m, c) \<longrightarrow> m < wt_clock w
          \<and> (so_mtime so (wt_source w) = Some m \<longrightarrow> displays (wt_source w) c)
          \<and> (case wt_phase w of
               Restated m1 st \<Rightarrow> m1 = m \<longrightarrow> st = Some m
             | HasRead m1 st raw \<Rightarrow> (m1 = m \<longrightarrow> st = Some m) \<and> (st = Some m \<longrightarrow> raw = Some c)
             | _ \<Rightarrow> True))
     \<and> (case wt_phase w of
          Stated m1 \<Rightarrow> m1 < wt_clock w
        | Restated m1 st \<Rightarrow> m1 < wt_clock w \<and> (\<forall>m. st = Some m \<longrightarrow> m < wt_clock w)
        | HasRead m1 st raw \<Rightarrow> m1 < wt_clock w \<and> (\<forall>m. st = Some m \<longrightarrow> m < wt_clock w)
        | _ \<Rightarrow> True)"

lemma fresh_displays: "fresh w \<Longrightarrow> wt_file w = Some (m, c) \<Longrightarrow> so_mtime so (wt_source w) = Some m \<Longrightarrow> displays (wt_source w) c"
  by (simp add: fresh_def)

lemma fresh_start:
  assumes "\<And>k. so_mtime so s = Some k \<Longrightarrow> k < clock" "m < clock" "so_mtime so s = Some m \<Longrightarrow> displays s c"
  shows "fresh (watch_start s (Some (m, c)) clock)"
  using assms by (simp add: fresh_def watch_start_def)

lemma fresh_apply:
  assumes "fresh w" "wt_phase w = HasRead m1 st raw"
  shows "fresh (w\<lparr>wt_source := so_apply so (wt_source w) now m1 st raw, wt_phase := Working\<rparr>)"
proof -
  let ?s = "so_apply so (wt_source w) now m1 st raw"
  have mt: "so_mtime so ?s = Some m1 \<or> so_mtime so ?s = st" by (rule apply_mtime)
  have "displays ?s c" if f: "wt_file w = Some (m, c)" and m: "so_mtime so ?s = Some m" for m c
  proof -
    have "st = Some m" "raw = Some c" using assms f m mt by (auto simp: fresh_def)
    then show ?thesis using apply_fresh [of "wt_source w" now m1 st raw m c] m by simp
  qed
  then show ?thesis using assms mt by (auto simp: fresh_def)
qed

lemma fresh_step:
  assumes "fresh w" "watch_exec so w e = Some w'" "watch_op_ok so e"
  shows "fresh w'"
proof (cases e)
  case (Apply now)
  then show ?thesis using assms fresh_apply by (cases "wt_phase w") auto
next
  case (Stat failed)
  then show ?thesis using assms gone_mtime [of "wt_source w"]
    by (cases "wt_phase w") (auto simp: fresh_def watch_stat_def split: if_splits option.splits)
next
  case (Use x)
  then obtain s where "so_exec so (wt_source w) x = Some s" "w' = w\<lparr>wt_source := s\<rparr>" using assms(2) by auto
  then show ?thesis using assms Use exec_keeps [of "wt_source w" x s] by (cases "wt_phase w") (simp_all add: fresh_def)
next
  case (Restat failed)
  then show ?thesis using assms by (cases "wt_phase w") (auto simp: fresh_def)
next
  case (Read failed)
  then show ?thesis using assms by (cases "wt_phase w") (auto simp: fresh_def)
next
  case (FileWritten c)
  then show ?thesis using assms by (cases "wt_phase w") (auto simp: fresh_def)
qed (use assms in \<open>cases "wt_phase w"; auto simp: fresh_def watchSighup_def kick_simps split: if_splits\<close>)+

lemma fresh_run: "watch_run so w es = Some w' \<Longrightarrow> \<forall>e \<in> set es. watch_op_ok so e \<Longrightarrow> fresh w \<Longrightarrow> fresh w'"
proof (induction es arbitrary: w)
  case (Cons e es)
  then obtain v where "watch_exec so w e = Some v" "watch_run so v es = Some w'" by (auto split: bind_splits)
  with Cons show ?case using fresh_step [of w e v] by simp
qed simp

text \<open>On the way to the file as it is: a pass is due, or under way since the last write, or done.\<close>

definition heading :: "'s watch \<Rightarrow> int \<Rightarrow> bool" where
  "heading w m \<longleftrightarrow> so_kicked so (wt_source w) \<or> wt_signal w
     \<or> (case wt_phase w of
          Looking \<Rightarrow> True
        | Stated m1 \<Rightarrow> m1 = m
        | Restated m1 st \<Rightarrow> m1 = m \<and> st = Some m
        | HasRead m1 st raw \<Rightarrow> m1 = m \<and> st = Some m
        | Ended \<Rightarrow> True
        | _ \<Rightarrow> so_mtime so (wt_source w) = Some m)"

lemma file_step: "watch_exec so w e = Some w' \<Longrightarrow> \<not> writes e \<Longrightarrow> wt_file w' = wt_file w"
  by (cases e; cases "wt_phase w") (auto simp: watch_stat_def watchSighup_def split: option.splits if_splits)

lemma heading_step:
  assumes "heading w m" "wt_file w = Some (m, c)" "watch_exec so w e = Some w'" "watch_op_ok so e" "\<not> writes e"
  shows "heading w' m"
proof (cases e)
  case (Use x)
  then obtain s where "so_exec so (wt_source w) x = Some s" "w' = w\<lparr>wt_source := s\<rparr>" using assms(3) by auto
  then show ?thesis using assms Use exec_keeps [of "wt_source w" x s] by (cases "wt_phase w") (simp_all add: heading_def)
next
  case (Apply now)
  then show ?thesis using assms by (cases "wt_phase w") (auto simp: heading_def apply_same apply_kicked)
qed (use assms in \<open>cases "wt_phase w"; auto simp: heading_def watch_stat_def watchSighup_def kick_simps split: if_splits\<close>)+

lemma heading_run:
  "watch_run so w es = Some w' \<Longrightarrow> \<forall>e \<in> set es. watch_op_ok so e \<and> \<not> writes e \<Longrightarrow> wt_file w = Some (m, c) \<Longrightarrow> heading w m
   \<Longrightarrow> heading w' m \<and> wt_file w' = Some (m, c)"
proof (induction es arbitrary: w)
  case (Cons e es)
  then obtain v where v: "watch_exec so w e = Some v" "watch_run so v es = Some w'" by (auto split: bind_splits)
  moreover have "heading v m" using heading_step [OF Cons.prems(4,3) v(1)] Cons.prems(2) by simp
  moreover have "wt_file v = Some (m, c)" using file_step [OF v(1)] Cons.prems(2,3) by simp
  ultimately show ?case using Cons by simp
qed simp

text \<open>A request made after the last write: when the loop sleeps again, the source is as the file says.\<close>

lemma request_takes_effect:
  assumes "fresh w" "wt_file w = Some (m, c)" "e = Request \<or> e = Signal \<and> \<not> wt_stop w"
    "watch_run so w (e # es) = Some w'" "\<forall>e \<in> set es. watch_op_ok so e \<and> \<not> writes e" "asleep so w'"
  shows "so_mtime so (wt_source w') = Some m \<and> displays (wt_source w') c"
proof -
  obtain v where v: "watch_exec so w e = Some v" "watch_run so v es = Some w'" using assms(4) by (auto split: bind_splits)
  have ok: "watch_op_ok so e" "\<not> writes e" using assms(3) by auto
  have "heading v m" using assms(3) v(1) by (auto simp: heading_def kick_simps)
  moreover have "wt_file v = Some (m, c)" using file_step [OF v(1) ok(2)] assms(2) by simp
  ultimately have h: "heading w' m" "wt_file w' = Some (m, c)" using heading_run [OF v(2) assms(5)] by auto
  then have mt: "so_mtime so (wt_source w') = Some m" using assms(6) by (auto simp: heading_def asleep_def)
  have "fresh w'" using fresh_run [OF v(2) _ fresh_step [OF assms(1) v(1) ok(1)]] assms(5) by simp
  with h mt show ?thesis by (auto simp: fresh_def)
qed

text \<open>And it does come to sleep, by steps of the loop and of the signal watcher alone, unless it ends.\<close>

definition rank :: "'s watch \<Rightarrow> nat" where
  "rank w = (if wt_signal w then 20 else 0) + (if so_kicked so (wt_source w) then 10 else 0)
     + (case wt_phase w of Looking \<Rightarrow> 6 | Stated _ \<Rightarrow> 5 | Restated _ _ \<Rightarrow> 4 | HasRead _ _ _ \<Rightarrow> 3 | Working \<Rightarrow> 2 | Waiting \<Rightarrow> 1 | Ended \<Rightarrow> 0)"

definition next_op :: "'s watch \<Rightarrow> 'e watch_op" where
  "next_op w =
     (case wt_phase w of
        Looking \<Rightarrow> Stat False
      | Stated _ \<Rightarrow> Restat False
      | Restated _ _ \<Rightarrow> Read False
      | HasRead _ _ _ \<Rightarrow> Apply 0
      | Working \<Rightarrow> WorkDone
      | _ \<Rightarrow> if so_kicked so (wt_source w) then WakeKick else TakeSignal)"

lemma next_op_ok: "watch_op_ok so (next_op w)" "\<not> writes (next_op w)"
  by (simp_all add: next_op_def split: phase.split)

lemma next_op_progress:
  assumes "\<not> asleep so w" "wt_phase w \<noteq> Ended"
  shows "\<exists>w'. watch_exec so w (next_op w) = Some w' \<and> rank w' < rank w"
  using assms by (cases "wt_phase w")
    (auto simp: next_op_def asleep_def rank_def watch_stat_def watchSighup_def kick_simps apply_kicked gone_kicked split: option.split)

lemma settles:
  "\<exists>es w'. (\<forall>e \<in> set es. watch_op_ok so e \<and> \<not> writes e) \<and> watch_run so w es = Some w' \<and> (asleep so w' \<or> wt_phase w' = Ended)"
proof (induction "rank w" arbitrary: w rule: less_induct)
  case less
  show ?case
  proof (cases "asleep so w \<or> wt_phase w = Ended")
    case True
    then show ?thesis by (intro exI [of _ "[]"] exI [of _ w]) simp
  next
    case False
    then obtain v where v: "watch_exec so w (next_op w) = Some v" "rank v < rank w" using next_op_progress by blast
    with less obtain es w' where "\<forall>e \<in> set es. watch_op_ok so e \<and> \<not> writes e" "watch_run so v es = Some w'"
      "asleep so w' \<or> wt_phase w' = Ended" by blast
    then show ?thesis using v(1) next_op_ok by (intro exI [of _ "next_op w # es"] exI [of _ w']) simp
  qed
qed

end

section \<open>The registry and the banner\<close>

definition registry_displays :: "(string \<Rightarrow> fileGame list option) \<Rightarrow> (string \<Rightarrow> PublicKey option) \<Rightarrow> Registry \<Rightarrow> string \<Rightarrow> bool" where
  "registry_displays toml parse r c = (case loadFile toml parse (Some 0) (Some c) of Inl _ \<Rightarrow> True | Inr (games, _) \<Rightarrow> r_games r = games)"

definition banner_displays :: "(string \<Rightarrow> bannerRoot option) \<Rightarrow> BannerSource \<Rightarrow> string \<Rightarrow> bool" where
  "banner_displays toml b c = (case loadFile_banner toml (Modified 0) (Some c) of Inl _ \<Rightarrow> True | Inr (notice, _) \<Rightarrow> bs_notice b = notice)"

text \<open>What a source remembers of its file, and its kick.\<close>

definition reg_memory :: "Registry \<Rightarrow> int \<times> bool \<times> Game list" where
  "reg_memory r = (r_mtime r, r_kick r, r_games r)"

lemma reg_memory_upd [simp]:
  "reg_memory (r\<lparr>r_hub := h\<rparr>) = reg_memory r" "reg_memory (r\<lparr>r_closed := c\<rparr>) = reg_memory r"
  "reg_memory (r\<lparr>r_health := m\<rparr>) = reg_memory r" "reg_memory (Start r) = reg_memory r"
  "reg_memory (snd (Subscribe r)) = reg_memory r" "reg_memory (fst (report_section r i now)) = reg_memory r"
  "reg_memory (fst (probe_section r results now)) = reg_memory r"
  by (simp_all add: reg_memory_def Start_def Subscribe_def report_section_def probe_section_def split_def Let_def split: option.split)

lemma map_option_keeps: "map_option f x = Some y \<Longrightarrow> (\<And>h. g (f h) = a) \<Longrightarrow> g y = a"
  by auto

lemma reg_other_keeps:
  assumes "reg_exec r e = Some r'" "so_other (registry_source toml parse) e"
  shows "reg_memory r' = reg_memory r"
proof (cases e)
  case OpNotify
  then have "notify r = Some r'" using assms(1) by simp
  then show ?thesis unfolding notify_def by (rule map_option_keeps [where g = reg_memory]) simp
next
  case (OpUnsubscribe c)
  then have "Unsubscribe r c = Some r'" using assms(1) by simp
  then show ?thesis unfolding Unsubscribe_def by (rule map_option_keeps [where g = reg_memory]) simp
next
  case OpClose
  then have c: "Close r = Some r'" using assms(1) by simp
  show ?thesis
  proof (cases "r_closed r")
    case False
    from c [unfolded Close_def if_not_P [OF False]] show ?thesis by (rule map_option_keeps [where g = reg_memory]) simp
  next
    case True
    from c [unfolded Close_def if_P [OF True]] show ?thesis by simp
  qed
qed (use assms in \<open>auto simp: registry_source_def\<close>)

interpretation registry_file: file_source "registry_source toml parse" "registry_displays toml parse" for toml parse
proof unfold_locales
  show "so_exec (registry_source toml parse) s e = Some s' \<Longrightarrow> so_other (registry_source toml parse) e \<Longrightarrow>
      so_mtime (registry_source toml parse) s' = so_mtime (registry_source toml parse) s
      \<and> so_kicked (registry_source toml parse) s' = so_kicked (registry_source toml parse) s
      \<and> registry_displays toml parse s' = registry_displays toml parse s" for s e s'
    using reg_other_keeps [of s e s' toml parse] by (auto simp: registry_source_def reg_memory_def registry_displays_def fun_eq_iff split: sum.split)
qed (auto simp: registry_source_def registry_displays_def reload_section_def loadFile_def fun_eq_iff split: option.splits sum.splits)

definition banner_memory :: "BannerSource \<Rightarrow> int option \<times> bool \<times> Notice" where
  "banner_memory b = (bs_mtime b, bs_kick b, bs_notice b)"

lemma banner_memory_upd [simp]:
  "banner_memory (b\<lparr>bs_hub := h\<rparr>) = banner_memory b" "banner_memory (b\<lparr>bs_closed := c\<rparr>) = banner_memory b"
  "banner_memory (Start_banner b) = banner_memory b" "banner_memory (snd (Subscribe_banner b)) = banner_memory b"
  by (simp_all add: banner_memory_def Start_banner_def Subscribe_banner_def split_def Let_def)

lemma banner_other_keeps:
  assumes "banner_exec b e = Some b'" "so_other (banner_source toml) e"
  shows "banner_memory b' = banner_memory b"
proof (cases e)
  case BNotify
  then have "notify_banner b = Some b'" using assms(1) by simp
  then show ?thesis unfolding notify_banner_def by (rule map_option_keeps [where g = banner_memory]) simp
next
  case (BUnsubscribe c)
  then have "Unsubscribe_banner b c = Some b'" using assms(1) by simp
  then show ?thesis unfolding Unsubscribe_banner_def by (rule map_option_keeps [where g = banner_memory]) simp
next
  case BClose
  then have c: "Close_banner b = Some b'" using assms(1) by simp
  show ?thesis
  proof (cases "bs_closed b")
    case False
    from c [unfolded Close_banner_def if_not_P [OF False]] show ?thesis by (rule map_option_keeps [where g = banner_memory]) simp
  next
    case True
    from c [unfolded Close_banner_def if_P [OF True]] show ?thesis by simp
  qed
qed (use assms in \<open>auto simp: banner_source_def\<close>)

interpretation banner_file: file_source "banner_source toml" "banner_displays toml" for toml
proof unfold_locales
  show "so_exec (banner_source toml) s e = Some s' \<Longrightarrow> so_other (banner_source toml) e \<Longrightarrow>
      so_mtime (banner_source toml) s' = so_mtime (banner_source toml) s \<and> so_kicked (banner_source toml) s' = so_kicked (banner_source toml) s
      \<and> banner_displays toml s' = banner_displays toml s" for s e s'
    using banner_other_keeps [of s e s' toml] by (auto simp: banner_source_def banner_memory_def banner_displays_def fun_eq_iff split: sum.split)
qed (auto simp: banner_source_def banner_displays_def changed_section_def removed_section_def loadFile_banner_def fun_eq_iff
    split: option.splits sum.splits if_splits)

section \<open>Properties\<close>

lemma source_mtime [simp]:
  "so_mtime (registry_source toml parse) r = Some (r_mtime r)" "so_mtime (banner_source toml') b = bs_mtime b"
  by (simp_all add: registry_source_def banner_source_def)

lemma NewRegistry_displays:
  assumes "NewRegistry opts t0 (loadFile toml parse (Some m0) (Some c0)) = Inr r"
  shows "r_mtime r = m0" "registry_displays toml parse r c0"
  using assms by (auto simp: NewRegistry_def loadFile_def registry_displays_def split: option.splits sum.splits)



text \<open>
  The banner's loop, which has no signal watcher, follows its file in the same way.
\<close>

theorem banner_follows_file:
  assumes "b0 = NewBanner interval (loadFile_banner toml (Modified m0) (Some c0))"
    and "m0 < clock" and "m1 < clock" and "m1 = m0 \<longrightarrow> c1 = c0"
    and "watch_run (banner_source toml) (watch_start b0 (Some (m1, c1)) clock) es = Some w"
    and "\<forall>e \<in> set es. watch_op_ok (banner_source toml) e"
    and "wt_file w = Some (m, c)" and "bs_mtime (wt_source w) = Some m"
  shows "banner_displays toml (wt_source w) c"
proof -
  have b: "bs_mtime b0 = Some k \<Longrightarrow> k = m0" "bs_mtime b0 = Some m0 \<Longrightarrow> banner_displays toml b0 c0" for k
    using assms(1) by (auto simp: NewBanner_def loadFile_banner_def banner_displays_def Let_def split: option.splits sum.splits if_splits)
  have "banner_file.fresh toml (watch_start b0 (Some (m1, c1)) clock)"
    by (rule banner_file.fresh_start) (use b assms(2-4) in auto)
  with banner_file.fresh_run [OF assms(5,6)] have "banner_file.fresh toml w" by blast
  from banner_file.fresh_displays [OF this assms(7)] assms(8) show ?thesis by simp
qed

text \<open>
  A read that fails once is not repeated: the time of the file is remembered all the same, and a good
  file goes unnoticed until it is written again.
\<close>

lemma failed_read_sticks:
  assumes "wt_file w = Some (m, c)" "wt_phase w = Restated m (Some m)"
    "watch_run (registry_source toml parse) w [Read True, Apply now] = Some w'"
  shows "r_mtime (wt_source w') = m" "r_games (wt_source w') = r_games (wt_source w)"
  using assms by (auto simp: registry_source_def reload_section_def loadFile_def)

end
