(* ===== verification/Bridge_Session.thy ===== *)
theory Bridge_Session
  imports Bridge "HOL-Library.Sublist"
begin

text \<open>
  The part of \<^verbatim>\<open>bridge.Run\<close> while the game session is up: three goroutines that copy the player's
  keystrokes, forward window changes and watch the player's connection, next to the call that waits
  for the game; and, from \<^verbatim>\<open>internal/testutil/fakegame.go\<close>, the game's side of the connection, which
  handles the requests the bridge sends and records what it saw.

  Shown: the game gets the player's bytes unchanged and in order, nothing is lost while both sides
  are up, the connection to the game is closed whenever \<open>Run\<close> has returned; and a game sees the
  player's identity, terminal and window as they are.
\<close>

section \<open>The running bridge\<close>

text \<open>
  \<open>Copying chunk\<close> is the moment between reading a chunk of the player's input and the end of its write
  to the game. \<open>bl_offered\<close> is all input read so far, \<open>bl_copied\<close> what the game's standard input got;
  \<open>bl_resizes\<close> are the window changes received and \<open>bl_forwarded\<close> those passed on.
\<close>

datatype copier = CopyReading | Copying string | CopyDone

record live =
  bl_copier :: copier
  bl_offered :: string
  bl_copied :: string
  bl_stdin :: bool
  bl_winch :: bool
  bl_resizes :: "window list"
  bl_forwarded :: "window list"
  bl_watch :: bool
  bl_gone :: bool
  bl_client :: bool
  bl_stop :: bool
  bl_result :: "bridge_error option option"

definition live_start :: live where
  "live_start =
     \<lparr>bl_copier = CopyReading, bl_offered = [], bl_copied = [], bl_stdin = True, bl_winch = True, bl_resizes = [],
      bl_forwarded = [], bl_watch = True, bl_gone = False, bl_client = True, bl_stop = False, bl_result = None\<rparr>"

definition copy_read :: "live \<Rightarrow> string \<Rightarrow> live" where
  "copy_read b chunk = b\<lparr>bl_copier := Copying chunk, bl_offered := bl_offered b @ chunk\<rparr>"

text \<open>
  The end of \<^verbatim>\<open>io.Copy\<close> and the \<^verbatim>\<open>stdin.Close()\<close> after it; the write of a chunk, which delivers it whole
  while the client is open and otherwise fails after some of its bytes, which ends the copying.
\<close>

definition copy_end :: "live \<Rightarrow> live" where
  "copy_end b = b\<lparr>bl_copier := CopyDone, bl_stdin := False\<rparr>"

definition copy_write :: "live \<Rightarrow> nat \<Rightarrow> live" where
  "copy_write b n =
     (case bl_copier b of
        Copying chunk \<Rightarrow>
          if bl_client b then b\<lparr>bl_copier := CopyReading, bl_copied := bl_copied b @ chunk\<rparr>
          else copy_end (b\<lparr>bl_copied := bl_copied b @ take n chunk\<rparr>)
      | _ \<Rightarrow> b)"

text \<open>A window change; an error of \<^verbatim>\<open>WindowChange\<close> is ignored.\<close>

definition winch_forward :: "live \<Rightarrow> window \<Rightarrow> live" where
  "winch_forward b w =
     b\<lparr>bl_resizes := bl_resizes b @ [w], bl_forwarded := (if bl_client b then bl_forwarded b @ [w] else bl_forwarded b)\<rparr>"

definition winch_end :: "live \<Rightarrow> live" where
  "winch_end b = b\<lparr>bl_winch := False\<rparr>"

definition player_gone :: "live \<Rightarrow> live" where
  "player_gone b = b\<lparr>bl_gone := True\<rparr>"

definition watch_close :: "live \<Rightarrow> live" where
  "watch_close b = b\<lparr>bl_watch := False, bl_client := False\<rparr>"

definition watch_end :: "live \<Rightarrow> live" where
  "watch_end b = b\<lparr>bl_watch := False\<rparr>"

text \<open>\<^verbatim>\<open>Wait\<close> returns: the result of \<open>Run\<close>, and its deferred calls, which close \<^verbatim>\<open>stop\<close> and the client.\<close>

definition wait_error :: "wait_result \<Rightarrow> bridge_error option" where
  "wait_error r =
     (case r of CleanExit \<Rightarrow> None | ExitStatus n \<Rightarrow> Some (ExitError n) | WaitFailed \<Rightarrow> Some ErrConnectionLost)"

definition run_return :: "live \<Rightarrow> wait_result \<Rightarrow> live" where
  "run_return b r = b\<lparr>bl_result := Some (wait_error r), bl_stop := True, bl_client := False\<rparr>"

inductive live_step :: "live \<Rightarrow> live \<Rightarrow> bool" where
  l_read: "bl_copier b = CopyReading \<Longrightarrow> chunk \<noteq> [] \<Longrightarrow> live_step b (copy_read b chunk)"
| l_write: "live_step b (copy_write b n)"
| l_eof: "bl_copier b = CopyReading \<Longrightarrow> live_step b (copy_end b)"
| l_winch: "bl_winch b \<Longrightarrow> live_step b (winch_forward b w)"
| l_winch_closed: "bl_winch b \<Longrightarrow> live_step b (winch_end b)"
| l_gone: "live_step b (player_gone b)"
| l_watch: "bl_watch b \<Longrightarrow> bl_gone b \<Longrightarrow> live_step b (watch_close b)"
| l_watch_stop: "bl_watch b \<Longrightarrow> bl_stop b \<Longrightarrow> live_step b (watch_end b)"
| l_return: "bl_result b = None \<Longrightarrow> live_step b (run_return b r)"

inductive_cases live_stepE: "live_step b b'"

definition pending_chunk :: "live \<Rightarrow> string" where
  "pending_chunk b = (case bl_copier b of Copying chunk \<Rightarrow> chunk | _ \<Rightarrow> [])"

definition live_inv :: "live \<Rightarrow> bool" where
  "live_inv b \<longleftrightarrow>
     (bl_copier b \<noteq> CopyDone \<longrightarrow> bl_offered b = bl_copied b @ pending_chunk b)
     \<and> prefix (bl_copied b) (bl_offered b)
     \<and> (bl_stdin b \<longleftrightarrow> bl_copier b \<noteq> CopyDone)
     \<and> subseq (bl_forwarded b) (bl_resizes b) \<and> (bl_client b \<longrightarrow> bl_forwarded b = bl_resizes b)
     \<and> (bl_stop b \<longleftrightarrow> bl_result b \<noteq> None) \<and> (bl_stop b \<longrightarrow> \<not> bl_client b)
     \<and> (bl_client b \<or> bl_gone b \<or> bl_stop b) \<and> (bl_client b \<longrightarrow> bl_watch b)"

lemmas live_defs = copy_read_def copy_end_def copy_write_def winch_forward_def winch_end_def player_gone_def
  watch_close_def watch_end_def run_return_def pending_chunk_def

lemma live_start_inv: "live_inv live_start"
  by (simp add: live_inv_def live_start_def pending_chunk_def)

lemma copy_write_inv: "live_inv b \<Longrightarrow> live_inv (copy_write b n)"
  by (auto simp: live_inv_def live_defs take_is_prefix same_prefix_prefix split: copier.splits)

lemma winch_forward_inv: "live_inv b \<Longrightarrow> live_inv (winch_forward b w)"
  by (auto simp: live_inv_def live_defs intro: list_emb_append2 subseq_order.order_trans [OF _ subseq_rev_drop_many])

lemma live_step_inv: "live_inv b \<Longrightarrow> live_step b b' \<Longrightarrow> live_inv b'"
  by (erule live_stepE)
    (simp_all add: copy_write_inv winch_forward_inv, auto simp: live_inv_def live_defs)

interpretation live: machine "\<lambda>b. b = live_start" live_step live_inv
  by unfold_locales (simp add: live_start_inv, fact live_step_inv)

section \<open>The game's side\<close>

text \<open>
  A channel request as the game sees it; the payload is \<open>None\<close> when it does not decode. Sizes travel as
  32-bit numbers.
\<close>

datatype request =
    PtyReq "(string \<times> int \<times> int) option"
  | EnvReq "(string \<times> string) option"
  | WindowReq "(int \<times> int) option"
  | ShellReq
  | OtherReq

record SessionRecord =
  rec_User :: string
  rec_WireKey :: "PublicKey option"
  rec_Env :: "string \<rightharpoonup> string"
  rec_Term :: string
  rec_Width :: int
  rec_Height :: int
  rec_winches :: "(int \<times> int) list"

text \<open>The record of a new channel: the user name of the connection and the key that authenticated it.\<close>

definition new_record :: "string \<Rightarrow> PublicKey option \<Rightarrow> SessionRecord" where
  "new_record user key =
     \<lparr>rec_User = user, rec_WireKey = key, rec_Env = Map.empty, rec_Term = [], rec_Width = 0, rec_Height = 0, rec_winches = []\<rparr>"

definition addWinch :: "SessionRecord \<Rightarrow> int \<Rightarrow> int \<Rightarrow> SessionRecord" where
  "addWinch r w h = r\<lparr>rec_winches := rec_winches r @ [(w, h)]\<rparr>"

text \<open>\<open>handleSession\<close>: the record, whether the shell has started, and the replies to the requests in order.\<close>

fun handleSession :: "SessionRecord \<Rightarrow> bool \<Rightarrow> request list \<Rightarrow> SessionRecord \<times> bool \<times> bool list" where
  "handleSession r started [] = (r, started, [])"
| "handleSession r started (q # qs) =
     (let (r', started', reply) =
            (case q of
               PtyReq (Some (term, w, h)) \<Rightarrow> (r\<lparr>rec_Term := term, rec_Width := w, rec_Height := h\<rparr>, started, True)
             | EnvReq (Some (name, value)) \<Rightarrow> (r\<lparr>rec_Env := (rec_Env r)(name \<mapsto> value)\<rparr>, started, True)
             | WindowReq (Some (w, h)) \<Rightarrow> (addWinch r w h, started, True)
             | ShellReq \<Rightarrow> (r, True, \<not> started)
             | _ \<Rightarrow> (r, started, False));
          (r'', started'', replies) = handleSession r' started' qs
      in (r'', started'', reply # replies))"

text \<open>What the bridge sends, as requests on the game's channel; the connection itself is not one.\<close>

definition u32 :: "int \<Rightarrow> int" where
  "u32 n = n mod 2 ^ 32"

fun requests :: "sent list \<Rightarrow> request list" where
  "requests [] = []"
| "requests (Dial _ _ _ _ # ss) = requests ss"
| "requests (Setenv n v # ss) = EnvReq (Some (n, v)) # requests ss"
| "requests (RequestPty t h w # ss) = PtyReq (Some (t, u32 w, u32 h)) # requests ss"
| "requests (Shell # ss) = ShellReq # requests ss"
| "requests (WindowChange h w # ss) = WindowReq (Some (u32 w, u32 h)) # requests ss"

lemma u32_small: "0 \<le> n \<Longrightarrow> n < 2 ^ 32 \<Longrightarrow> u32 n = n"
  by (simp add: u32_def)

lemma Run_all_sent:
  assumes "may_visit i game" "dialWithTimeout net (bridge_user i (NewToken rnd)) (g_HostKey game) = None"
    "up_session up" "up_stdin up" "up_pty up" "up_shell up"
  shows "requests (snd (Run net up marshal rnd sess game timeout i)) =
    (case (id_Kind i, id_PublicKey i) of (Keyed, Some k) \<Rightarrow> [EnvReq (Some (EnvPlayerKey, TrimSpace (marshal k)))] | _ \<Rightarrow> [])
    @ [PtyReq (Some (ps_term sess, u32 (w_Width (ps_window sess)), u32 (w_Height (ps_window sess)))), ShellReq]
    @ (if ps_hasPty sess then [WindowReq (Some (u32 (w_Width (ps_current sess)), u32 (w_Height (ps_current sess))))] else [])"
  using assms by (auto simp: Run_def may_visit_def Let_def split: Kind.split option.split wait_result.split)

section \<open>Properties\<close>



text \<open>
  What a game sees of a player. When a visit gets through, the requests the bridge sends are all
  granted by a game that handles them as the test game does, the shell starts once, and the game
  has then recorded the terminal and the window of the player's session, its current window size,
  the key of a keyed player in the environment and none for a guest.
\<close>

theorem game_sees_player:
  assumes "may_visit i game" and "dialWithTimeout net (bridge_user i (NewToken rnd)) (g_HostKey game) = None"
    and "up_session up" "up_stdin up" "up_pty up" "up_shell up"
    and "0 \<le> w_Width (ps_window sess)" "w_Width (ps_window sess) < 2 ^ 32"
    and "0 \<le> w_Height (ps_window sess)" "w_Height (ps_window sess) < 2 ^ 32"
    and "handleSession (new_record user key) False (requests (snd (Run net up marshal rnd sess game timeout i))) = (r, started, replies)"
  shows "started \<and> list_all (\<lambda>ok. ok) replies \<and> rec_User r = user \<and> rec_WireKey r = key \<and> rec_Term r = ps_term sess
    \<and> rec_Width r = w_Width (ps_window sess) \<and> rec_Height r = w_Height (ps_window sess)
    \<and> rec_winches r = (if ps_hasPty sess then [(u32 (w_Width (ps_current sess)), u32 (w_Height (ps_current sess)))] else [])
    \<and> rec_Env r = (case id_PublicKey i of
          Some k \<Rightarrow> if id_Kind i = Keyed then [EnvPlayerKey \<mapsto> TrimSpace (marshal k)] else Map.empty | None \<Rightarrow> Map.empty)"
  using assms(11) u32_small [OF assms(7,8)] u32_small [OF assms(9,10)]
  unfolding Run_all_sent [OF assms(1-6)]
  by (auto simp: new_record_def addWinch_def Let_def split: Kind.splits option.splits if_splits)

theorem game_sees_player_witness:
  "\<exists>r replies. handleSession (new_record ''u'' None) False
       (requests (snd (Run example_net \<lparr>up_session = True, up_stdin = True, up_pty = True, up_shell = True, up_wait = CleanExit\<rparr>
         (\<lambda>_. []) (replicate 16 (CHR ''x'')) example_session example_game 0 (NewGuest (replicate 16 (CHR ''y'')))))) = (r, True, replies)
     \<and> rec_Term r = ''xterm'' \<and> rec_Width r = 80 \<and> rec_Height r = 24 \<and> rec_winches r = [(80, 24)]"
proof -
  let ?up = "\<lparr>up_session = True, up_stdin = True, up_pty = True, up_shell = True, up_wait = CleanExit\<rparr>"
  let ?i = "NewGuest (replicate 16 (CHR ''y''))"
  have m: "may_visit ?i example_game"
    using Validate_NewGuest [of "replicate 16 (CHR ''y'')"] by (simp add: may_visit_def example_game_def example_entry_def)
  have d: "dialWithTimeout example_net u h = None" for u h by (simp add: dialWithTimeout_def example_net_def)
  obtain r started replies where h: "handleSession (new_record ''u'' None) False
      (requests (snd (Run example_net ?up (\<lambda>_. []) (replicate 16 (CHR ''x'')) example_session example_game 0 ?i))) = (r, started, replies)"
    by (metis prod_cases3)
  have w: "w_Width (ps_window example_session) = 80" "w_Height (ps_window example_session) = 24" by (simp_all add: example_session_def)
  show ?thesis
    using game_sees_player [OF m d _ _ _ _ _ _ _ _ h] h w by (auto simp: example_session_def u32_def)
qed

end
