(* ===== verification/Fake_Game.thy ===== *)
theory Fake_Game
  imports Bridge_Session Prober
begin

text \<open>
  The test doubles of \<^verbatim>\<open>internal/testutil/fakegame.go\<close>: a game server with a script for its sessions,
  a listener that never speaks and one that speaks only a banner, as the prober and the bridge meet
  them. What a client sees of the SSH library in a server is what it documents: the version line
  comes first, a client that pins a host key refuses any other, a session ends with the exit status
  the server sent, or with an error if it sent none.

  Shown: the prober finds in a game's version line the version the game was built with; a visit to a
  game ends as its script ended, and leaves exactly one record, of the player that was announced.
\<close>

section \<open>Scripts\<close>

text \<open>
  A script gets the record of the session, by reference and so as it is in the end, and all the player
  types, and returns what it writes and its status. A negative status closes the channel without an
  exit status.
\<close>

type_synonym Script = "SessionRecord \<Rightarrow> string \<Rightarrow> string \<times> int"

definition EchoScript :: Script where
  "EchoScript rec input = (input, 0)"

definition exit_status :: "int \<Rightarrow> int option" where
  "exit_status status = (if 0 \<le> status then Some (u32 status) else None)"

text \<open>What the client's \<^verbatim>\<open>Wait\<close> makes of it.\<close>

definition wait_of :: "int option \<Rightarrow> wait_result" where
  "wait_of st = (case st of None \<Rightarrow> WaitFailed | Some n \<Rightarrow> if n = 0 then CleanExit else ExitStatus n)"

section \<open>The game\<close>

record FakeGame =
  fg_Addr :: string
  fg_HostPub :: PublicKey
  fg_version :: string
  fg_script :: Script
  fg_listening :: bool
  fg_sessions :: "SessionRecord list"

text \<open>The version line of the server; the library has a default.\<close>

definition StartFakeGameVersion :: "string \<Rightarrow> string \<Rightarrow> PublicKey \<Rightarrow> string \<Rightarrow> Script option \<Rightarrow> FakeGame" where
  "StartFakeGameVersion goVersion addr hostPub version script =
     \<lparr>fg_Addr = addr, fg_HostPub = hostPub, fg_version = (if version = [] then goVersion else ''SSH-2.0-'' @ version),
      fg_script = (case script of None \<Rightarrow> EchoScript | Some s \<Rightarrow> s), fg_listening = True, fg_sessions = []\<rparr>"

definition StartFakeGame :: "string \<Rightarrow> string \<Rightarrow> PublicKey \<Rightarrow> Script option \<Rightarrow> FakeGame" where
  "StartFakeGame goVersion addr hostPub script = StartFakeGameVersion goVersion addr hostPub [] script"

definition Stop_game :: "FakeGame \<Rightarrow> FakeGame" where
  "Stop_game f = f\<lparr>fg_listening := False\<rparr>"

definition Sessions :: "FakeGame \<Rightarrow> SessionRecord list" where
  "Sessions f = fg_sessions f"

definition Winches :: "SessionRecord \<Rightarrow> (int \<times> int) list" where
  "Winches r = rec_winches r"

text \<open>
  A channel of a connection: its type, whether accepting it works, its requests, and the player's input.
  A session that reached the shell is recorded, and its script runs once.
\<close>

record channel_req =
  cr_type :: string
  cr_accepted :: bool
  cr_requests :: "request list"
  cr_input :: string

datatype channel_end = Rejected | NotAccepted | NoShell | ScriptEnded string "int option"

definition serve_channel :: "string \<Rightarrow> PublicKey option \<Rightarrow> channel_req \<Rightarrow> FakeGame \<Rightarrow> channel_end \<times> FakeGame" where
  "serve_channel user key ch f =
     (if cr_type ch \<noteq> ''session'' then (Rejected, f)
      else if \<not> cr_accepted ch then (NotAccepted, f)
      else
        (let (r, started, _) = handleSession (new_record user key) False (cr_requests ch)
         in if \<not> started then (NoShell, f)
            else (let (out, status) = fg_script f r (cr_input ch)
                  in (ScriptEnded out (exit_status status), f\<lparr>fg_sessions := fg_sessions f @ [r]\<rparr>))))"

text \<open>
  The record's key comes from the permissions, where the callback for keys put it in its printed form;
  \<open>print\<close> and \<open>scan\<close> are \<^verbatim>\<open>MarshalAuthorizedKey\<close> and \<^verbatim>\<open>ParseAuthorizedKey\<close>.
\<close>

definition wire_key :: "(PublicKey \<Rightarrow> string) \<Rightarrow> (string \<Rightarrow> PublicKey option) \<Rightarrow> PublicKey \<Rightarrow> PublicKey option" where
  "wire_key print scan key = (let wk = print key in if wk \<noteq> [] then scan wk else None)"

fun serve_channels :: "string \<Rightarrow> PublicKey option \<Rightarrow> channel_req list \<Rightarrow> FakeGame \<Rightarrow> channel_end list \<times> FakeGame" where
  "serve_channels user key [] f = ([], f)"
| "serve_channels user key (ch # chs) f =
     (let (e, f1) = serve_channel user key ch f; (es, f2) = serve_channels user key chs f1 in (e # es, f2))"

definition handleConn ::
    "(PublicKey \<Rightarrow> string) \<Rightarrow> (string \<Rightarrow> PublicKey option) \<Rightarrow> bool \<Rightarrow> string \<Rightarrow> PublicKey \<Rightarrow> channel_req list \<Rightarrow> FakeGame
     \<Rightarrow> channel_end list \<times> FakeGame" where
  "handleConn print scan handshake user key chs f =
     (if \<not> handshake then ([], f) else serve_channels user (wire_key print scan key) chs f)"

section \<open>Listeners\<close>

text \<open>What a dial to each of them meets: the prober, and the bridge's handshake.\<close>

datatype listener = GameServer FakeGame | SilentListener | CustomBannerListener string

definition StartSilentListener :: listener where
  "StartSilentListener = SilentListener"

definition StartCustomBannerListener :: "string \<Rightarrow> listener" where
  "StartCustomBannerListener banner = CustomBannerListener banner"

definition StartBannerListener :: listener where
  "StartBannerListener = StartCustomBannerListener (''SSH-2.0-fakebanner'' @ [chr 13, chr 10])"

fun answer :: "listener \<Rightarrow> dial_outcome" where
  "answer (GameServer f) = (if fg_listening f then Bytes (fg_version f @ [chr 13, chr 10]) else Refused)"
| "answer SilentListener = Bytes []"
| "answer (CustomBannerListener banner) = Bytes banner"

text \<open>
  A client that pins a host key takes no other; the games accept every key. \<open>lib\<close> is what the library
  makes of a server that says no more than a given text.
\<close>

fun handshakes :: "(string \<Rightarrow> handshake) \<Rightarrow> listener \<Rightarrow> dial_env" where
  "handshakes lib (GameServer f) =
     \<lparr>de_tcp = fg_listening f, de_deadline = True,
      de_handshake = (\<lambda>user hostKey. if hostKey = None \<or> hostKey = Some (fg_HostPub f) then Established else HandshakeFailed),
      de_clear = True\<rparr>"
| "handshakes lib SilentListener = \<lparr>de_tcp = True, de_deadline = True, de_handshake = (\<lambda>_ _. lib []), de_clear = True\<rparr>"
| "handshakes lib (CustomBannerListener banner) =
     \<lparr>de_tcp = True, de_deadline = True, de_handshake = (\<lambda>_ _. lib banner), de_clear = True\<rparr>"

section \<open>Visits\<close>

text \<open>
  A bridge and a game put together: \<open>Run\<close> dials the game, its requests arrive on the session channel of
  the connection, which the proxy's key authenticated, and how the channel ends is what \<^verbatim>\<open>Wait\<close> returns.
\<close>

definition granted :: "wait_result \<Rightarrow> upstream" where
  "granted w = \<lparr>up_session = True, up_stdin = True, up_pty = True, up_shell = True, up_wait = w\<rparr>"

fun channel_wait :: "channel_end list \<Rightarrow> wait_result" where
  "channel_wait [ScriptEnded out status] = wait_of status"
| "channel_wait _ = WaitFailed"

definition visit ::
    "(PublicKey \<Rightarrow> string) \<Rightarrow> (string \<Rightarrow> PublicKey option) \<Rightarrow> PublicKey \<Rightarrow> (string \<Rightarrow> handshake) \<Rightarrow> string \<Rightarrow> player_session \<Rightarrow> Game
     \<Rightarrow> int \<Rightarrow> Identity \<Rightarrow> string \<Rightarrow> FakeGame \<Rightarrow> bridge_error option \<times> FakeGame" where
  "visit print scan proxyKey lib bytes sess game timeout i input f =
     (let net = handshakes lib (GameServer f);
          user = bridge_user i (NewToken bytes);
          sent = snd (Run net (granted CleanExit) print bytes sess game timeout i);
          connected = (sent \<noteq> [] \<and> dialWithTimeout net user (g_HostKey game) = None);
          (ends, f') = handleConn print scan connected user proxyKey
            [\<lparr>cr_type = ''session'', cr_accepted = True, cr_requests = requests sent, cr_input = input\<rparr>] f
      in (fst (Run net (granted (channel_wait ends)) print bytes sess game timeout i), f'))"

lemma scan_silence: "scan_banner 8 [] = Inl NoBanner"
  by (simp add: numeral_eq_Suc HasPrefix_def)

lemma game_dial:
  "dialWithTimeout (handshakes lib (GameServer f)) user hostKey =
     (if \<not> fg_listening f then Some ErrDialFailed
      else if hostKey = None \<or> hostKey = Some (fg_HostPub f) then None else Some ErrAccessRejected)"
  by (simp add: dialWithTimeout_def)

lemma dial_sent:
  assumes "may_visit i game" shows "snd (Run net up print bytes sess game timeout i) \<noteq> []"
  using Run_sent [OF assms, of net up print bytes sess timeout] by force

lemma visit_refused:
  assumes "\<not> may_visit i game"
  shows "visit print scan proxyKey lib bytes sess game timeout i input f = (Some ErrAccessRejected, f)"
  by (simp add: visit_def Run_refused [OF assms] handleConn_def)

lemma visit_not_dialled:
  assumes "may_visit i game" "dialWithTimeout (handshakes lib (GameServer f)) (bridge_user i (NewToken bytes)) (g_HostKey game) = Some e"
  shows "visit print scan proxyKey lib bytes sess game timeout i input f = (Some e, f)"
  by (simp add: visit_def Let_def assms(2) handleConn_def Run_dial_failed [OF assms] del: handshakes.simps)

lemma visit_connected:
  assumes "may_visit i game" "dialWithTimeout (handshakes lib (GameServer f)) (bridge_user i (NewToken bytes)) (g_HostKey game) = None"
    and "handleSession (new_record (bridge_user i (NewToken bytes)) (wire_key print scan proxyKey)) False
           (requests (snd (Run (handshakes lib (GameServer f)) (granted CleanExit) print bytes sess game timeout i))) = (r, True, replies)"
  shows "visit print scan proxyKey lib bytes sess game timeout i input f =
    (wait_error (wait_of (exit_status (snd (fg_script f r input)))), f\<lparr>fg_sessions := fg_sessions f @ [r]\<rparr>)"
proof -
  have "fst (Run (handshakes lib (GameServer f)) (granted w) print bytes sess game timeout i) = wait_error w" for w
    using Run_connected [OF assms(1,2), of "granted w"] by (simp add: granted_def wait_error_def)
  then show ?thesis using assms(2,3) dial_sent [OF assms(1)]
    by (simp add: visit_def Let_def handleConn_def serve_channel_def split_beta del: handshakes.simps)
qed

section \<open>Properties\<close>

text \<open>
  What the prober finds out. A game that listens is found online, with the version it was built with,
  be it a release or a development build; one that stopped, and one that accepts connections but does
  not speak, count as down; and a banner without a version means online without a version.
\<close>

theorem probe_listeners:
  assumes "fleet_version v" and "f = StartFakeGameVersion goVersion addr pub v script"
  shows "probe (net(addr := answer (GameServer f))) addr = Inr v
    \<and> probe (net(addr := answer (GameServer (Stop_game f)))) addr = Inl DialError
    \<and> probe (net(addr := answer StartSilentListener)) addr = Inl NoBanner
    \<and> probe (net(addr := answer StartBannerListener)) addr = Inr []"
proof -
  note c = fleet_version_chars [OF assms(1)]
  have f: "fg_version f = ''SSH-2.0-'' @ v" "fg_listening f" using c(4) by (simp_all add: assms(2) StartFakeGameVersion_def)
  have hit: "scan_banner 8 (''SSH-2.0-'' @ l @ [chr 13, chr 10]) = Inr (bannerVersion (''SSH-2.0-'' @ l @ [chr 13, chr 10]))"
    if "chr 10 \<notin> set l" for l
    using scan_banner_hit [of "l @ [chr 13]" 7 "[]"] that by (simp add: chr_eq_iff del: scan_banner.simps)
  have "scan_banner 8 ((''SSH-2.0-'' @ v) @ [chr 13, chr 10]) = Inr v"
    using hit [OF c(2)] bannerVersion_fleet [OF assms(1), of "[]" "[chr 13, chr 10]"]
    by (simp add: banner_tail_def del: scan_banner.simps)
  moreover have "scan_banner 8 (''SSH-2.0-fakebanner'' @ [chr 13, chr 10]) = Inr []"
    using hit [of "''fakebanner''"]
    by (simp add: chr_lf chr_cr HasPrefix_def bannerVersion_def TrimPrefix_def TrimRight_def IndexByte_absent_eq versionPattern_def
        Let_def del: scan_banner.simps)
  ultimately show ?thesis
    by (simp add: f probe_def Stop_game_def StartSilentListener_def StartBannerListener_def StartCustomBannerListener_def
        scan_silence del: scan_banner.simps)
qed

definition example_host :: PublicKey where
  "example_host = \<lparr>key_Type = ''ssh-ed25519'', key_Marshal = ''host''\<rparr>"

theorem probe_listeners_witness:
  "probe ((\<lambda>_. Refused)(''farm:22'' := answer (GameServer (StartFakeGameVersion ''SSH-2.0-Go'' ''farm:22'' example_host ''2.4.3'' None)))) ''farm:22'' = Inr ''2.4.3''
   \<and> probe ((\<lambda>_. Refused)(''farm:22'' := answer StartSilentListener)) ''farm:22'' = Inl NoBanner"
proof -
  have "fleet_version ''2.4.3''" by (simp add: fleet_version_def versionPattern_def version_part_def is_digit_def)
  from probe_listeners [OF this refl, where addr = "''farm:22''" and net = "\<lambda>_. Refused"] show ?thesis by blast
qed



end
