(* ===== verification/Spec2Isabelle.thy ===== *)
theory Spec2Isabelle
  imports Service Watcher Terminal Fake_Game
begin

text \<open>
  \<^bold>\<open>A verification of the ssharcade router\<close>

  The router (\<^verbatim>\<open>cmd/ssh-arcadelobby\<close>, packages under \<^verbatim>\<open>internal/\<close>) is the SSH front door of a fleet of
  terminal games. A player connects; the connection passes the authentication guard, a key or the
  guest prompt gives it an identity, the middleware chain charges it against the session budgets,
  and the session handler then alternates between the arcade menu and a bridge into the chosen
  game's own SSH server, until the player leaves. Beside the sessions a registry loads the list of
  games from a file and probes them, a banner source follows the operator's notice, a store
  remembers which alpha warnings a player has dismissed, and a presence tracker feeds a published
  player count. \<^verbatim>\<open>main\<close> reads the configuration, starts all of this and takes it down again.

  \<^bold>\<open>How the code is modelled.\<close> Structs are records, enumerations and errors datatypes, Go strings are
  lists of bytes, maps are HOL maps; an operation is a function from the old state to the new one,
  a returned error a value of a sum type, and a panic (an index out of range, a send on or a close
  of a closed channel) is \<open>None\<close>. Objects shared by pointer (connections, seats, channels) are
  addresses into a heap. Where goroutines interleave, every critical section is a step of its own
  and the component is a step relation whose invariant holds in all reachable states (locale
  \<open>machine\<close>). Clocks, random bytes, files, the network, SQLite statements, the TOML decoder, the SSH
  library, the terminal library and Bubble Tea are arguments: their answers are quantified over,
  and what a theorem needs of them is among its hypotheses. Counters are unbounded integers; they
  are counts of live objects or sums of two configured limits and stay far below the width of
  Go's \<^verbatim>\<open>int\<close>. Where numbers are parsed the width matters and is modelled: \<open>Atoi\<close> and \<open>ParseDuration\<close>
  refuse what does not fit in 64 bits, \<open>ParseFloat\<close> rounds to binary64, and sizes on the wire to a
  game are taken modulo \<open>2^32\<close>.

  \<^bold>\<open>The theories.\<close>

  \<^item> \<open>Arcade_Prelude\<close>: counters with read-as-zero default and their tallies, the locale \<open>machine\<close>, shared
    lemmas, and who holds which of a set of shared resources (\<open>owns\<close>). \<open>Go_Text\<close>, \<open>Go_Unicode\<close>, \<open>Go_Hash\<close>, \<open>Go_Net\<close>, \<open>Go_Json\<close>, \<open>Go_Time\<close>: executable models of what the
    code uses of Go's standard library (strings, UTF-8 and case folding, SHA-256 and base64,
    addresses, JSON and dates, numbers and durations).

  \<^item> \<open>Proxyproto\<close>, \<open>Identity\<close> (\<^verbatim>\<open>internal/proxyproto\<close>, \<^verbatim>\<open>internal/identity\<close>): the user name by which a game
    is told who the player is. \<open>Parse\<close> and \<open>Encode\<close> are inverse on what is sent and on what is accepted.

  \<^item> \<open>Session_Limits\<close>, \<open>Authguard\<close> (\<^verbatim>\<open>internal/server/limits.go\<close>, \<^verbatim>\<open>authguard.go\<close>): session and connection
    budgets. The counters refine the multiset of live sessions; all budgets hold in every reachable
    state.

  \<^item> \<open>Pubsub\<close>, \<open>Registry\<close>, \<open>Prober\<close>, \<open>Banner\<close> (\<^verbatim>\<open>internal/registry\<close>, \<^verbatim>\<open>internal/banner\<close>): subscriptions, the
    contract of which is the locale \<open>poke_hub\<close>, the games file, health with flap damping, reloading.
    Validation accepts exactly the files that obey the rules; a game is online exactly as its recent
    probes say; a reload is all or nothing; no interleaving panics.

  \<^item> \<open>Watcher\<close> (the loops of the registry and of the banner, \<^verbatim>\<open>sighup_unix.go\<close>): following a file one system
    call at a time, while the file is written, sessions use the source and signals arrive. The contract
    of a source is the locale \<open>file_source\<close>, which both sources satisfy. No write is lost, and a request
    for a reload takes effect.

  \<^item> \<open>Store\<close>, \<open>Presence\<close> (\<^verbatim>\<open>internal/store\<close>, \<^verbatim>\<open>internal/server/prefs.go\<close>, \<^verbatim>\<open>internal/presence\<close>): the database
    as tables under statements that may fail, the two implementations of the menu's preferences
    (locale \<open>alpha_prefs\<close>), the tracker as a refinement of a map from sessions to places, and the
    snapshot file, which is replaced atomically.

  \<^item> \<open>Lobby\<close>, \<open>View\<close> (\<^verbatim>\<open>internal/lobby\<close>): the menu, every message it handles and every screen it draws. Only
    admitted games start, alpha games only after their warning; drawing never panics, the frame keeps
    its size, and the hitboxes agree with what is on the screen.

  \<^item> \<open>Bridge\<close>, \<open>Bridge_Session\<close>, \<open>Fake_Game\<close> (\<^verbatim>\<open>internal/bridge\<close>, \<^verbatim>\<open>internal/testutil\<close>): the connection to a
    game, whom it announces, how it ends, and its transparency while it lasts; and the game server of the
    integration tests, put together with the bridge: what a visit leaves behind in a game, and that it
    ends for the router as it ended for the game.

  \<^item> \<open>Server\<close>, \<open>Login\<close>, \<open>Pump\<close>, \<open>Terminal\<close>, \<open>Lobby_Run\<close> (\<^verbatim>\<open>internal/server\<close>: \<^verbatim>\<open>auth.go\<close>, \<^verbatim>\<open>scope.go\<close>, \<^verbatim>\<open>pty.go\<close>,
    \<^verbatim>\<open>handler.go\<close>, \<^verbatim>\<open>shutdown.go\<close>, \<^verbatim>\<open>pump.go\<close>, \<^verbatim>\<open>teaprogram.go\<close>, the callbacks and the chain of \<^verbatim>\<open>server.go\<close>): how a
    connection logs in and whom its sessions are taken for, the middleware chain, the loop between menu
    and games, the pumps of input and window sizes, the options and the output of a menu program, and one
    run of the menu with all it sets up and gives back.

  \<^item> \<open>Config\<close>, \<open>Startup\<close>, \<open>Main_Program\<close> (\<^verbatim>\<open>internal/config\<close>, \<^verbatim>\<open>server.New\<close> and its keys, \<^verbatim>\<open>internal/log\<close>, the
    start and the end of \<^verbatim>\<open>main\<close>): which environments are accepted, that an accepted configuration keeps
    room for keyed players and serves, that the proxy key is stable, and that the parts that were
    started fit together.

  \<^item> \<open>Arcade\<close>, \<open>Arcade_Steps\<close>, \<open>Service\<close> (all of the above at once): a router with any number of connections
    and sessions over the one guard, budget, registry, banner, store and tracker they share. Every
    critical section of a handler is a step of its session's \<open>stage\<close>, and the steps of all sessions and of
    the background tasks interleave freely (\<open>arcade_exec\<close>, \<open>arcade_run\<close>). \<open>Arcade_Steps\<close> shows that every
    step succeeds and keeps the invariant, \<open>Service\<close> composes it with \<open>boot\<close> and \<open>halt\<close> to \<open>go_main\<close> and
    states what follows for a router that serves: sessions are who they are, the configured budgets
    hold, the published counts are true, a dismissed warning stays dismissed in all sessions of the
    player, everything taken is given back, and the parts are closed in order.

  This theory adds what spans the components: the player who logged in is the player a game gets.

  \<^bold>\<open>Loops and fuel.\<close> Recursion is structural or has a termination proof; the number scanners end because
  the input shrinks. Two loops run against another party. \<open>deliver\<close> of the window pump races its
  consumer: \<open>deliver_loop\<close> takes a schedule of the consumer's moves, one entry per round, and two rounds
  are proved to be enough for every schedule. The handler's loop and the menu's event loop run as
  long as the player stays, so they take the list of rounds or messages that happen; likewise a serving
  router takes the list of steps, and a file watcher the list of system calls and outside events.

  \<^bold>\<open>Not modelled.\<close> The version string, which is an argument; the insides of Bubble Tea, lipgloss, the SSH
  library, its rate limiter and SQLite; log lines; real time: that a ticker fires, that a probe cycle or a
  dial ends within its timeout, are steps that may happen, and nothing says when.
\<close>

section \<open>From the login to the game\<close>

lemma handle_may_visit:
  assumes "Validate i = None" "handle i store fault authkey now t rounds = (store', es, t', fin)" "Bridged g \<in> set es"
  shows "may_visit i g"
proof -
  have "es = fst (handle_loop i [] rounds)" using assms(2) by (auto simp: handle_def split_def Let_def)
  then obtain r :: round and st where "Playable (rd_games r) (g_ID g) (id_Kind i = Guest) = Inr st" "gs_Game st = g"
    using handle_loop_bridged [of g i "[]" rounds] assms(3) by auto
  then have "id_Kind i = Guest \<longrightarrow> g_AllowGuests g" using Playable_Inr by blast
  then show ?thesis using assms(1) by (simp add: may_visit_def)
qed

text \<open>
  (C1) The player a game gets is the player who logged in. Take any connection the guard accepts,
  any sequence of attempts to authenticate on it with other connections acting in between, any
  session of it that was given an identity, any sequence of menus and visits, and any game it was
  bridged into. The visit was allowed. The connection to the game announces either the fingerprint
  of a key the client proved to hold and the save slot of the user name it logged in with, or a guest
  whom the game takes and cannot mistake for a keyed player, and whose connection the guard has
  counted as a guest's.
\<close>

theorem login_to_game:
  assumes "guard_inv g0" and "WrapConn remote now0 g0 = (True, s)" and "undisturbed as"
    and "login allow as s = (True, s')"
    and "resolveIdentity allow (lg_ext s') (lg_key s') user bytes = Some i"
    and "handle i store fault authkey now t rounds = (store', es, t', fin)" and "Bridged g \<in> set es"
  shows "may_visit i g \<and> (\<exists>u rest. snd (Run net up auth_line token sess g timeout i) =
        Dial (g_Addr g) u (g_HostKey g) (if timeout \<le> 0 then 5000000000 else timeout) # rest
      \<and> ((\<exists>k. KeyAttempt k True \<in> set as
             \<and> Parse u = Inr (FingerprintBytes k, if SanitizeSlot user = [] then DefaultSlot else SanitizeSlot user))
         \<or> (allow \<and> g_AllowGuests g \<and> Parse u = Inl WantHexThenDot
             \<and> (\<exists>c. lg_conn s = Some c \<and> ag_guestConnections (lg_guard s') c \<noteq> None))))"
proof -
  obtain c where c: "lg_conn s = Some c" "guard_inv (lg_guard s)"
    using assms(2) wrap_inv [OF assms(1), of remote now0] by (auto simp: WrapConn_def split_def Let_def split: option.splits)
  obtain pre a rest where a: "as = pre @ a # rest" "logged_in allow (lg_key s) pre a c s'"
    using login_ok [OF assms(4,3) c(2,1)] by (auto simp: login_by_def)
  have valid: "Validate i = None" by (rule resolveIdentity_valid [OF assms(5)])
  have may: "may_visit i g" by (rule handle_may_visit [OF valid assms(6,7)])
  note run = Run_announces [OF may, of net up auth_line token sess timeout]
  from a(2) consider (key) k where "a = KeyAttempt k True" "lg_ext s' authKindExtension = Some ''keyed''" "lg_key s' = Some k"
    | (guest) answers where "a = GuestAttempt answers" "allow" "lg_ext s' authKindExtension = Some ''guest''"
        "ag_guestConnections (lg_guard s') c \<noteq> None"
    by (auto simp: logged_in_def split: auth_attempt.splits)
  then show ?thesis
  proof cases
    case key
    then have "i = NewKeyed (Some k) user" using assms(5) resolveIdentity_keyed [of "lg_ext s'"] by auto
    then have "id_Kind i = Keyed" "id_PublicKey i = Some k" "id_Slot i = (if SanitizeSlot user = [] then DefaultSlot else SanitizeSlot user)"
      by (simp_all add: NewKeyed_def Let_def)
    then show ?thesis using run may key(1) a(1) by auto
  next
    case guest
    then have "id_Kind i = Guest"
      using assms(5) valid Validate_zero by (auto simp: resolveIdentity_def NewGuest_def Let_def split: if_splits)
    then show ?thesis using run may guest c(1) by (auto simp: may_visit_def)
  qed
qed

theorem login_to_game_witness:
  "let s = snd (WrapConn ''10.0.0.1:5000'' 100 (server_guard 1 1 60 1 1));
       k = \<lparr>key_Type = ''ssh-ed25519'', key_Marshal = ''own''\<rparr>; i = NewKeyed (Some k) ''scout'';
       g = gs_Game (example_status ''farm'' True True)
   in fst (login True [KeyAttempt k True] s)
     \<and> Bridged g \<in> set (fst (snd (handle i None False (\<lambda>_. []) 0 NewTracker [example_round (KindPlay g), example_round KindQuit])))
     \<and> (\<exists>u rest. snd (Run example_net \<lparr>up_session = True, up_stdin = True, up_pty = True, up_shell = True, up_wait = CleanExit\<rparr>
           (\<lambda>_. []) (replicate 16 (CHR ''z'')) example_session g 0 i) = Dial (g_Addr g) u (g_HostKey g) 5000000000 # rest)"
proof -
  let ?k = "\<lparr>key_Type = ''ssh-ed25519'', key_Marshal = ''own''\<rparr>"
  let ?i = "NewKeyed (Some ?k) ''scout''" and ?g = "gs_Game (example_status ''farm'' True True)"
  let ?rounds = "[example_round (KindPlay ?g), example_round KindQuit]"
  define s where "s = snd (WrapConn ''10.0.0.1:5000'' 100 (server_guard 1 1 60 1 1))"
  define s' where "s' = snd (login True [KeyAttempt ?k True] s)"
  have inv: "guard_inv (server_guard 1 1 60 1 1)" by (intro guard_init_inv guard_init.intros)
  have w: "WrapConn ''10.0.0.1:5000'' 100 (server_guard 1 1 60 1 1) = (True, s)" 
    by (simp add: s_def WrapConn_def wrap_def server_guard_def newAuthGuard_def Let_def)
  have l: "login True [KeyAttempt ?k True] s = (True, s')" and e: "lg_ext s' authKindExtension = Some ''keyed''" "lg_key s' = Some ?k"
    by (simp_all add: s'_def publicKeyAuth_def)
  have u: "undisturbed [KeyAttempt ?k True]" by (simp add: undisturbed_def)
  have r: "resolveIdentity True (lg_ext s') (lg_key s') ''scout'' [] = Some ?i" using e by (simp add: resolveIdentity_keyed)
  obtain st es t f where h: "handle ?i None False (\<lambda>_. []) 0 NewTracker ?rounds = (st, es, t, f)"
    by (metis prod_cases4)
  then have "es = fst (handle_loop ?i [] ?rounds)" by (auto simp: handle_def split_def Let_def)
  then have b: "Bridged ?g \<in> set es"
    by (simp add: example_round_def example_status_def example_entry_def bridge_events_def Let_def split_def)
  show ?thesis
    using login_to_game [OF inv w u l r h b, of example_net
        "\<lparr>up_session = True, up_stdin = True, up_pty = True, up_shell = True, up_wait = CleanExit\<rparr>"
        "\<lambda>_. []" "replicate 16 (CHR ''z'')" example_session 0] h b l
    by (auto simp: Let_def s_def)
qed

end
